(* ===== verification/Prelude.thy ===== *)
theory Prelude
  imports Main "HOL-Library.Word" "HOL-Library.Monad_Syntax"
begin

text \<open>
  Shared vocabulary of the development: the machine types the C code uses, the collections
  of rewrite rules the component theories fill, and generic facts on lists and words.
\<close>

unbundle bit_operations_syntax

section \<open>Types\<close>

text \<open>
  An IPv4 address (\<open>struct in_addr\<close>) is its 32-bit value in host order: the code only compares
  addresses, masks them after \<open>ntohl\<close>, prints them and copies them in network order, and every
  one of those is a function of this value. Bytes on a socket are 8-bit words, C strings are
  HOL strings whose end is the terminating NUL.
\<close>

type_synonym ip = "32 word"
type_synonym port = "16 word"
type_synonym byte = "8 word"

text \<open>The code returns \<open>0\<close> for success and \<open>-1\<close> for failure.\<close>

abbreviation ok :: int where "ok \<equiv> 0"
abbreviation fail :: int where "fail \<equiv> -1"

section \<open>Collections\<close>

named_theorems frame "what an operation leaves unchanged"
named_theorems inv_intro "an operation keeps a component's invariant"

section \<open>Lists\<close>

lemma takeWhile_all: "list_all P xs \<Longrightarrow> takeWhile P xs = xs"
  by (induction xs) auto

lemma dropWhile_all: "list_all P xs \<Longrightarrow> dropWhile P xs = []"
  by (induction xs) auto

lemma takeWhile_append_stop:
  "list_all P xs \<Longrightarrow> \<not> P y \<Longrightarrow> takeWhile P (xs @ y # ys) = xs"
  by (induction xs) auto

lemma dropWhile_append_stop:
  "list_all P xs \<Longrightarrow> \<not> P y \<Longrightarrow> dropWhile P (xs @ y # ys) = y # ys"
  by (induction xs) auto

lemma dropWhile_head: "dropWhile P xs = y # ys \<Longrightarrow> \<not> P y"
  by (induction xs) (auto split: if_splits)

lemma list_all_takeWhile [simp]: "list_all P (takeWhile P xs)"
  by (induction xs) auto

lemma split_last: "xs \<noteq> [] \<Longrightarrow> \<exists>ys y. xs = ys @ [y]"
  by (rule rev_exhaust [of xs]) auto

lemma length_remove1_less: "x \<in> set xs \<Longrightarrow> length (remove1 x xs) < length xs"
  by (induction xs) auto

lemma filter_remove1_same: "filter (\<lambda>r. r \<noteq> a) (remove1 a rs) = filter (\<lambda>r. r \<noteq> a) rs"
  by (induction rs) auto

section \<open>Maps\<close>

lemma map_upd_eq_iff: "(m(k \<mapsto> v)) k' = (if k' = k then Some v else m k')"
  by simp

end
