(* ===== verification/CLib.thy ===== *)
theory CLib
  imports Prelude
begin

text \<open>
  The C library routines the program's parsers and printers are made of, on strings whose end
  is the terminating NUL: \<open>isdigit\<close>, \<open>isspace\<close>, \<open>strtol\<close> with its end pointer and \<open>ERANGE\<close>,
  decimal conversion (\<open>%u\<close>, \<open>%ld\<close>, \<open>%llu\<close>), \<open>strchr\<close> and \<open>strrchr\<close>, \<open>snprintf\<close>'s
  truncation, \<open>fgets\<close>, and glibc's \<open>inet_pton\<close> and \<open>inet_ntop\<close> for \<open>AF_INET\<close>.
\<close>

section \<open>Characters\<close>

definition is_digit :: "char \<Rightarrow> bool" where
  "is_digit c \<longleftrightarrow> 48 \<le> (of_char c :: nat) \<and> (of_char c :: nat) \<le> 57"

definition digit_val :: "char \<Rightarrow> nat" where
  "digit_val c = (of_char c :: nat) - 48"

definition digit_char :: "nat \<Rightarrow> char" where
  "digit_char n = char_of (48 + n)"

definition is_space :: "char \<Rightarrow> bool" where
  "is_space c \<longleftrightarrow> (of_char c :: nat) \<in> {32, 9, 10, 11, 12, 13}"

lemma of_char_digit_char [simp]: "n < 10 \<Longrightarrow> (of_char (digit_char n) :: nat) = 48 + n"
  by (simp add: digit_char_def of_char_of)

lemma is_digit_digit_char [simp]: "n < 10 \<Longrightarrow> is_digit (digit_char n)"
  by (simp add: is_digit_def)

lemma digit_val_digit_char [simp]: "n < 10 \<Longrightarrow> digit_val (digit_char n) = n"
  by (simp add: digit_val_def)

lemma digit_val_bound [simp]: "is_digit c \<Longrightarrow> digit_val c < 10"
  by (auto simp: is_digit_def digit_val_def)

lemma digit_char_digit_val [simp]: "is_digit c \<Longrightarrow> digit_char (digit_val c) = c"
  by (simp add: is_digit_def digit_val_def digit_char_def)

lemma is_space_colon: "\<not> is_space CHR '':''"
  by (simp add: is_space_def)

lemma digit_not_space: "is_digit c \<Longrightarrow> \<not> is_space c"
  by (auto simp: is_digit_def is_space_def)

lemma not_digit_literals [simp]:
  "\<not> is_digit CHR ''.''" "\<not> is_digit CHR '':''" "\<not> is_digit CHR ''/''" "\<not> is_digit CHR '',''"
  "\<not> is_digit CHR ''-''" "\<not> is_digit CHR ''+''" "\<not> is_digit CHR '' ''" "\<not> is_digit (CHR 0x0A)"
  "\<not> is_digit (CHR 0x0D)" "\<not> is_digit (CHR 0x09)" "\<not> is_digit (CHR 0x00)"
  by (simp_all add: is_digit_def)

section \<open>Decimal numbers\<close>

fun dec :: "nat \<Rightarrow> string" where
  "dec n = (if n < 10 then [digit_char n] else dec (n div 10) @ [digit_char (n mod 10)])"

declare dec.simps [simp del]

definition dval :: "string \<Rightarrow> nat" where
  "dval s = foldl (\<lambda>v c. 10 * v + digit_val c) 0 s"

lemma dval_Nil [simp]: "dval [] = 0"
  by (simp add: dval_def)

lemma dval_snoc [simp]: "dval (s @ [c]) = 10 * dval s + digit_val c"
  by (simp add: dval_def)

lemma dec_nonempty [simp]: "dec n \<noteq> []"
  by (subst dec.simps) simp

lemma dec_digits [simp]: "list_all is_digit (dec n)"
proof (induction n rule: dec.induct)
  case (1 n)
  then show ?case by (subst dec.simps) simp
qed

lemma dval_dec [simp]: "dval (dec n) = n"
proof (induction n rule: dec.induct)
  case (1 n)
  show ?case
  proof (cases "n < 10")
    case True
    then show ?thesis by (subst dec.simps) (simp add: dval_def)
  next
    case False
    with "1.IH" show ?thesis by (subst dec.simps) simp
  qed
qed

lemma dec_inject [simp]: "dec m = dec n \<longleftrightarrow> m = n"
  by (metis dval_dec)

lemma length_dec_le: "n < 10 ^ k \<Longrightarrow> 0 < k \<Longrightarrow> length (dec n) \<le> k"
proof (induction k arbitrary: n)
  case 0
  then show ?case by simp
next
  case (Suc k)
  show ?case
  proof (cases "n < 10")
    case True
    then show ?thesis by (subst dec.simps) simp
  next
    case False
    with Suc.prems have "0 < k" by (cases k) auto
    moreover from Suc.prems have "n div 10 < 10 ^ k"
      by (simp add: div_less_iff_less_mult mult.commute)
    ultimately have "length (dec (n div 10)) \<le> k" by (rule Suc.IH [rotated])
    with False show ?thesis by (subst dec.simps) simp
  qed
qed

lemma dec_leading: "0 < n \<Longrightarrow> hd (dec n) \<noteq> CHR ''0''"
proof (induction n rule: dec.induct)
  case (1 n)
  show ?case
  proof (cases "n < 10")
    case True
    with "1.prems" have "(of_char (digit_char n) :: nat) \<noteq> of_char CHR ''0''" by simp
    then have "digit_char n \<noteq> CHR ''0''" by metis
    with True show ?thesis by (subst dec.simps) simp
  next
    case False
    with 1 show ?thesis by (subst dec.simps) simp
  qed
qed

lemma digit_char_0: "digit_char 0 = CHR ''0''"
  by code_simp

lemma dec_0: "dec 0 = ''0''"
  by (simp add: dec.simps digit_char_0)

text \<open>A digit string without a leading zero is the decimal form of its value.\<close>

definition canonical_dec :: "string \<Rightarrow> bool" where
  "canonical_dec s \<longleftrightarrow> s \<noteq> [] \<and> list_all is_digit s \<and> (length s = 1 \<or> hd s \<noteq> CHR ''0'')"

lemma canonical_dec_dec [simp]: "canonical_dec (dec n)"
  by (cases "n = 0") (auto simp: canonical_dec_def dec_leading, simp add: dec_0)

lemma dval_pos: "list_all is_digit s \<Longrightarrow> s \<noteq> [] \<Longrightarrow> hd s \<noteq> CHR ''0'' \<Longrightarrow> 0 < dval s"
proof (induction s rule: rev_induct)
  case Nil
  then show ?case by simp
next
  case (snoc c s)
  show ?case
  proof (cases "s = []")
    case True
    with snoc.prems have d: "is_digit c" and n0: "c \<noteq> CHR ''0''" by auto
    have "digit_val c \<noteq> 0"
      using digit_char_digit_val [OF d] n0 digit_char_0 by metis
    with True show ?thesis by (simp add: dval_def)
  next
    case False
    with snoc show ?thesis by simp
  qed
qed


lemma dec_dval: "canonical_dec s \<Longrightarrow> dec (dval s) = s"
proof (induction s rule: rev_induct)
  case Nil
  then show ?case by (simp add: canonical_dec_def)
next
  case (snoc c s)
  then have d: "is_digit c" by (simp add: canonical_dec_def)
  show ?case
  proof (cases "s = []")
    case True
    with d show ?thesis by (subst dec.simps) (simp add: dval_def)
  next
    case False
    with snoc.prems have nz: "hd s \<noteq> CHR ''0''" and ds: "list_all is_digit s"
      by (auto simp: canonical_dec_def)
    with False have c: "canonical_dec s" and pos: "0 < dval s"
      by (auto simp: canonical_dec_def intro: dval_pos)
    have "dec (dval (s @ [c])) = dec (dval s) @ [digit_char (digit_val c)]"
      using pos digit_val_bound [OF d] by (subst dec.simps) simp
    with snoc.IH [OF c] d show ?thesis by simp
  qed
qed

section \<open>Searching and splitting strings\<close>

text \<open>
  \<open>strchr(s, c)\<close> and \<open>strrchr(s, c)\<close> as the pieces of \<open>s\<close> before and after the character they
  point to; \<^const>\<open>None\<close> is \<open>NULL\<close>.
\<close>

definition strchr_split :: "char \<Rightarrow> string \<Rightarrow> (string \<times> string) option" where
  "strchr_split c s =
     (case dropWhile (\<lambda>x. x \<noteq> c) s of
        [] \<Rightarrow> None
      | _ # r \<Rightarrow> Some (takeWhile (\<lambda>x. x \<noteq> c) s, r))"

definition strrchr_split :: "char \<Rightarrow> string \<Rightarrow> (string \<times> string) option" where
  "strrchr_split c s =
     (case dropWhile (\<lambda>x. x \<noteq> c) (rev s) of
        [] \<Rightarrow> None
      | _ # r \<Rightarrow> Some (rev r, rev (takeWhile (\<lambda>x. x \<noteq> c) (rev s))))"

lemma strchr_split_append:
  assumes "c \<notin> set a"
  shows "strchr_split c (a @ c # b) = Some (a, b)"
proof -
  have "list_all (\<lambda>x. x \<noteq> c) a" using assms by (auto simp: list_all_iff)
  then show ?thesis
    by (simp add: strchr_split_def dropWhile_append_stop takeWhile_append_stop)
qed

lemma strchr_split_None [simp]: "c \<notin> set s \<Longrightarrow> strchr_split c s = None"
proof -
  assume "c \<notin> set s"
  then have "list_all (\<lambda>x. x \<noteq> c) s" by (auto simp: list_all_iff)
  then show ?thesis by (simp add: strchr_split_def dropWhile_all)
qed

lemma strchr_split_SomeD:
  assumes "strchr_split c s = Some (a, b)"
  shows "s = a @ c # b \<and> c \<notin> set a"
proof -
  from assms obtain x r where d: "dropWhile (\<lambda>x. x \<noteq> c) s = x # r" and ab: "b = r"
    "a = takeWhile (\<lambda>x. x \<noteq> c) s"
    by (auto simp: strchr_split_def split: list.splits)
  from d have "x = c" using dropWhile_head by fastforce
  moreover have "s = takeWhile (\<lambda>x. x \<noteq> c) s @ dropWhile (\<lambda>x. x \<noteq> c) s" by simp
  moreover have "c \<notin> set (takeWhile (\<lambda>x. x \<noteq> c) s)" by (auto dest: set_takeWhileD)
  ultimately show ?thesis using d ab by metis
qed

lemma strrchr_split_append:
  assumes "c \<notin> set b"
  shows "strrchr_split c (a @ c # b) = Some (a, b)"
proof -
  have "list_all (\<lambda>x. x \<noteq> c) (rev b)" using assms by (auto simp: list_all_iff)
  then show ?thesis
    by (simp add: strrchr_split_def dropWhile_append_stop takeWhile_append_stop)
qed

lemma strrchr_split_SomeD:
  assumes "strrchr_split c s = Some (a, b)"
  shows "s = a @ c # b \<and> c \<notin> set b"
proof -
  from assms obtain x r where d: "dropWhile (\<lambda>x. x \<noteq> c) (rev s) = x # r" and ab: "a = rev r"
    "b = rev (takeWhile (\<lambda>x. x \<noteq> c) (rev s))"
    by (auto simp: strrchr_split_def split: list.splits)
  from d have "x = c" using dropWhile_head by fastforce
  have "rev s = takeWhile (\<lambda>x. x \<noteq> c) (rev s) @ c # r"
    using d \<open>x = c\<close> by (metis takeWhile_dropWhile_id)
  then have "rev (rev s) = rev (takeWhile (\<lambda>x. x \<noteq> c) (rev s) @ c # r)" by (rule arg_cong)
  then have "s = rev r @ c # rev (takeWhile (\<lambda>x. x \<noteq> c) (rev s))" by simp
  moreover have "c \<notin> set (rev (takeWhile (\<lambda>x. x \<noteq> c) (rev s)))" by (auto dest: set_takeWhileD)
  ultimately show ?thesis using ab by metis
qed

fun split_on :: "char \<Rightarrow> string \<Rightarrow> string list" where
  "split_on c [] = [[]]"
| "split_on c (x # xs) =
     (if x = c then [] # split_on c xs
      else (case split_on c xs of [] \<Rightarrow> [[x]] | y # ys \<Rightarrow> (x # y) # ys))"

lemma split_on_nonempty [simp]: "split_on c s \<noteq> []"
  by (induction s) (auto split: list.splits)

lemma split_on_plain: "c \<notin> set s \<Longrightarrow> split_on c s = [s]"
  by (induction s) auto

lemma split_on_append: "c \<notin> set a \<Longrightarrow> split_on c (a @ c # b) = a # split_on c b"
  by (induction a) auto

fun join_with :: "char \<Rightarrow> string list \<Rightarrow> string" where
  "join_with c [] = []"
| "join_with c [s] = s"
| "join_with c (s # t # ts) = s @ c # join_with c (t # ts)"

lemma join_split [simp]: "join_with c (split_on c s) = s"
proof (induction s)
  case (Cons x xs)
  obtain y ys where e: "split_on c xs = y # ys" by (cases "split_on c xs") auto
  show ?case
  proof (cases "x = c")
    case True
    with Cons e show ?thesis by simp
  next
    case False
    with Cons e show ?thesis by (cases ys) auto
  qed
qed simp

lemma split_join:
  "ts \<noteq> [] \<Longrightarrow> (\<forall>t \<in> set ts. c \<notin> set t) \<Longrightarrow> split_on c (join_with c ts) = ts"
  by (induction c ts rule: join_with.induct) (auto simp: split_on_plain split_on_append)

text \<open>A line buffer is read as a C string: up to its first NUL.\<close>

definition cstr :: "string \<Rightarrow> string" where
  "cstr s = takeWhile (\<lambda>c. c \<noteq> CHR 0x00) s"

lemma cstr_id [simp]: "CHR 0x00 \<notin> set s \<Longrightarrow> cstr s = s"
  by (simp add: cstr_def takeWhile_eq_all_conv) blast

text \<open>\<open>snprintf\<close> writes at most \<open>n - 1\<close> characters and the NUL.\<close>

definition snprintf :: "nat \<Rightarrow> string \<Rightarrow> string" where
  "snprintf n s = take (n - 1) s"

lemma snprintf_fits [simp]: "length s < n \<Longrightarrow> snprintf n s = s"
  by (simp add: snprintf_def)

section \<open>strtol\<close>

text \<open>
  \<open>strtol(s, &end, 10)\<close> on the 64-bit \<open>long\<close> of the targets: leading white space, an optional
  sign, digits. The result is the value, the text at \<open>end\<close> and whether \<open>errno\<close> was set to
  \<open>ERANGE\<close>; with no digits the value is 0 and \<open>end\<close> is the start of the string.
\<close>

definition LONG_MAX :: int where "LONG_MAX = 9223372036854775807"
definition LONG_MIN :: int where "LONG_MIN = - 9223372036854775808"

definition strip_sign :: "string \<Rightarrow> bool \<times> string" where
  "strip_sign s = (case s of
       [] \<Rightarrow> (False, [])
     | c # cs \<Rightarrow> if c = CHR ''-'' then (True, cs) else if c = CHR ''+'' then (False, cs) else (False, s))"

definition strtol :: "string \<Rightarrow> int \<times> string \<times> bool" where
  "strtol s =
     (let (neg, t) = strip_sign (dropWhile is_space s);
          ds = takeWhile is_digit t;
          rest = dropWhile is_digit t;
          v = (if neg then - int (dval ds) else int (dval ds))
      in if ds = [] then (0, s, False)
         else if v > LONG_MAX then (LONG_MAX, rest, True)
         else if v < LONG_MIN then (LONG_MIN, rest, True)
         else (v, rest, False))"

lemma digits_takeWhile:
  assumes "list_all is_digit ds" and "rest = [] \<or> \<not> is_digit (hd rest)"
  shows "takeWhile is_digit (ds @ rest) = ds" and "dropWhile is_digit (ds @ rest) = rest"
  using assms by (cases rest; simp add: takeWhile_all dropWhile_all takeWhile_append_stop
      dropWhile_append_stop)+

lemma digits_head:
  assumes "list_all is_digit ds" and "ds \<noteq> []"
  shows "dropWhile is_space (ds @ rest) = ds @ rest" and "strip_sign (ds @ rest) = (False, ds @ rest)"
proof -
  obtain c cs where ds: "ds = c # cs" using assms(2) by (cases ds) auto
  with assms(1) have c: "is_digit c" by simp
  with ds show "dropWhile is_space (ds @ rest) = ds @ rest" by (simp add: digit_not_space)
  from c have "c \<noteq> CHR ''-''" and "c \<noteq> CHR ''+''" by auto
  with ds show "strip_sign (ds @ rest) = (False, ds @ rest)" by (simp add: strip_sign_def)
qed

lemma strtol_dec:
  assumes "int n \<le> LONG_MAX" and "rest = [] \<or> \<not> is_digit (hd rest)"
  shows "strtol (dec n @ rest) = (int n, rest, False)"
  using assms digits_head [of "dec n" rest] digits_takeWhile [of "dec n" rest]
  by (simp add: strtol_def LONG_MIN_def)

lemma strtol_dec_all [simp]: "int n \<le> LONG_MAX \<Longrightarrow> strtol (dec n) = (int n, [], False)"
  using strtol_dec [of n "[]"] by simp

section \<open>Reading lines\<close>

text \<open>
  \<open>fgets(line, n, file)\<close> reads at most \<open>n - 1\<close> characters and stops after a newline;
  \<open>read_lines n\<close> is the sequence of lines a \<open>while (fgets(...) != NULL)\<close> loop sees.
\<close>

abbreviation newline :: char where "newline \<equiv> CHR 0x0A"

fun fgets_take :: "nat \<Rightarrow> string \<Rightarrow> string \<times> string" where
  "fgets_take 0 s = ([], s)"
| "fgets_take (Suc k) [] = ([], [])"
| "fgets_take (Suc k) (c # cs) =
     (if c = newline then ([c], cs)
      else (let (l, r) = fgets_take k cs in (c # l, r)))"

definition fgets :: "nat \<Rightarrow> string \<Rightarrow> (string \<times> string) option" where
  "fgets n s = (if s = [] then None else Some (fgets_take (n - 1) s))"

lemma fgets_take_append [simp]: "fst (fgets_take k s) @ snd (fgets_take k s) = s"
  by (induction k s rule: fgets_take.induct) (auto simp: case_prod_unfold Let_def)

lemma fgets_take_shorter: "0 < k \<Longrightarrow> s \<noteq> [] \<Longrightarrow> length (snd (fgets_take k s)) < length s"
proof -
  assume "0 < k" "s \<noteq> []"
  then have "fst (fgets_take k s) \<noteq> []"
    by (cases k; cases s) (auto simp: case_prod_unfold Let_def)
  then have "0 < length (fst (fgets_take k s))" by simp
  moreover have "length (fst (fgets_take k s)) + length (snd (fgets_take k s)) = length s"
    using fgets_take_append [of k s] by (metis length_append)
  ultimately show ?thesis by linarith
qed

function read_lines :: "nat \<Rightarrow> string \<Rightarrow> string list" where
  "read_lines n s =
     (if n < 2 then []
      else case fgets n s of None \<Rightarrow> [] | Some (l, r) \<Rightarrow> l # read_lines n r)"
  by pat_completeness auto
termination
proof (relation "measure (\<lambda>(n, s). length s)")
  fix n s x l r
  assume "\<not> n < 2" "fgets n s = Some x" "(l, r) = x"
  then have "r = snd (fgets_take (n - 1) s)" and "s \<noteq> []" "0 < n - 1"
    by (auto simp: fgets_def split: if_splits)
  then show "((n, r), (n, s)) \<in> measure (\<lambda>(n, s). length s)"
    by (simp add: fgets_take_shorter)
qed simp

declare read_lines.simps [simp del]

lemma read_lines_Nil [simp]: "read_lines n [] = []"
  by (subst read_lines.simps) (simp add: fgets_def)

lemma fgets_take_line:
  "newline \<notin> set l \<Longrightarrow> length l < k \<Longrightarrow> fgets_take k (l @ newline # r) = (l @ [newline], r)"
proof (induction l arbitrary: k)
  case Nil
  then show ?case by (cases k) auto
next
  case (Cons c l)
  then obtain k' where "k = Suc k'" by (cases k) auto
  with Cons show ?case by auto
qed

lemma read_lines_line:
  assumes "newline \<notin> set l" and "length l + 2 \<le> n"
  shows "read_lines n (l @ newline # r) = (l @ [newline]) # read_lines n r"
proof -
  have "fgets_take (n - 1) (l @ newline # r) = (l @ [newline], r)"
    using assms by (intro fgets_take_line) auto
  with assms show ?thesis by (subst read_lines.simps) (simp add: fgets_def)
qed

text \<open>\<open>line[strcspn(line, "\r\n")] = '\0'\<close>: the C string in the buffer up to a line end.\<close>

definition chomp :: "string \<Rightarrow> string" where
  "chomp l = takeWhile (\<lambda>c. c \<noteq> CHR 0x0D \<and> c \<noteq> newline) (cstr l)"

definition plain :: "string \<Rightarrow> bool" where
  "plain s \<longleftrightarrow> CHR 0x00 \<notin> set s \<and> CHR 0x0D \<notin> set s \<and> newline \<notin> set s"

lemma chomp_plain: "plain s \<Longrightarrow> chomp (s @ [newline]) = s"
proof -
  assume p: "plain s"
  then have "cstr (s @ [newline]) = s @ [newline]" by (simp add: plain_def)
  moreover have "takeWhile (\<lambda>c. c \<noteq> CHR 0x0D \<and> c \<noteq> newline) (s @ [newline]) = s"
    using p by (intro takeWhile_append_stop) (auto simp: plain_def list_all_iff)
  ultimately show ?thesis by (simp add: chomp_def)
qed

lemma plain_append [simp]: "plain (a @ b) \<longleftrightarrow> plain a \<and> plain b"
  by (auto simp: plain_def)

lemma plain_Cons [simp]:
  "plain (c # s) \<longleftrightarrow> c \<noteq> CHR 0x00 \<and> c \<noteq> CHR 0x0D \<and> c \<noteq> newline \<and> plain s"
  by (auto simp: plain_def)

lemma plain_Nil [simp]: "plain []"
  by (simp add: plain_def)

lemma plain_digits: "list_all is_digit s \<Longrightarrow> plain s"
  by (auto simp: plain_def list_all_iff)

lemma plain_dec [simp]: "plain (dec n)"
  by (simp add: plain_digits)

lemma dec_no_char [simp]: "\<not> is_digit c \<Longrightarrow> c \<notin> set (dec n)"
  using dec_digits [of n] by (auto simp: list_all_iff)

end
