(* ===== verification/World.thy ===== *)
theory World
  imports CLib
begin

text \<open>
  What the program's stateful code acts on. A \<open>world\<close> holds the files it reads and writes, the
  directories it creates, the kernel's packet-filter state (of any type: only the external
  \<open>iptables\<close> command touches it) with the history of its states, the process table as \<open>/proc\<close>
  shows it and the signals sent.
  Everything the operating system decides is a parameter, the record \<open>os\<close>: which of the
  fallible calls fail (the \<open>n\<close>-th call of a run fails if \<open>faults os n\<close>; a theorem for all
  \<open>os\<close> holds under every pattern of failures), what the \<open>iptables\<close> command answers, how the
  process table changes while the program sleeps (\<open>elapse\<close>) or signals (\<open>deliver\<close>), in what order
  \<open>readdir\<close> lists \<open>/proc\<close>, whether the port is taken, and what an uninitialised buffer holds
  (\<open>junk\<close>), what \<open>systemctl\<close> answers and which processes it stops.
\<close>

section \<open>State and parameters\<close>

datatype errno = ENOENT | EEXIST | ESRCH | EOTHER

record proc =
  p_stat :: string
  p_exe :: "string option"
  p_cmdline :: string
  p_status :: string
  p_sid :: int
  p_pgid :: int

type_synonym ptable = "(int \<times> proc) list"

text \<open>A signal sent: target, signal number, and the target's \<open>/proc\<close> entry at that moment.\<close>

record sig_event =
  sig_target :: int
  sig_number :: nat
  sig_proc :: "proc option"

record 'k world =
  files :: "string \<rightharpoonup> string"
  dirs :: "string set"
  nat_tab :: 'k
  nat_log :: "'k list"
  procs :: ptable
  signals :: "sig_event list"
  tick :: nat

text \<open>
  What becomes of a child the program starts: it reports in time, it runs to its end although
  its parent has given up on it, or it dies before it has done anything.
\<close>

datatype launch = InTime | TooLate | NeverRan

record 'k os =
  faults :: "nat \<Rightarrow> bool"
  short_write :: "nat \<Rightarrow> nat"
  spawn_faults :: "nat \<Rightarrow> bool"
  executable :: "string \<Rightarrow> bool"
  iptables :: "string list \<Rightarrow> 'k \<Rightarrow> bool \<times> 'k"
  self_pid :: nat
  self_exe :: "string option"
  elapse :: "nat \<Rightarrow> ptable \<Rightarrow> ptable"
  deliver :: "nat \<Rightarrow> int \<Rightarrow> nat \<Rightarrow> ptable \<Rightarrow> ptable"
  listing :: "nat \<Rightarrow> ptable \<Rightarrow> string list"
  port_busy :: "nat \<Rightarrow> ptable \<Rightarrow> bool"
  junk :: "nat \<Rightarrow> string"
  child :: "nat \<Rightarrow> launch \<times> nat \<times> proc"
  systemctl :: "nat \<Rightarrow> string list \<Rightarrow> ptable \<Rightarrow> bool \<times> ptable"

section \<open>Calls\<close>

text \<open>Each fallible call consumes one step of the run and asks \<open>faults\<close> whether it fails.\<close>

definition sys_fault :: "'k os \<Rightarrow> 'k world \<Rightarrow> bool \<times> 'k world" where
  "sys_fault os w = (faults os (tick w), w\<lparr>tick := Suc (tick w)\<rparr>)"

text \<open>\<open>fork\<close> and \<open>waitpid\<close> around an external command have their own failures.\<close>

definition sys_spawn_fault :: "'k os \<Rightarrow> 'k world \<Rightarrow> bool \<times> 'k world" where
  "sys_spawn_fault os w = (spawn_faults os (tick w), w\<lparr>tick := Suc (tick w)\<rparr>)"

definition sys_mkdir :: "'k os \<Rightarrow> string \<Rightarrow> 'k world \<Rightarrow> errno option \<times> 'k world" where
  "sys_mkdir os path w =
     (let (f, w) = sys_fault os w in
      if f then (Some EOTHER, w)
      else if path \<in> dirs w then (Some EEXIST, w)
      else (None, w\<lparr>dirs := insert path (dirs w)\<rparr>))"

text \<open>A directory is in use while a file or another directory lies in it; then \<open>rmdir\<close> fails.\<close>

definition dir_in_use :: "'k world \<Rightarrow> string \<Rightarrow> bool" where
  "dir_in_use w path \<longleftrightarrow>
     (\<exists>p \<in> dom (files w) \<union> dirs w. take (Suc (length path)) p = path @ ''/'')"

definition sys_rmdir :: "'k os \<Rightarrow> string \<Rightarrow> 'k world \<Rightarrow> errno option \<times> 'k world" where
  "sys_rmdir os path w =
     (let (f, w) = sys_fault os w in
      if f then (Some EOTHER, w)
      else if path \<notin> dirs w then (Some ENOENT, w)
      else if dir_in_use w path then (Some EOTHER, w)
      else (None, w\<lparr>dirs := dirs w - {path}\<rparr>))"

text \<open>\<open>open(path, O_WRONLY | O_CREAT | O_TRUNC)\<close> and \<open>fopen(path, "w")\<close>.\<close>

definition sys_create :: "'k os \<Rightarrow> string \<Rightarrow> 'k world \<Rightarrow> bool \<times> 'k world" where
  "sys_create os path w =
     (let (f, w) = sys_fault os w in
      if f then (False, w) else (True, w\<lparr>files := (files w)(path \<mapsto> '''')\<rparr>))"

text \<open>
  \<open>dprintf\<close>, \<open>fputs\<close>, \<open>fprintf\<close> on a file just created: appends the text, or fails after
  writing a prefix of it.
\<close>

definition append_text :: "string \<Rightarrow> string \<Rightarrow> 'k world \<Rightarrow> 'k world" where
  "append_text path s w =
     w\<lparr>files := (files w)(path \<mapsto> (case files w path of None \<Rightarrow> s | Some old \<Rightarrow> old @ s))\<rparr>"

definition sys_write :: "'k os \<Rightarrow> string \<Rightarrow> string \<Rightarrow> 'k world \<Rightarrow> bool \<times> 'k world" where
  "sys_write os path s w =
     (let n = short_write os (tick w); (f, w) = sys_fault os w in
      if f then (False, append_text path (take n s) w) else (True, append_text path s w))"

text \<open>\<open>fsync\<close>, \<open>close\<close>, \<open>fclose\<close>: only their result matters.\<close>

definition sys_check :: "'k os \<Rightarrow> 'k world \<Rightarrow> bool \<times> 'k world" where
  "sys_check os w = (let (f, w) = sys_fault os w in (\<not> f, w))"

definition sys_unlink :: "'k os \<Rightarrow> string \<Rightarrow> 'k world \<Rightarrow> errno option \<times> 'k world" where
  "sys_unlink os path w =
     (let (f, w) = sys_fault os w in
      if f then (Some EOTHER, w)
      else if files w path = None then (Some ENOENT, w)
      else (None, w\<lparr>files := (files w)(path := None)\<rparr>))"

definition sys_rename :: "'k os \<Rightarrow> string \<Rightarrow> string \<Rightarrow> 'k world \<Rightarrow> bool \<times> 'k world" where
  "sys_rename os from to w =
     (let (f, w) = sys_fault os w in
      if f \<or> files w from = None then (False, w)
      else (True, w\<lparr>files := (files w)(to := files w from, from := None)\<rparr>))"

definition sys_open_read :: "'k os \<Rightarrow> string \<Rightarrow> 'k world \<Rightarrow> string option \<times> 'k world" where
  "sys_open_read os path w =
     (let (f, w) = sys_fault os w in (if f then None else files w path, w))"

definition sys_access :: "'k os \<Rightarrow> string \<Rightarrow> 'k world \<Rightarrow> bool \<times> 'k world" where
  "sys_access os path w =
     (let (f, w) = sys_fault os w in (\<not> f \<and> files w path \<noteq> None, w))"

lemmas sys_defs = sys_fault_def sys_mkdir_def sys_rmdir_def sys_create_def sys_write_def
  sys_check_def sys_unlink_def sys_rename_def sys_open_read_def sys_access_def append_text_def

text \<open>
  Processes. A file of \<open>/proc\<close> can be read if the process exists. \<open>kill\<close> with a negative target
  means the process group; signal 0 only asks.
\<close>

definition sys_proc :: "'k os \<Rightarrow> int \<Rightarrow> 'k world \<Rightarrow> proc option \<times> 'k world" where
  "sys_proc os pid w = (let (f, w) = sys_fault os w in (if f then None else map_of (procs w) pid, w))"

definition kill_target :: "ptable \<Rightarrow> int \<Rightarrow> bool" where
  "kill_target ps target =
     (if target < 0 then list_ex (\<lambda>(_, p). p_pgid p = - target) ps else map_of ps target \<noteq> None)"

definition sys_kill :: "'k os \<Rightarrow> int \<Rightarrow> nat \<Rightarrow> 'k world \<Rightarrow> errno option \<times> 'k world" where
  "sys_kill os target sig w =
     (let n = tick w; (f, w) = sys_fault os w in
      if f then (Some EOTHER, w)
      else if \<not> kill_target (procs w) target then (Some ESRCH, w)
      else if sig = 0 then (None, w)
      else (None, w\<lparr>procs := deliver os n target sig (procs w),
             signals := signals w @ [\<lparr>sig_target = target, sig_number = sig,
               sig_proc = map_of (procs w) \<bar>target\<bar>\<rparr>]\<rparr>))"

definition sys_sleep :: "'k os \<Rightarrow> 'k world \<Rightarrow> 'k world" where
  "sys_sleep os w = w\<lparr>procs := elapse os (tick w) (procs w), tick := Suc (tick w)\<rparr>"

section \<open>What the calls leave alone\<close>

text \<open>
  Two worlds agree outside the file system: same packet filter, processes and signals. Every
  file operation keeps this, which is how the operations' theorems know that saving the
  configuration does not touch the firewall.
\<close>

definition same_kernel :: "'k world \<Rightarrow> 'k world \<Rightarrow> bool" where
  "same_kernel w w' \<longleftrightarrow> nat_tab w' = nat_tab w \<and> nat_log w' = nat_log w \<and> procs w' = procs w
     \<and> signals w' = signals w"

definition same_files :: "'k world \<Rightarrow> 'k world \<Rightarrow> bool" where
  "same_files w w' \<longleftrightarrow> files w' = files w \<and> dirs w' = dirs w"

lemma same_kernel_refl [simp]: "same_kernel w w"
  by (simp add: same_kernel_def)

lemma same_kernel_trans: "same_kernel a b \<Longrightarrow> same_kernel b c \<Longrightarrow> same_kernel a c"
  by (simp add: same_kernel_def)

lemma same_files_refl [simp]: "same_files w w"
  by (simp add: same_files_def)

lemma same_files_trans: "same_files a b \<Longrightarrow> same_files b c \<Longrightarrow> same_files a c"
  by (simp add: same_files_def)

lemma sys_same_kernel [frame]:
  "sys_fault os w = (f, w') \<Longrightarrow> same_kernel w w'"
  "sys_mkdir os d w = (e, w') \<Longrightarrow> same_kernel w w'"
  "sys_rmdir os d w = (e, w') \<Longrightarrow> same_kernel w w'"
  "sys_create os p w = (b, w') \<Longrightarrow> same_kernel w w'"
  "sys_write os p s w = (b, w') \<Longrightarrow> same_kernel w w'"
  "sys_check os w = (b, w') \<Longrightarrow> same_kernel w w'"
  "sys_unlink os p w = (e, w') \<Longrightarrow> same_kernel w w'"
  "sys_rename os p q w = (b, w') \<Longrightarrow> same_kernel w w'"
  "sys_open_read os p w = (c, w') \<Longrightarrow> same_kernel w w'"
  "sys_access os p w = (b, w') \<Longrightarrow> same_kernel w w'"
  "sys_proc os pid w = (pr, w') \<Longrightarrow> same_kernel w w'"
  by (auto simp: sys_defs same_kernel_def sys_proc_def Let_def split: if_splits)

lemma sys_same_files [frame]:
  "sys_fault os w = (f, w') \<Longrightarrow> same_files w w'"
  "sys_check os w = (b, w') \<Longrightarrow> same_files w w'"
  "sys_open_read os p w = (c, w') \<Longrightarrow> same_files w w'"
  "sys_access os p w = (b, w') \<Longrightarrow> same_files w w'"
  "sys_proc os pid w = (pr, w') \<Longrightarrow> same_files w w'"
  "sys_kill os pid sig w = (e, w') \<Longrightarrow> same_files w w'"
  by (auto simp: sys_defs same_files_def sys_proc_def sys_kill_def Let_def split: if_splits)

section \<open>A machine on which nothing fails\<close>

definition quiet_os :: "(string list \<Rightarrow> 'k \<Rightarrow> bool \<times> 'k) \<Rightarrow> 'k os" where
  "quiet_os ipt = \<lparr>faults = (\<lambda>_. False), short_write = (\<lambda>_. 0), spawn_faults = (\<lambda>_. False),
     executable = (\<lambda>p. p = ''/usr/sbin/iptables''), iptables = ipt, self_pid = 4242,
     self_exe = Some ''/usr/local/bin/free_proxy'', elapse = (\<lambda>_ ps. ps),
     deliver = (\<lambda>_ target sig ps. filter (\<lambda>(q, p). q \<noteq> target \<and> p_pgid p \<noteq> - target) ps),
     listing = (\<lambda>_ _. []), port_busy = (\<lambda>_ _. False), junk = (\<lambda>_. []),
     child = (\<lambda>_. (InTime, 4300, \<lparr>p_stat = [], p_exe = None, p_cmdline = [], p_status = [],
       p_sid = 4300, p_pgid = 4300\<rparr>)),
     systemctl = (\<lambda>_ _ ps. (True, ps))\<rparr>"

definition empty_world :: "'k \<Rightarrow> 'k world" where
  "empty_world k = \<lparr>files = (\<lambda>_. None), dirs = {}, nat_tab = k, nat_log = [], procs = [],
     signals = [], tick = 0\<rparr>"

lemma quiet_os_sel [simp]:
  "faults (quiet_os ipt) = (\<lambda>_. False)" "spawn_faults (quiet_os ipt) = (\<lambda>_. False)"
  "iptables (quiet_os ipt) = ipt" "self_pid (quiet_os ipt) = 4242"
  "elapse (quiet_os ipt) = (\<lambda>_ ps. ps)" "port_busy (quiet_os ipt) = (\<lambda>_ _. False)"
  by (simp_all add: quiet_os_def)

end
