(* ===== verification/Inet.thy ===== *)
theory Inet
  imports CLib
begin

text \<open>
  IPv4 addresses as text: glibc's \<open>inet_pton(AF_INET, ...)\<close>, which accepts exactly four
  decimal octets without leading zeros, and \<open>inet_ntop\<close>, which prints that form. The codec
  contract the parsers and the printers of the program rely on is the locale \<open>text_codec\<close>.
\<close>

section \<open>A printer and its parser\<close>

text \<open>
  The contract of a textual form: parsing what was printed gives the value back, and only
  printed text is accepted.
\<close>

locale text_codec =
  fixes print :: "'a \<Rightarrow> string"
    and parse :: "string \<Rightarrow> 'a option"
  assumes parse_print: "parse (print a) = Some a"
    and print_parse: "parse s = Some a \<Longrightarrow> print a = s"
begin

lemma print_inject: "print a = print b \<longleftrightarrow> a = b"
  by (metis parse_print option.inject)

lemma parse_iff: "parse s = Some a \<longleftrightarrow> s = print a"
  by (metis parse_print print_parse)

lemma parse_inject: "parse s = Some a \<Longrightarrow> parse t = Some a \<Longrightarrow> s = t"
  by (metis print_parse)

end

section \<open>Octets\<close>

definition octet_of :: "string \<Rightarrow> nat option" where
  "octet_of s = (if canonical_dec s \<and> dval s < 256 then Some (dval s) else None)"

lemma octet_of_dec [simp]: "n < 256 \<Longrightarrow> octet_of (dec n) = Some n"
  by (simp add: octet_of_def)

lemma octet_of_Some: "octet_of s = Some n \<longleftrightarrow> n < 256 \<and> s = dec n"
  by (auto simp: octet_of_def dec_dval)

definition octets :: "ip \<Rightarrow> nat list" where
  "octets a = (let v = unat a in
     [v div 256 div 256 div 256, v div 256 div 256 mod 256, v div 256 mod 256, v mod 256])"

definition ip_of_octets :: "nat \<Rightarrow> nat \<Rightarrow> nat \<Rightarrow> nat \<Rightarrow> ip" where
  "ip_of_octets a b c d = word_of_nat (((a * 256 + b) * 256 + c) * 256 + d)"

lemma push_digit: "(d::nat) < 256 \<Longrightarrow> (x * 256 + d) div 256 = x \<and> (x * 256 + d) mod 256 = d"
  by simp

lemma unat_ip_of_nat: "n < 4294967296 \<Longrightarrow> unat (word_of_nat n :: ip) = n"
  by (simp add: unat_of_nat take_bit_nat_eq_self_iff)

lemma unat_ip_of_octets:
  assumes "a < 256" "b < 256" "c < 256" "d < 256"
  shows "unat (ip_of_octets a b c d) = ((a * 256 + b) * 256 + c) * 256 + d"
  unfolding ip_of_octets_def by (rule unat_ip_of_nat) (use assms in simp)

lemma octets_ip_of_octets:
  assumes "a < 256" "b < 256" "c < 256" "d < 256"
  shows "octets (ip_of_octets a b c d) = [a, b, c, d]"
  unfolding octets_def Let_def unat_ip_of_octets [OF assms] using assms by (simp only: push_digit)

lemma unat_ip_bound: "unat (a :: ip) < 4294967296"
proof -
  have "unat a < 2 ^ LENGTH(32)" by (rule unsigned_less)
  then show ?thesis by simp
qed

lemma octets_bound: "\<forall>n \<in> set (octets a). n < 256"
proof -
  have "unat a div 256 div 256 div 256 < 256"
    using unat_ip_bound [of a] by (simp add: div_less_iff_less_mult div_mult2_eq [symmetric])
  then show ?thesis by (simp add: octets_def Let_def)
qed

lemma ip_of_octets_octets:
  "octets x = [a, b, c, d] \<Longrightarrow> ip_of_octets a b c d = x"
proof -
  assume o: "octets x = [a, b, c, d]"
  define v where "v = unat x"
  from o have "a = v div 256 div 256 div 256" "b = v div 256 div 256 mod 256" "c = v div 256 mod 256"
    "d = v mod 256"
    by (simp_all add: octets_def Let_def v_def)
  then have "((a * 256 + b) * 256 + c) * 256 + d = v"
    by (simp only: div_mult_mod_eq)
  then show ?thesis by (simp only: ip_of_octets_def v_def of_nat_unat ucast_id)
qed

lemma octets_cases: obtains a b c d where "octets x = [a, b, c, d]"
  by (simp add: octets_def Let_def)

section \<open>inet_pton and inet_ntop\<close>

definition inet_ntop :: "ip \<Rightarrow> string" where
  "inet_ntop a = join_with CHR ''.'' (map dec (octets a))"

definition inet_pton :: "string \<Rightarrow> ip option" where
  "inet_pton s =
     (case map octet_of (split_on CHR ''.'' s) of
        [Some a, Some b, Some c, Some d] \<Rightarrow> Some (ip_of_octets a b c d)
      | _ \<Rightarrow> None)"

lemma inet_pton_ntop [simp]: "inet_pton (inet_ntop x) = Some x"
proof -
  obtain a b c d where o: "octets x = [a, b, c, d]" by (rule octets_cases)
  with octets_bound [of x] have b: "a < 256" "b < 256" "c < 256" "d < 256" by auto
  have "split_on CHR ''.'' (inet_ntop x) = map dec (octets x)"
    unfolding inet_ntop_def by (rule split_join) (auto simp: o)
  with o b show ?thesis by (simp add: inet_pton_def ip_of_octets_octets)
qed

lemma inet_pton_SomeD: "inet_pton s = Some x \<Longrightarrow> inet_ntop x = s"
proof -
  assume "inet_pton s = Some x"
  then obtain a b c d where m: "map octet_of (split_on CHR ''.'' s) = [Some a, Some b, Some c, Some d]"
    and x: "x = ip_of_octets a b c d"
    by (auto simp: inet_pton_def split: list.splits option.splits)
  from m have bs: "a < 256" "b < 256" "c < 256" "d < 256"
    and sp: "split_on CHR ''.'' s = map dec [a, b, c, d]"
    by (auto simp: octet_of_Some)
  from x bs have "inet_ntop x = join_with CHR ''.'' (map dec [a, b, c, d])"
    by (simp add: inet_ntop_def octets_ip_of_octets)
  also have "\<dots> = s" using sp join_split [of "CHR ''.''" s] by simp
  finally show ?thesis .
qed

interpretation addr: text_codec inet_ntop inet_pton
  by unfold_locales (simp, rule inet_pton_SomeD)

text \<open>\<open>INET_ADDRSTRLEN\<close> is 16: every printed address fits with its NUL.\<close>

lemma length_inet_ntop: "length (inet_ntop x) \<le> 15"
proof -
  obtain a b c d where o: "octets x = [a, b, c, d]" by (rule octets_cases)
  with octets_bound [of x] have "a < 10 ^ 3" "b < 10 ^ 3" "c < 10 ^ 3" "d < 10 ^ 3" by auto
  then have "length (dec a) \<le> 3" "length (dec b) \<le> 3" "length (dec c) \<le> 3" "length (dec d) \<le> 3"
    by (auto intro: length_dec_le)
  then show ?thesis by (simp add: inet_ntop_def o)
qed

lemma inet_ntop_chars: "c \<in> set (inet_ntop x) \<Longrightarrow> is_digit c \<or> c = CHR ''.''"
proof -
  obtain a b c' d where o: "octets x = [a, b, c', d]" by (rule octets_cases)
  assume "c \<in> set (inet_ntop x)"
  with o show ?thesis using dec_digits by (auto simp: inet_ntop_def list_all_iff)
qed

lemma inet_ntop_no_char [simp]: "\<not> is_digit c \<Longrightarrow> c \<noteq> CHR ''.'' \<Longrightarrow> c \<notin> set (inet_ntop x)"
  using inet_ntop_chars by blast

lemma plain_inet_ntop [simp]: "plain (inet_ntop x)"
  by (simp add: plain_def)

lemma inet_ntop_nonempty [simp]: "inet_ntop x \<noteq> []"
proof -
  obtain a b c d where "octets x = [a, b, c, d]" by (rule octets_cases)
  then show ?thesis by (simp add: inet_ntop_def)
qed

lemma inet_ntop_head: "is_digit (hd (inet_ntop x))"
proof -
  obtain a b c d where o: "octets x = [a, b, c, d]" by (rule octets_cases)
  have "list_all is_digit (dec a)" and "dec a \<noteq> []" by auto
  with o show ?thesis by (cases "dec a") (auto simp: inet_ntop_def)
qed

text \<open>The address in network byte order, as \<open>memcpy\<close> of \<open>sin_addr\<close> gives it.\<close>

definition ip_bytes :: "ip \<Rightarrow> byte list" where
  "ip_bytes a = map word_of_nat (octets a)"

definition port_bytes :: "port \<Rightarrow> byte list" where
  "port_bytes p = [word_of_nat (unat p div 256), word_of_nat (unat p mod 256)]"

lemma length_ip_bytes [simp]: "length (ip_bytes a) = 4"
  by (simp add: ip_bytes_def octets_def Let_def)

lemma length_port_bytes [simp]: "length (port_bytes p) = 2"
  by (simp add: port_bytes_def)

section \<open>Networks\<close>

text \<open>\<open>UINT32_MAX << (32 - prefix)\<close>, with the shift by 32 avoided as in the code.\<close>

definition prefix_mask :: "nat \<Rightarrow> ip" where
  "prefix_mask p = (if p = 0 then 0 else push_bit (32 - p) (- 1))"

definition in_network :: "ip \<Rightarrow> nat \<Rightarrow> ip \<Rightarrow> bool" where
  "in_network n p a \<longleftrightarrow> a AND prefix_mask p = n AND prefix_mask p"

lemma mask_idem [simp]: "(a AND prefix_mask p) AND prefix_mask p = a AND prefix_mask p"
  by (simp add: and.assoc)

lemma in_network_self [simp]: "in_network n p n"
  by (simp add: in_network_def)

lemma in_network_0 [simp]: "in_network n 0 a"
  by (simp add: in_network_def prefix_mask_def)

lemma in_network_32: "in_network n 32 a \<longleftrightarrow> a = n"
  by (simp add: in_network_def prefix_mask_def)

lemma in_network_masked [simp]: "in_network (n AND prefix_mask p) p a \<longleftrightarrow> in_network n p a"
  by (simp add: in_network_def)

section \<open>Evaluating the codec\<close>

lemma digit_chars [simp]:
  "digit_char 0 = CHR ''0''" "digit_char 1 = CHR ''1''" "digit_char (Suc 0) = CHR ''1''"
  "digit_char 2 = CHR ''2''" "digit_char 3 = CHR ''3''" "digit_char 4 = CHR ''4''"
  "digit_char 5 = CHR ''5''" "digit_char 6 = CHR ''6''" "digit_char 7 = CHR ''7''"
  "digit_char 8 = CHR ''8''" "digit_char 9 = CHR ''9''"
  by code_simp+

lemma prefix_mask_8 [simp]: "prefix_mask 8 = 0xFF000000"
  by (simp add: prefix_mask_def mask_eq_exp_minus_1)

lemmas parse_eval = strtol_def is_space_def strip_sign_def is_digit_def digit_val_def dval_def
  LONG_MAX_def LONG_MIN_def inet_pton_def octet_of_def canonical_dec_def strchr_split_def
  strrchr_split_def

lemmas print_eval = inet_ntop_def octets_ip_of_octets dec.simps

end
