(* ===== verification/Config.thy ===== *)
theory Config
  imports World Inet
begin

text \<open>
  The configuration (\<open>src/config.c\<close> and its part of \<open>include/free_proxy.h\<close>): the parsers of
  \<open>IPv4:PORT\<close> and of the direct-destination list, and the configuration file.
\<close>

section \<open>Constants and data\<close>

definition INET_ADDRSTRLEN :: nat where "INET_ADDRSTRLEN = 16"
definition FP_MAX_BYPASS :: nat where "FP_MAX_BYPASS = 32"
definition FP_BYPASS_TEXT_SIZE :: nat where "FP_BYPASS_TEXT_SIZE = FP_MAX_BYPASS * 20"
definition FP_CONFIG_DIR :: string where "FP_CONFIG_DIR = ''/etc/free_proxy''"
definition FP_CONFIG_PATH :: string where "FP_CONFIG_PATH = FP_CONFIG_DIR @ ''/config''"
definition FP_UI_LANGUAGE_PATH :: string where
  "FP_UI_LANGUAGE_PATH = FP_CONFIG_DIR @ ''/ui_language''"

record fp_bypass =
  network :: ip
  prefix :: byte
  btext :: string

text \<open>
  The array \<open>bypass[FP_MAX_BYPASS]\<close> with \<open>bypass_count\<close> is the list of its first
  \<open>bypass_count\<close> entries: no code reads an entry beyond the count.
\<close>

record fp_config =
  proxy_addr :: ip
  proxy_port :: port
  bypass :: "fp_bypass list"

definition empty_config :: fp_config where
  "empty_config = \<lparr>proxy_addr = 0, proxy_port = 0, bypass = []\<rparr>"

datatype fp_ui_language = FP_UI_LANGUAGE_ZH | FP_UI_LANGUAGE_EN

section \<open>Parsers\<close>

definition fp_parse_proxy :: "string \<Rightarrow> fp_config \<Rightarrow> int \<times> fp_config" where
  "fp_parse_proxy value cfg =
     (case strrchr_split CHR '':'' value of
        None \<Rightarrow> (fail, cfg)
      | Some (address, rest) \<Rightarrow>
          if address = [] then (fail, cfg)
          else if length address \<ge> INET_ADDRSTRLEN then (fail, cfg)
          else (case strtol rest of (port, end, erange) \<Rightarrow>
            if erange \<or> end \<noteq> [] \<or> port < 1 \<or> port > 65535 then (fail, cfg)
            else (case inet_pton address of
                None \<Rightarrow> (fail, cfg)
              | Some a \<Rightarrow> (ok, cfg\<lparr>proxy_addr := a, proxy_port := word_of_int port\<rparr>))))"

definition is_blank :: "char \<Rightarrow> bool" where
  "is_blank c \<longleftrightarrow> c = CHR '' '' \<or> c = CHR 0x09"

definition trim :: "string \<Rightarrow> string" where
  "trim s = rev (dropWhile is_blank (rev (dropWhile is_blank s)))"

text \<open>The text of an entry: the bare address for a prefix of 32, else \<open>address/prefix\<close>.\<close>

definition bypass_text :: "ip \<Rightarrow> int \<Rightarrow> string" where
  "bypass_text a p =
     snprintf (INET_ADDRSTRLEN + 4)
       (if p = 32 then inet_ntop a else inet_ntop a @ ''/'' @ dec (nat p))"

definition append_parsed :: "string \<Rightarrow> int \<Rightarrow> fp_config \<Rightarrow> int \<times> fp_config" where
  "append_parsed token p cfg =
     (case inet_pton token of
        None \<Rightarrow> (fail, cfg)
      | Some parsed \<Rightarrow>
          let net = parsed AND prefix_mask (nat p) in
          if \<exists>b \<in> set (bypass cfg). network b = net \<and> prefix b = word_of_int p then (ok, cfg)
          else (ok, cfg\<lparr>bypass := bypass cfg @
                 [\<lparr>network = net, prefix = word_of_int p, btext = bypass_text net p\<rparr>]\<rparr>))"

definition append_bypass :: "string \<Rightarrow> fp_config \<Rightarrow> int \<times> fp_config" where
  "append_bypass value cfg =
     (let v = trim value in
      if v = [] \<or> length v \<ge> INET_ADDRSTRLEN + 4 \<or> length (bypass cfg) \<ge> FP_MAX_BYPASS
      then (fail, cfg)
      else (case strchr_split CHR ''/'' v of
          None \<Rightarrow> append_parsed v 32 cfg
        | Some (token, slash) \<Rightarrow>
            (case strtol slash of (p, end, erange) \<Rightarrow>
              if erange \<or> slash = [] \<or> end \<noteq> [] \<or> p < 0 \<or> p > 32 then (fail, cfg)
              else append_parsed token p cfg)))"

text \<open>
  The loop of \<open>fp_parse_bypass_list\<close>: \<open>seg\<close> is the text between \<open>start\<close> and \<open>cursor\<close>, the
  second argument the text from \<open>cursor\<close> on.
\<close>

fun bypass_loop :: "string \<Rightarrow> string \<Rightarrow> fp_config \<Rightarrow> int \<times> fp_config" where
  "bypass_loop seg [] cfg =
     (let (r, cfg) = append_bypass seg cfg in
      if r \<noteq> ok then (fail, cfg\<lparr>bypass := []\<rparr>) else (ok, cfg))"
| "bypass_loop seg (c # cs) cfg =
     (if c = CHR '','' then
        (let (r, cfg) = append_bypass seg cfg in
         if r \<noteq> ok then (fail, cfg\<lparr>bypass := []\<rparr>) else bypass_loop [] cs cfg)
      else bypass_loop (seg @ [c]) cs cfg)"

definition fp_parse_bypass_list :: "string option \<Rightarrow> fp_config \<Rightarrow> int \<times> fp_config" where
  "fp_parse_bypass_list value cfg =
     (let cfg = cfg\<lparr>bypass := []\<rparr> in
      case value of
        None \<Rightarrow> (ok, cfg)
      | Some s \<Rightarrow> if s = [] then (ok, cfg) else bypass_loop [] s cfg)"

section \<open>The configuration file\<close>

definition ensure_config_dir :: "'k os \<Rightarrow> 'k world \<Rightarrow> int \<times> 'k world" where
  "ensure_config_dir os w =
     (let (e, w) = sys_mkdir os FP_CONFIG_DIR w in
      (if e \<noteq> None \<and> e \<noteq> Some EEXIST then fail else ok, w))"

definition fp_config_exists :: "'k os \<Rightarrow> 'k world \<Rightarrow> bool \<times> 'k world" where
  "fp_config_exists os w = sys_access os FP_CONFIG_PATH w"

definition proxy_line :: "fp_config \<Rightarrow> string" where
  "proxy_line cfg =
     ''proxy='' @ inet_ntop (proxy_addr cfg) @ '':'' @ dec (unat (proxy_port cfg)) @ [newline]"

definition bypass_line :: "fp_bypass \<Rightarrow> string" where
  "bypass_line b = ''bypass='' @ btext b @ [newline]"

fun write_bypass_lines ::
  "'k os \<Rightarrow> string \<Rightarrow> fp_bypass list \<Rightarrow> int \<Rightarrow> 'k world \<Rightarrow> int \<times> 'k world" where
  "write_bypass_lines os path [] result w = (result, w)"
| "write_bypass_lines os path (b # bs) result w =
     (let (written, w) = sys_write os path (bypass_line b) w in
      write_bypass_lines os path bs (if written then result else fail) w)"

definition temporary_path :: "'k os \<Rightarrow> string" where
  "temporary_path os = FP_CONFIG_PATH @ ''.tmp.'' @ dec (self_pid os)"

text \<open>Writing the temporary file, once it is open: lines, \<open>fsync\<close>, \<open>close\<close>.\<close>

definition write_temporary :: "'k os \<Rightarrow> string \<Rightarrow> fp_config \<Rightarrow> 'k world \<Rightarrow> int \<times> 'k world" where
  "write_temporary os tmp cfg w =
     (let (written, w) = sys_write os tmp (proxy_line cfg) w;
          write_result = (if written then ok else fail);
          (write_result, w) = write_bypass_lines os tmp (bypass cfg) write_result w;
          (synced, w) = sys_check os w;
          write_result = (if synced then write_result else fail);
          (closed, w) = sys_check os w
      in (if closed then write_result else fail, w))"

definition fp_config_save :: "'k os \<Rightarrow> fp_config \<Rightarrow> 'k world \<Rightarrow> int \<times> 'k world" where
  "fp_config_save os cfg w =
     (let (r, w) = ensure_config_dir os w in
      if r \<noteq> ok then (fail, w)
      else let tmp = temporary_path os in
      if length tmp \<ge> length FP_CONFIG_PATH + 1 + 16 then (fail, w)
      else let (opened, w) = sys_create os tmp w in
      if \<not> opened then (fail, w)
      else let (write_result, w) = write_temporary os tmp cfg w in
      if write_result \<noteq> ok then (fail, snd (sys_unlink os tmp w))
      else let (renamed, w) = sys_rename os tmp FP_CONFIG_PATH w in
      if \<not> renamed then (fail, snd (sys_unlink os tmp w)) else (ok, w))"

text \<open>One round of the reading loop: the state is \<open>result\<close>, \<open>invalid\<close> and the configuration.\<close>

definition load_line :: "string \<Rightarrow> int \<times> bool \<times> fp_config \<Rightarrow> int \<times> bool \<times> fp_config" where
  "load_line raw st =
     (case st of (result, invalid, cfg) \<Rightarrow>
      let line = chomp raw in
      if take 6 line = ''proxy='' then
        (let (r, cfg) = fp_parse_proxy (drop 6 line) cfg in (r, invalid \<or> r \<noteq> ok, cfg))
      else if take 7 line = ''bypass='' then
        (let (r, cfg) = append_bypass (drop 7 line) cfg in (result, invalid \<or> r \<noteq> ok, cfg))
      else st)"

definition load_text :: "string \<Rightarrow> int \<times> fp_config" where
  "load_text content =
     (case fold load_line (read_lines 128 content) (fail, False, empty_config) of
        (result, invalid, cfg) \<Rightarrow> (if result = ok \<and> \<not> invalid then ok else fail, cfg))"

definition fp_config_load :: "'k os \<Rightarrow> fp_config \<Rightarrow> 'k world \<Rightarrow> (int \<times> fp_config) \<times> 'k world" where
  "fp_config_load os cfg w =
     (let (file, w) = sys_open_read os FP_CONFIG_PATH w in
      case file of
        None \<Rightarrow> ((fail, cfg), w)
      | Some content \<Rightarrow> (load_text content, w))"

section \<open>The interface language\<close>

definition fp_ui_language_load :: "'k os \<Rightarrow> 'k world \<Rightarrow> fp_ui_language \<times> 'k world" where
  "fp_ui_language_load os w =
     (let (file, w) = sys_open_read os FP_UI_LANGUAGE_PATH w in
      case file of
        None \<Rightarrow> (FP_UI_LANGUAGE_ZH, w)
      | Some content \<Rightarrow>
          (case fgets 8 content of
             None \<Rightarrow> (FP_UI_LANGUAGE_ZH, w)
           | Some (value, _) \<Rightarrow>
               (if cstr value = ''en'' @ [newline] then FP_UI_LANGUAGE_EN else FP_UI_LANGUAGE_ZH, w)))"

definition fp_ui_language_save :: "'k os \<Rightarrow> fp_ui_language \<Rightarrow> 'k world \<Rightarrow> int \<times> 'k world" where
  "fp_ui_language_save os language w =
     (let (r, w) = ensure_config_dir os w in
      if r \<noteq> ok then (fail, w)
      else let (opened, w) = sys_create os FP_UI_LANGUAGE_PATH w in
      if \<not> opened then (fail, w)
      else
        let (put, w) = sys_write os FP_UI_LANGUAGE_PATH
              ((if language = FP_UI_LANGUAGE_EN then ''en'' else ''zh'') @ [newline]) w;
            (closed, w) = sys_check os w
        in (if put \<and> closed then ok else fail, w))"

section \<open>Well-formed configurations\<close>

definition bypass_key :: "fp_bypass \<Rightarrow> ip \<times> nat" where
  "bypass_key b = (network b, unat (prefix b))"

definition mk_bypass :: "ip \<Rightarrow> nat \<Rightarrow> fp_bypass" where
  "mk_bypass n p = \<lparr>network = n, prefix = word_of_nat p, btext = bypass_text n (int p)\<rparr>"

text \<open>
  A stored entry is a network address masked to its prefix, a prefix of at most 32, and the
  text that prints exactly these.
\<close>

definition wf_entry :: "fp_bypass \<Rightarrow> bool" where
  "wf_entry b \<longleftrightarrow> (\<exists>n p. b = mk_bypass n p \<and> p \<le> 32 \<and> n AND prefix_mask p = n)"

definition wf_bypass :: "fp_bypass list \<Rightarrow> bool" where
  "wf_bypass bs \<longleftrightarrow> length bs \<le> FP_MAX_BYPASS \<and> (\<forall>b \<in> set bs. wf_entry b)
     \<and> distinct (map bypass_key bs)"

definition wf_config :: "fp_config \<Rightarrow> bool" where
  "wf_config c \<longleftrightarrow> proxy_port c \<noteq> 0 \<and> wf_bypass (bypass c)"

text \<open>An address is direct if some entry's network contains it.\<close>

definition bypassed :: "fp_bypass list \<Rightarrow> ip \<Rightarrow> bool" where
  "bypassed bs a \<longleftrightarrow> (\<exists>b \<in> set bs. in_network (network b) (unat (prefix b)) a)"

text \<open>What one token of the list denotes, independently of the list it is added to.\<close>

definition parse_entry :: "string \<Rightarrow> (ip \<times> nat) option" where
  "parse_entry value =
     (let v = trim value in
      if v = [] \<or> length v \<ge> INET_ADDRSTRLEN + 4 then None
      else (case strchr_split CHR ''/'' v of
          None \<Rightarrow> map_option (\<lambda>a. (a, 32)) (inet_pton v)
        | Some (token, slash) \<Rightarrow>
            (case strtol slash of (p, end, erange) \<Rightarrow>
              if erange \<or> slash = [] \<or> end \<noteq> [] \<or> p < 0 \<or> p > 32 then None
              else map_option (\<lambda>a. (a AND prefix_mask (nat p), nat p)) (inet_pton token))))"

lemma unat_small_prefix [simp]: "p \<le> 32 \<Longrightarrow> unat (word_of_nat p :: byte) = p"
  by (simp add: unat_of_nat take_bit_nat_eq_self_iff)

lemma mk_bypass_sel [simp]:
  "network (mk_bypass n p) = n" "prefix (mk_bypass n p) = word_of_nat p"
  "btext (mk_bypass n p) = bypass_text n (int p)"
  by (simp_all add: mk_bypass_def)

lemma bypass_key_mk [simp]: "p \<le> 32 \<Longrightarrow> bypass_key (mk_bypass n p) = (n, p)"
  by (simp add: bypass_key_def)

lemma wf_entry_key: "wf_entry b \<Longrightarrow> b = mk_bypass (network b) (unat (prefix b))"
  by (auto simp: wf_entry_def)

lemma mask_32 [simp]: "prefix_mask 32 = - 1"
  by (simp add: prefix_mask_def)

lemma parse_entry_SomeD:
  "parse_entry value = Some (n, p) \<Longrightarrow> p \<le> 32 \<and> n AND prefix_mask p = n"
  by (auto simp: parse_entry_def Let_def split: if_splits option.splits prod.splits)

lemma same_key_iff:
  "p \<le> 32 \<Longrightarrow> (network b = n \<and> prefix b = word_of_nat p) \<longleftrightarrow> bypass_key b = (n, p)"
  unfolding bypass_key_def by (metis of_nat_unat prod.inject ucast_id unat_small_prefix)

definition add_entry :: "ip \<times> nat \<Rightarrow> fp_config \<Rightarrow> fp_config" where
  "add_entry e cfg =
     (if e \<in> set (map bypass_key (bypass cfg)) then cfg
      else cfg\<lparr>bypass := bypass cfg @ [mk_bypass (fst e) (snd e)]\<rparr>)"

lemma append_parsed_eq:
  assumes "0 \<le> p" "p \<le> 32"
  shows "append_parsed token p cfg =
    (case inet_pton token of
       None \<Rightarrow> (fail, cfg)
     | Some a \<Rightarrow> (ok, add_entry (a AND prefix_mask (nat p), nat p) cfg))"
proof -
  obtain q where p: "p = int q" and q: "q \<le> 32" using assms by (metis nat_eq_iff nat_le_iff of_nat_numeral)
  have ex: "(\<exists>b \<in> set (bypass cfg). network b = n \<and> prefix b = word_of_nat q) \<longleftrightarrow>
    (n, q) \<in> bypass_key ` set (bypass cfg)" for n
    using same_key_iff [OF q, of _ n] by (force simp: image_iff)
  then show ?thesis
    by (simp add: append_parsed_def p add_entry_def mk_bypass_def Let_def split: option.splits)
qed

text \<open>
  The functional form of \<open>append_bypass\<close>: a full list or a token that denotes nothing is an
  error and changes nothing; otherwise the denoted entry is in the list afterwards, once.
\<close>

lemma append_bypass_eq:
  "append_bypass value cfg =
     (if length (bypass cfg) \<ge> FP_MAX_BYPASS then (fail, cfg)
      else (case parse_entry value of
          None \<Rightarrow> (fail, cfg)
        | Some e \<Rightarrow> (ok, add_entry e cfg)))"
  by (auto simp: append_bypass_def parse_entry_def Let_def append_parsed_eq
      split: option.splits prod.splits)

lemma add_entry_sel [simp]:
  "proxy_addr (add_entry e cfg) = proxy_addr cfg" "proxy_port (add_entry e cfg) = proxy_port cfg"
  by (simp_all add: add_entry_def)

lemma add_entry_wf:
  assumes "wf_bypass (bypass cfg)" and "length (bypass cfg) < FP_MAX_BYPASS"
    and "snd e \<le> 32" and "fst e AND prefix_mask (snd e) = fst e"
  shows "wf_bypass (bypass (add_entry e cfg))"
  using assms by (cases e) (auto simp: add_entry_def wf_bypass_def wf_entry_def)

lemma append_bypass_wf [inv_intro]:
  assumes "append_bypass value cfg = (r, cfg')" and "wf_bypass (bypass cfg)"
  shows "wf_bypass (bypass cfg')"
  using assms parse_entry_SomeD
  by (fastforce simp: append_bypass_eq intro!: add_entry_wf split: if_splits option.splits)

lemma append_bypass_proxy [frame]:
  "append_bypass value cfg = (r, cfg') \<Longrightarrow>
     proxy_addr cfg' = proxy_addr cfg \<and> proxy_port cfg' = proxy_port cfg"
  by (auto simp: append_bypass_eq split: if_splits option.splits)

lemma add_entry_covers:
  assumes "snd e \<le> 32"
  shows "bypassed (bypass (add_entry e cfg)) a \<longleftrightarrow>
    bypassed (bypass cfg) a \<or> in_network (fst e) (snd e) a"
proof (cases e)
  case (Pair n p)
  show ?thesis
  proof (cases "e \<in> set (map bypass_key (bypass cfg))")
    case True
    then obtain b where "b \<in> set (bypass cfg)" "network b = n" "unat (prefix b) = p"
      by (auto simp: Pair bypass_key_def)
    with True Pair show ?thesis by (auto simp: add_entry_def bypassed_def)
  next
    case False
    with assms Pair show ?thesis by (auto simp: add_entry_def bypassed_def)
  qed
qed

section \<open>The list parser\<close>

fun add_all :: "string list \<Rightarrow> fp_config \<Rightarrow> int \<times> fp_config" where
  "add_all [] cfg = (ok, cfg)"
| "add_all (t # ts) cfg =
     (let (r, cfg) = append_bypass t cfg in
      if r \<noteq> ok then (fail, cfg\<lparr>bypass := []\<rparr>) else add_all ts cfg)"

lemma bypass_loop_split:
  "CHR '','' \<notin> set seg \<Longrightarrow> bypass_loop seg s cfg = add_all (split_on CHR '','' (seg @ s)) cfg"
proof (induction seg s cfg rule: bypass_loop.induct)
  case (1 seg cfg)
  then show ?case by (simp add: split_on_plain Let_def split: prod.splits)
next
  case (2 seg c cs cfg)
  then show ?case by (cases "c = CHR '',''") (auto simp: split_on_append Let_def split: prod.splits)
qed

lemma fp_parse_bypass_list_eq:
  "s \<noteq> [] \<Longrightarrow>
   fp_parse_bypass_list (Some s) cfg = add_all (split_on CHR '','' s) (cfg\<lparr>bypass := []\<rparr>)"
  by (simp add: fp_parse_bypass_list_def bypass_loop_split)

lemma add_all_result:
  assumes "add_all ts cfg = (r, cfg')"
  shows "(r = ok \<and> (\<forall>t \<in> set ts. parse_entry t \<noteq> None)
            \<and> (\<forall>a. bypassed (bypass cfg') a \<longleftrightarrow> bypassed (bypass cfg) a \<or>
                 (\<exists>t \<in> set ts. \<exists>n p. parse_entry t = Some (n, p) \<and> in_network n p a)))
         \<or> (r = fail \<and> bypass cfg' = [])"
  using assms
proof (induction ts arbitrary: cfg)
  case Nil
  then show ?case by simp
next
  case (Cons t ts)
  show ?case
  proof (cases "parse_entry t = None \<or> length (bypass cfg) \<ge> FP_MAX_BYPASS")
    case True
    with Cons.prems show ?thesis by (auto simp: append_bypass_eq split: option.splits if_splits)
  next
    case False
    then obtain n p where e: "parse_entry t = Some (n, p)" by auto
    with False Cons.prems have "add_all ts (add_entry (n, p) cfg) = (r, cfg')"
      by (simp add: append_bypass_eq)
    from Cons.IH [OF this] show ?thesis
      using e parse_entry_SomeD [OF e] by (auto simp: add_entry_covers)
  qed
qed

lemma add_all_wf:
  "wf_bypass (bypass cfg) \<Longrightarrow> add_all ts cfg = (r, cfg') \<Longrightarrow> wf_bypass (bypass cfg')"
proof (induction ts arbitrary: cfg)
  case Nil
  then show ?case by simp
next
  case (Cons t ts)
  obtain r1 cfg1 where a: "append_bypass t cfg = (r1, cfg1)" by force
  from append_bypass_wf [OF a Cons.prems(1)] have "wf_bypass (bypass cfg1)" .
  with Cons a show ?case by (auto simp: wf_bypass_def split: if_splits)
qed

lemma add_all_proxy [frame]:
  "add_all ts cfg = (r, cfg') \<Longrightarrow> proxy_addr cfg' = proxy_addr cfg \<and> proxy_port cfg' = proxy_port cfg"
proof (induction ts arbitrary: cfg)
  case (Cons t ts)
  obtain r1 cfg1 where a: "append_bypass t cfg = (r1, cfg1)" by force
  with Cons append_bypass_proxy [OF a] show ?case by (fastforce split: if_splits)
qed simp

section \<open>Printed entries parse back\<close>

lemma bypass_text_eq:
  assumes "p \<le> 32"
  shows "bypass_text n (int p) = (if p = 32 then inet_ntop n else inet_ntop n @ ''/'' @ dec p)"
    and "length (bypass_text n (int p)) \<le> 18"
proof -
  have l: "length (dec p) \<le> 2" using assms by (intro length_dec_le) auto
  have n: "length (inet_ntop n) \<le> 15" by (rule length_inet_ntop)
  from l n show e: "bypass_text n (int p) = (if p = 32 then inet_ntop n else inet_ntop n @ ''/'' @ dec p)"
    by (simp add: bypass_text_def INET_ADDRSTRLEN_def)
  from l n show "length (bypass_text n (int p)) \<le> 18" by (simp add: e)
qed

lemma trim_id:
  assumes "s \<noteq> []" "\<not> is_blank (hd s)" "\<not> is_blank (last s)"
  shows "trim s = s"
proof -
  obtain c cs where s: "s = c # cs" using assms(1) by (cases s) auto
  with assms(2) have d: "dropWhile is_blank s = s" by simp
  obtain t e where t: "s = t @ [e]" using split_last [OF assms(1)] by blast
  with assms(3) have "dropWhile is_blank (rev s) = rev s" by simp
  with d show ?thesis by (simp add: trim_def)
qed

lemma digit_not_blank: "is_digit c \<Longrightarrow> \<not> is_blank c"
  by (auto simp: is_blank_def)

lemma last_digit: "list_all is_digit s \<Longrightarrow> s \<noteq> [] \<Longrightarrow> is_digit (last s)"
  by (auto simp: list_all_iff)

lemma last_dec: "is_digit (last (dec n))"
  by (simp add: last_digit)

lemma last_inet_ntop: "is_digit (last (inet_ntop x))"
proof -
  obtain a b c d where "octets x = [a, b, c, d]" by (rule octets_cases)
  then show ?thesis using last_dec [of d] by (simp add: inet_ntop_def)
qed

lemma bypass_text_ends:
  assumes "p \<le> 32"
  shows "bypass_text n (int p) \<noteq> []" and "is_digit (hd (bypass_text n (int p)))"
    and "is_digit (last (bypass_text n (int p)))"
proof -
  have "is_digit (hd (inet_ntop n @ s))" for s
    using inet_ntop_head [of n] by simp
  with assms show "bypass_text n (int p) \<noteq> []" "is_digit (hd (bypass_text n (int p)))"
    "is_digit (last (bypass_text n (int p)))"
    using last_inet_ntop [of n] last_dec [of p] inet_ntop_head [of n] by (auto simp: bypass_text_eq)
qed

lemma trim_bypass_text [simp]: "p \<le> 32 \<Longrightarrow> trim (bypass_text n (int p)) = bypass_text n (int p)"
  using bypass_text_ends [of p n] by (intro trim_id) (auto simp: digit_not_blank)

lemma bypass_text_chars:
  assumes "p \<le> 32"
  shows "CHR '','' \<notin> set (bypass_text n (int p))" and "plain (bypass_text n (int p))"
  using assms by (auto simp: bypass_text_eq)

lemma parse_entry_text:
  assumes "p \<le> 32" and "n AND prefix_mask p = n"
  shows "parse_entry (bypass_text n (int p)) = Some (n, p)"
proof -
  have t: "trim (bypass_text n (int p)) = bypass_text n (int p)" using assms by simp
  have l: "bypass_text n (int p) \<noteq> []" "length (bypass_text n (int p)) < INET_ADDRSTRLEN + 4"
    using bypass_text_ends(1) [OF assms(1)] bypass_text_eq(2) [OF assms(1), of n]
    by (auto simp: INET_ADDRSTRLEN_def)
  have sl: "strchr_split CHR ''/'' (inet_ntop n @ CHR ''/'' # dec p) = Some (inet_ntop n, dec p)"
    by (rule strchr_split_append) simp
  have st: "strtol (dec p) = (int p, [], False)" using assms(1) by (simp add: LONG_MAX_def)
  show ?thesis
  proof (cases "p = 32")
    case True
    then have e: "bypass_text n (int p) = inet_ntop n" using bypass_text_eq(1) [OF assms(1), of n] by simp
    have "parse_entry (bypass_text n (int p)) = Some (n, 32)"
      using t l by (simp add: parse_entry_def Let_def e)
    with True show ?thesis by simp
  next
    case False
    with t l sl st assms show ?thesis by (simp add: parse_entry_def Let_def bypass_text_eq)
  qed
qed

lemma wf_entry_parse:
  assumes "wf_entry b"
  shows "parse_entry (btext b) = Some (bypass_key b)" "b = mk_bypass (fst (bypass_key b)) (snd (bypass_key b))"
  using assms by (auto simp: wf_entry_def parse_entry_text)

lemma append_bypass_text:
  assumes "wf_bypass (bs @ b # bs')" and "bypass cfg = bs"
  shows "append_bypass (btext b) cfg = (ok, cfg\<lparr>bypass := bs @ [b]\<rparr>)"
proof -
  from assms have w: "wf_entry b" and n: "bypass_key b \<notin> set (map bypass_key bs)"
    and l: "length bs < FP_MAX_BYPASS"
    by (auto simp: wf_bypass_def)
  with wf_entry_parse [OF w] assms(2) show ?thesis
    by (simp add: append_bypass_eq add_entry_def)
qed

lemma add_all_texts:
  "wf_bypass (bypass cfg @ bs) \<Longrightarrow>
   add_all (map btext bs) cfg = (ok, cfg\<lparr>bypass := bypass cfg @ bs\<rparr>)"
proof (induction bs arbitrary: cfg)
  case Nil
  then show ?case by simp
next
  case (Cons b bs)
  have "append_bypass (btext b) cfg = (ok, cfg\<lparr>bypass := bypass cfg @ [b]\<rparr>)"
    using Cons.prems by (intro append_bypass_text) auto
  with Cons show ?case by simp
qed

lemma wf_btext:
  assumes "wf_entry b"
  shows "btext b \<noteq> []" "CHR '','' \<notin> set (btext b)" "plain (btext b)" "length (btext b) \<le> 18"
  using assms bypass_text_ends bypass_text_chars bypass_text_eq(2) by (auto simp: wf_entry_def)

lemma parse_bypass_texts:
  assumes "wf_bypass bs"
  shows "fp_parse_bypass_list (Some (join_with CHR '','' (map btext bs))) cfg
    = (ok, cfg\<lparr>bypass := bs\<rparr>)"
proof (cases bs)
  case Nil
  then show ?thesis by (simp add: fp_parse_bypass_list_def)
next
  case (Cons b bs')
  have c: "\<forall>t \<in> set (map btext bs). CHR '','' \<notin> set t"
    using assms by (auto simp: wf_bypass_def dest: wf_btext)
  have "btext b \<noteq> []" using assms Cons by (auto simp: wf_bypass_def dest: wf_btext)
  then have ne: "join_with CHR '','' (map btext bs) \<noteq> []" using Cons by (cases bs') auto
  have "split_on CHR '','' (join_with CHR '','' (map btext bs)) = map btext bs"
    by (rule split_join) (use Cons c in auto)
  with assms ne show ?thesis by (simp add: fp_parse_bypass_list_eq add_all_texts)
qed

section \<open>The proxy address\<close>

lemma fp_parse_proxy_print:
  assumes "1 \<le> p" "p \<le> 65535"
  shows "fp_parse_proxy (inet_ntop a @ '':'' @ dec p) cfg =
    (ok, cfg\<lparr>proxy_addr := a, proxy_port := word_of_nat p\<rparr>)"
proof -
  have "strrchr_split CHR '':'' (inet_ntop a @ CHR '':'' # dec p) = Some (inet_ntop a, dec p)"
    by (rule strrchr_split_append) simp
  moreover have "length (inet_ntop a) < INET_ADDRSTRLEN"
    using length_inet_ntop [of a] by (simp add: INET_ADDRSTRLEN_def)
  ultimately show ?thesis
    using assms by (simp add: fp_parse_proxy_def LONG_MAX_def)
qed

lemma fp_parse_proxy_okD:
  assumes "fp_parse_proxy value cfg = (ok, cfg')"
  shows "\<exists>a rest p. value = inet_ntop a @ CHR '':'' # rest \<and> strtol rest = (p, [], False)
    \<and> 1 \<le> p \<and> p \<le> 65535 \<and> cfg' = cfg\<lparr>proxy_addr := a, proxy_port := word_of_int p\<rparr>"
proof -
  from assms obtain address rest a p where sp: "strrchr_split CHR '':'' value = Some (address, rest)"
    and st: "strtol rest = (p, [], False)" "1 \<le> p" "p \<le> 65535" and a: "inet_pton address = Some a"
    and c: "cfg' = cfg\<lparr>proxy_addr := a, proxy_port := word_of_int p\<rparr>"
    by (auto simp: fp_parse_proxy_def not_less split: option.splits prod.splits if_splits)
  from strrchr_split_SomeD [OF sp] a have "value = inet_ntop a @ CHR '':'' # rest"
    by (simp add: addr.parse_iff)
  with st c show ?thesis by blast
qed

lemma fp_parse_proxy_failD:
  "fp_parse_proxy value cfg = (r, cfg') \<Longrightarrow> r \<noteq> ok \<Longrightarrow> r = fail \<and> cfg' = cfg"
  by (auto simp: fp_parse_proxy_def split: option.splits prod.splits if_splits)

lemma fp_parse_proxy_bypass [frame]:
  "fp_parse_proxy value cfg = (r, cfg') \<Longrightarrow> bypass cfg' = bypass cfg"
  by (auto simp: fp_parse_proxy_def split: option.splits prod.splits if_splits)

lemma word_of_int_port_nonzero: "1 \<le> p \<Longrightarrow> p \<le> 65535 \<Longrightarrow> (word_of_int p :: port) \<noteq> 0"
proof
  assume p: "1 \<le> p" "p \<le> 65535" and z: "(word_of_int p :: port) = 0"
  have "uint (word_of_int p :: port) = p"
    using p by (simp add: uint_word_of_int take_bit_int_eq_self_iff)
  with z p show False by simp
qed

lemma fp_parse_proxy_port: "fp_parse_proxy value cfg = (ok, cfg') \<Longrightarrow> proxy_port cfg' \<noteq> 0"
  by (auto dest!: fp_parse_proxy_okD simp: word_of_int_port_nonzero)

section \<open>Reading the file back\<close>

definition config_text :: "fp_config \<Rightarrow> string" where
  "config_text c = proxy_line c @ concat (map bypass_line (bypass c))"

lemma unat_port_bound: "unat (p :: port) < 65536"
proof -
  have "unat p < 2 ^ LENGTH(16)" by (rule unsigned_less)
  then show ?thesis by simp
qed

lemma length_dec_port: "length (dec (unat (p :: port))) \<le> 5"
  using unat_port_bound [of p] by (intro length_dec_le) auto

lemma read_proxy_line:
  "read_lines 128 (proxy_line c @ rest) = proxy_line c # read_lines 128 rest"
proof -
  define l where "l = ''proxy='' @ inet_ntop (proxy_addr c) @ '':'' @ dec (unat (proxy_port c))"
  have "newline \<notin> set l" by (simp add: l_def)
  moreover have "length l + 2 \<le> 128"
    using length_inet_ntop [of "proxy_addr c"] length_dec_port [of "proxy_port c"] by (simp add: l_def)
  ultimately have "read_lines 128 (l @ newline # rest) = (l @ [newline]) # read_lines 128 rest"
    by (rule read_lines_line)
  then show ?thesis by (simp add: l_def proxy_line_def)
qed

lemma read_bypass_lines:
  "(\<forall>b \<in> set bs. wf_entry b) \<Longrightarrow>
   read_lines 128 (concat (map bypass_line bs)) = map bypass_line bs"
proof (induction bs)
  case Nil
  then show ?case by simp
next
  case (Cons b bs)
  define l where "l = ''bypass='' @ btext b"
  from Cons.prems have w: "wf_entry b" by simp
  have "newline \<notin> set l" using wf_btext(3) [OF w] by (simp add: l_def plain_def)
  moreover have "length l + 2 \<le> 128" using wf_btext(4) [OF w] by (simp add: l_def)
  ultimately have "read_lines 128 (l @ newline # concat (map bypass_line bs))
      = (l @ [newline]) # read_lines 128 (concat (map bypass_line bs))"
    by (rule read_lines_line)
  moreover have "bypass_line b = l @ [newline]" by (simp add: l_def bypass_line_def)
  ultimately show ?case using Cons by simp
qed

lemma load_proxy_line:
  assumes "proxy_port c \<noteq> 0"
  shows "load_line (proxy_line c) (r, i, cfg) =
    (ok, i, cfg\<lparr>proxy_addr := proxy_addr c, proxy_port := proxy_port c\<rparr>)"
proof -
  define v where "v = inet_ntop (proxy_addr c) @ '':'' @ dec (unat (proxy_port c))"
  have "chomp ((''proxy='' @ v) @ [newline]) = ''proxy='' @ v"
    by (rule chomp_plain) (simp add: v_def)
  moreover have "fp_parse_proxy v cfg = (ok, cfg\<lparr>proxy_addr := proxy_addr c, proxy_port := proxy_port c\<rparr>)"
    using assms unat_port_bound [of "proxy_port c"]
    by (simp only: v_def, subst fp_parse_proxy_print) (auto simp: unat_gt_0 Suc_le_eq)
  ultimately show ?thesis by (simp add: load_line_def proxy_line_def v_def Let_def)
qed

lemma load_bypass_line:
  assumes "wf_bypass (bs @ b # bs')" and "bypass cfg = bs"
  shows "load_line (bypass_line b) (r, i, cfg) = (r, i, cfg\<lparr>bypass := bs @ [b]\<rparr>)"
proof -
  from assms have w: "wf_entry b" by (simp add: wf_bypass_def)
  have "chomp ((''bypass='' @ btext b) @ [newline]) = ''bypass='' @ btext b"
    by (rule chomp_plain) (use wf_btext(3) [OF w] in simp)
  with append_bypass_text [OF assms] show ?thesis
    by (simp add: load_line_def bypass_line_def Let_def)
qed

lemma load_bypass_lines:
  "wf_bypass (bypass cfg @ bs) \<Longrightarrow>
   fold load_line (map bypass_line bs) (r, i, cfg) = (r, i, cfg\<lparr>bypass := bypass cfg @ bs\<rparr>)"
proof (induction bs arbitrary: cfg)
  case Nil
  then show ?case by simp
next
  case (Cons b bs)
  have "load_line (bypass_line b) (r, i, cfg) = (r, i, cfg\<lparr>bypass := bypass cfg @ [b]\<rparr>)"
    using Cons.prems by (intro load_bypass_line) auto
  with Cons show ?case by simp
qed

lemma load_config_text:
  assumes "wf_config c"
  shows "load_text (config_text c) = (ok, c)"
proof -
  from assms have port: "proxy_port c \<noteq> 0" and w: "wf_bypass (bypass c)"
    by (auto simp: wf_config_def)
  then have "\<forall>b \<in> set (bypass c). wf_entry b" by (simp add: wf_bypass_def)
  then have "read_lines 128 (config_text c) = proxy_line c # map bypass_line (bypass c)"
    by (simp add: config_text_def read_proxy_line read_bypass_lines)
  with port w show ?thesis
    by (simp add: load_text_def load_proxy_line load_bypass_lines empty_config_def)
qed

text \<open>Whatever the file holds, a successful load gives a well-formed configuration.\<close>

definition load_inv :: "int \<times> bool \<times> fp_config \<Rightarrow> bool" where
  "load_inv st = (case st of (r, i, cfg) \<Rightarrow> wf_bypass (bypass cfg) \<and> (r = ok \<longrightarrow> proxy_port cfg \<noteq> 0))"

lemma load_line_inv: "load_inv st \<Longrightarrow> load_inv (load_line raw st)"
proof -
  assume inv: "load_inv st"
  obtain r i cfg where st: "st = (r, i, cfg)" by (cases st)
  define line where "line = chomp raw"
  obtain r1 cfg1 where p: "fp_parse_proxy (drop 6 line) cfg = (r1, cfg1)" by force
  obtain r2 cfg2 where a: "append_bypass (drop 7 line) cfg = (r2, cfg2)" by force
  have "load_inv (r1, i', cfg1)" for i'
    using inv st fp_parse_proxy_bypass [OF p] fp_parse_proxy_port p by (auto simp: load_inv_def)
  moreover have "load_inv (r, i', cfg2)" for i'
    using inv st append_bypass_wf [OF a] append_bypass_proxy [OF a] by (auto simp: load_inv_def)
  ultimately show ?thesis
    using inv p a by (simp add: load_line_def st line_def [symmetric] Let_def)
qed

lemma load_lines_inv: "load_inv st \<Longrightarrow> load_inv (fold load_line ls st)"
  by (induction ls arbitrary: st) (simp_all add: load_line_inv)

lemma load_text_wf: "load_text content = (ok, c) \<Longrightarrow> wf_config c"
proof -
  assume l: "load_text content = (ok, c)"
  have "load_inv (fail, False, empty_config)"
    by (simp add: load_inv_def wf_bypass_def empty_config_def)
  then have "load_inv (fold load_line (read_lines 128 content) (fail, False, empty_config))"
    by (rule load_lines_inv)
  with l show ?thesis
    by (auto simp: load_text_def load_inv_def wf_config_def split: prod.splits if_splits)
qed

section \<open>Saving\<close>

text \<open>A write to one path leaves every other path and the kernel alone.\<close>

definition only_path :: "string \<Rightarrow> 'k world \<Rightarrow> 'k world \<Rightarrow> bool" where
  "only_path path w w' \<longleftrightarrow> (\<forall>p. p \<noteq> path \<longrightarrow> files w' p = files w p) \<and> same_kernel w w'"

lemma only_path_refl [simp]: "only_path path w w"
  by (simp add: only_path_def)

lemma only_path_trans [trans]: "only_path path a b \<Longrightarrow> only_path path b c \<Longrightarrow> only_path path a c"
  by (auto simp: only_path_def intro: same_kernel_trans)

lemma sys_only_path [frame]:
  "sys_mkdir os d w = (e, w') \<Longrightarrow> only_path p w w'"
  "sys_create os p w = (b, w') \<Longrightarrow> only_path p w w'"
  "sys_write os p t w = (b, w') \<Longrightarrow> only_path p w w'"
  "sys_check os w = (b, w') \<Longrightarrow> only_path p w w'"
  "sys_unlink os p w = (e, w') \<Longrightarrow> only_path p w w'"
  by (auto simp: only_path_def same_kernel_def sys_defs Let_def split: if_splits option.splits)

lemma sys_create_ok: "sys_create os p w = (True, w') \<Longrightarrow> files w' p = Some ''''"
  by (auto simp: sys_defs split: if_splits)

lemma sys_write_ok:
  "sys_write os p t w = (True, w') \<Longrightarrow> files w p = Some s \<Longrightarrow> files w' p = Some (s @ t)"
  by (auto simp: sys_defs Let_def split: if_splits)

lemma sys_write_some:
  "sys_write os p t w = (b, w') \<Longrightarrow> \<exists>s. files w' p = Some s"
  by (auto simp: sys_defs Let_def split: if_splits option.splits)

lemma write_bypass_lines_frame [frame]:
  "write_bypass_lines os path bs r w = (r', w') \<Longrightarrow> only_path path w w'"
proof (induction bs arbitrary: r w)
  case (Cons b bs)
  obtain x w1 where s: "sys_write os path (bypass_line b) w = (x, w1)" by force
  with Cons have "only_path path w1 w'" by auto
  with sys_only_path(3) [OF s] show ?case by (rule only_path_trans)
qed simp

lemma write_bypass_lines_ok:
  "write_bypass_lines os path bs r w = (ok, w') \<Longrightarrow> files w path = Some s \<Longrightarrow>
   r = ok \<and> files w' path = Some (s @ concat (map bypass_line bs))"
proof (induction bs arbitrary: r w s)
  case Nil
  then show ?case by simp
next
  case (Cons b bs)
  obtain x w1 where s: "sys_write os path (bypass_line b) w = (x, w1)" by force
  obtain s1 where s1: "files w1 path = Some s1" using sys_write_some [OF s] by blast
  from Cons.prems s have rec: "write_bypass_lines os path bs (if x then r else fail) w1 = (ok, w')"
    by simp
  from Cons.IH [OF rec s1] have x: "x" "r = ok" by (auto split: if_splits)
  with s Cons.prems(2) have "files w1 path = Some (s @ bypass_line b)" by (auto dest: sys_write_ok)
  with Cons.IH [OF rec] x show ?case by simp
qed

lemma sys_check_files: "sys_check os w = (b, w') \<Longrightarrow> files w' = files w"
  by (auto simp: sys_defs)

lemma write_temporary_effect:
  assumes "write_temporary os tmp cfg w = (r, w')"
  shows "only_path tmp w w'"
    and "r = ok \<Longrightarrow> files w tmp = Some '''' \<Longrightarrow> files w' tmp = Some (config_text cfg)"
proof -
  obtain b1 w1 where 1: "sys_write os tmp (proxy_line cfg) w = (b1, w1)" by force
  obtain r2 w2 where 2: "write_bypass_lines os tmp (bypass cfg) (if b1 then ok else fail) w1 = (r2, w2)"
    by force
  obtain b3 w3 where 3: "sys_check os w2 = (b3, w3)" by force
  obtain b4 w4 where 4: "sys_check os w3 = (b4, w4)" by force
  from assms 1 2 3 4 have e: "w' = w4" "r = (if b4 then if b3 then r2 else fail else fail)"
    by (simp_all add: write_temporary_def Let_def)
  have "only_path tmp w w1" by (rule sys_only_path(3) [OF 1])
  also have "only_path tmp w1 w2" by (rule write_bypass_lines_frame [OF 2])
  also have "only_path tmp w2 w3" by (rule sys_only_path(4) [OF 3])
  also have "only_path tmp w3 w4" by (rule sys_only_path(4) [OF 4])
  finally show "only_path tmp w w'" by (simp add: e(1))
  assume "r = ok" and t: "files w tmp = Some ''''"
  with e(2) have "r2 = ok" by (auto split: if_splits)
  obtain s1 where s1: "files w1 tmp = Some s1" using sys_write_some [OF 1] by blast
  from write_bypass_lines_ok [OF 2 [unfolded \<open>r2 = ok\<close>] s1] have b1: "b1"
    and f2: "files w2 tmp = Some (s1 @ concat (map bypass_line (bypass cfg)))"
    by (auto split: if_splits)
  from 1 b1 t s1 have "s1 = proxy_line cfg" by (auto dest: sys_write_ok)
  with f2 show "files w' tmp = Some (config_text cfg)"
    using sys_check_files [OF 3] sys_check_files [OF 4] e(1) by (simp add: config_text_def)
qed

lemma temporary_path_neq [simp]:
  "temporary_path os \<noteq> FP_CONFIG_PATH" "FP_CONFIG_PATH \<noteq> temporary_path os"
  by (simp_all add: temporary_path_def)

lemma ensure_config_dir_frame [frame]:
  "ensure_config_dir os w = (r, w') \<Longrightarrow> only_path p w w' \<and> files w' = files w"
  by (auto simp: ensure_config_dir_def only_path_def same_kernel_def sys_defs Let_def
      split: if_splits)

lemma sys_rename_effect:
  "sys_rename os a b w = (True, w') \<Longrightarrow>
     files w' = (files w)(b := files w a, a := None) \<and> same_kernel w w'"
  "sys_rename os a b w = (False, w') \<Longrightarrow> files w' = files w \<and> same_kernel w w'"
  by (auto simp: sys_defs same_kernel_def split: if_splits)

text \<open>
  What a save does: success puts exactly the configuration's text at the path and removes the
  temporary file; failure leaves every path but the temporary one as it was.
\<close>

lemma fp_config_save_effect:
  assumes "fp_config_save os c w = (r, w')"
  shows "same_kernel w w'"
    and "r = ok \<Longrightarrow> files w' FP_CONFIG_PATH = Some (config_text c)"
    and "r \<noteq> ok \<Longrightarrow> only_path (temporary_path os) w w'"
    and "p \<noteq> FP_CONFIG_PATH \<Longrightarrow> p \<noteq> temporary_path os \<Longrightarrow> files w' p = files w p"
    and "r = ok \<Longrightarrow> files w' (temporary_path os) = None"
proof -
  let ?t = "temporary_path os"
  obtain r1 w1 where 1: "ensure_config_dir os w = (r1, w1)" by force
  obtain b2 w2 where 2: "sys_create os ?t w1 = (b2, w2)" by force
  obtain r3 w3 where 3: "write_temporary os ?t c w2 = (r3, w3)" by force
  obtain b4 w4 where 4: "sys_rename os ?t FP_CONFIG_PATH w3 = (b4, w4)" by force
  obtain e5 w5 where 5: "sys_unlink os ?t w3 = (e5, w5)" by force
  obtain e6 w6 where 6: "sys_unlink os ?t w4 = (e6, w6)" by force
  have p1: "only_path ?t w w1" using ensure_config_dir_frame [OF 1] by blast
  have p2: "only_path ?t w w2" by (rule only_path_trans [OF p1 sys_only_path(2) [OF 2]])
  have p3: "only_path ?t w w3" by (rule only_path_trans [OF p2 write_temporary_effect(1) [OF 3]])
  have p5: "only_path ?t w w5" by (rule only_path_trans [OF p3 sys_only_path(5) [OF 5]])
  have p6: "\<not> b4 \<Longrightarrow> only_path ?t w w6"
    using p3 4 sys_rename_effect(2) [of os ?t FP_CONFIG_PATH w3 w4] sys_only_path(5) [OF 6]
    by (auto simp: only_path_def same_kernel_def)
  have dec: "(r \<noteq> ok \<and> only_path ?t w w') \<or> (r = ok \<and> b2 \<and> r3 = ok \<and> b4 \<and> w' = w4)"
    using assms 1 2 3 4 5 6 p1 p2 p5 p6
    by (auto simp: fp_config_save_def Let_def split: if_splits)
  have f4: "b4 \<Longrightarrow> files w4 = (files w3)(FP_CONFIG_PATH := files w3 ?t, ?t := None) \<and> same_kernel w w4"
    using 4 p3 sys_rename_effect(1) [of os ?t FP_CONFIG_PATH w3 w4]
    by (auto simp: only_path_def same_kernel_def)
  have f3: "b2 \<Longrightarrow> r3 = ok \<Longrightarrow> files w3 ?t = Some (config_text c)"
    using 2 write_temporary_effect(2) [OF 3] sys_create_ok [of os ?t w1 w2] by simp
  show "same_kernel w w'" using dec f4 by (auto simp: only_path_def)
  show "r \<noteq> ok \<Longrightarrow> only_path (temporary_path os) w w'" using dec by auto
  show "r = ok \<Longrightarrow> files w' FP_CONFIG_PATH = Some (config_text c)"
    using dec f4 f3 by auto
  show "r = ok \<Longrightarrow> files w' (temporary_path os) = None" using dec f4 by auto
  assume "p \<noteq> FP_CONFIG_PATH" "p \<noteq> ?t"
  then show "files w' p = files w p" using dec f4 p3 by (auto simp: only_path_def)
qed

section \<open>The configuration store\<close>

text \<open>
  The contract the operations rely on: a successful save is what a load then finds, a failed
  one changes nothing that a load can see.
\<close>

locale config_store =
  fixes save :: "'c \<Rightarrow> 'w \<Rightarrow> int \<times> 'w"
    and stored :: "'w \<Rightarrow> 'c option"
    and good :: "'c \<Rightarrow> bool"
  assumes save_ok: "good c \<Longrightarrow> save c w = (ok, w') \<Longrightarrow> stored w' = Some c"
    and save_fail: "save c w = (r, w') \<Longrightarrow> r \<noteq> ok \<Longrightarrow> stored w' = stored w"
begin

lemma save_stored:
  "good c \<Longrightarrow> save c w = (r, w') \<Longrightarrow> stored w' = (if r = ok then Some c else stored w)"
  using save_ok [of c w w'] save_fail [of c w r w'] by auto

text \<open>
  A save followed by steps that leave the store alone and by a save of the previous content
  restores it, unless that second save fails; then the new content stays.
\<close>

lemma rollback:
  assumes "good c" "good c0" "stored w = Some c0"
    and "save c w = (r, w1)" and "stored w2 = stored w1" and "save c0 w2 = (r', w3)"
  shows "stored w3 = (if r = ok \<and> r' \<noteq> ok then Some c else Some c0)"
  using assms save_stored [of c w r w1] save_stored [of c0 w2 r' w3] by auto

end

definition stored_config :: "'k world \<Rightarrow> fp_config option" where
  "stored_config w =
     (case files w FP_CONFIG_PATH of
        None \<Rightarrow> None
      | Some s \<Rightarrow> (case load_text s of (r, c) \<Rightarrow> if r = ok then Some c else None))"

lemma stored_config_cong:
  "files w' FP_CONFIG_PATH = files w FP_CONFIG_PATH \<Longrightarrow> stored_config w' = stored_config w"
  by (simp add: stored_config_def)

interpretation store: config_store "fp_config_save os" stored_config wf_config for os
proof unfold_locales
  fix c w w'
  assume "wf_config c" and s: "fp_config_save os c w = (ok, w')"
  then show "stored_config w' = Some c"
    using fp_config_save_effect(2) [OF s] by (simp add: stored_config_def load_config_text)
next
  fix c w r w'
  assume s: "fp_config_save os c w = (r, w')" and "r \<noteq> ok"
  then show "stored_config w' = stored_config w"
    using fp_config_save_effect(3) [OF s] by (auto simp: only_path_def intro!: stored_config_cong)
qed

lemma stored_config_wf: "stored_config w = Some c \<Longrightarrow> wf_config c"
  by (auto simp: stored_config_def intro: load_text_wf split: option.splits prod.splits if_splits)

lemma fp_config_load_stored:
  assumes "fp_config_load os d w = ((r, c), w')"
  shows "r = ok \<Longrightarrow> stored_config w = Some c"
    and "same_kernel w w'" and "same_files w w'"
  using assms
  by (auto simp: fp_config_load_def stored_config_def sys_defs same_kernel_def same_files_def
      split: option.splits if_splits)

lemma fp_config_load_found:
  "stored_config w = Some c \<Longrightarrow> \<not> faults os (tick w) \<Longrightarrow> fst (fp_config_load os d w) = (ok, c)"
  by (auto simp: fp_config_load_def stored_config_def sys_defs split: option.splits prod.splits if_splits)

section \<open>Properties\<close>

definition sample_config :: fp_config where
  "sample_config = \<lparr>proxy_addr = ip_of_octets 192 168 3 2, proxy_port = 10808,
     bypass = [mk_bypass (ip_of_octets 10 0 0 0) 8, mk_bypass (ip_of_octets 192 168 1 20) 32]\<rparr>"

lemma sample_config_wf: "wf_config sample_config"
proof -
  have "wf_entry (mk_bypass (ip_of_octets 10 0 0 0) 8)"
    unfolding wf_entry_def
    by (rule exI [of _ "ip_of_octets 10 0 0 0"], rule exI [of _ 8]) (simp add: ip_of_octets_def)
  moreover have "wf_entry (mk_bypass (ip_of_octets 192 168 1 20) 32)"
    unfolding wf_entry_def
    by (rule exI [of _ "ip_of_octets 192 168 1 20"], rule exI [of _ 32]) simp
  ultimately show ?thesis
    by (simp add: wf_config_def wf_bypass_def sample_config_def FP_MAX_BYPASS_def)
qed

text \<open>
  C11: round trip of the configuration file. If a well-formed configuration was saved
  successfully and the file can be opened, loading it gives back the same configuration: proxy
  address, port, and the direct entries with their text and order.
\<close>

theorem config_save_load_roundtrip:
  assumes "wf_config c" and "fp_config_save os c w = (ok, w')" and "\<not> faults os (tick w')"
  shows "fst (fp_config_load os d w') = (ok, c)"
  using assms by (blast intro: fp_config_load_found store.save_ok)

text \<open>When no call fails a save succeeds, so the hypothesis can be met from every world.\<close>

lemma quiet_calls:
  assumes "faults os = (\<lambda>_. False)"
  shows "fst (sys_create os p w) = True" "fst (sys_write os p t w) = True"
    "fst (sys_check os w) = True" "files w p \<noteq> None \<Longrightarrow> fst (sys_rename os p q w) = True"
    "fst (ensure_config_dir os w) = ok"
  using assms by (auto simp: sys_defs ensure_config_dir_def Let_def)

lemma quiet_write_bypass_lines:
  assumes "faults os = (\<lambda>_. False)"
  shows "fst (write_bypass_lines os p bs r w) = r"
proof (induction bs arbitrary: w)
  case (Cons b bs)
  obtain x w1 where s: "sys_write os p (bypass_line b) w = (x, w1)" by force
  with quiet_calls(2) [OF assms, of p "bypass_line b" w] Cons show ?case by simp
qed simp

lemma quiet_write_temporary:
  assumes "faults os = (\<lambda>_. False)"
  shows "fst (write_temporary os p c w) = ok"
proof -
  obtain w1 where 1: "sys_write os p (proxy_line c) w = (True, w1)"
    using quiet_calls(2) [OF assms] by (metis prod.collapse)
  obtain w2 where 2: "write_bypass_lines os p (bypass c) ok w1 = (ok, w2)"
    using quiet_write_bypass_lines [OF assms] by (metis prod.collapse)
  obtain w3 where 3: "sys_check os w2 = (True, w3)"
    using quiet_calls(3) [OF assms] by (metis prod.collapse)
  obtain w4 where 4: "sys_check os w3 = (True, w4)"
    using quiet_calls(3) [OF assms] by (metis prod.collapse)
  from 1 2 3 4 show ?thesis by (simp add: write_temporary_def Let_def)
qed

lemma fp_config_save_quiet:
  assumes q: "faults os = (\<lambda>_. False)" and "self_pid os < 10 ^ 11"
  shows "fst (fp_config_save os c w) = ok"
proof -
  let ?t = "temporary_path os"
  obtain w1 where 1: "ensure_config_dir os w = (ok, w1)"
    using quiet_calls(5) [OF q] by (metis prod.collapse)
  obtain w2 where 2: "sys_create os ?t w1 = (True, w2)"
    using quiet_calls(1) [OF q] by (metis prod.collapse)
  obtain w3 where 3: "write_temporary os ?t c w2 = (ok, w3)"
    using quiet_write_temporary [OF q] by (metis prod.collapse)
  from write_temporary_effect(2) [OF 3] sys_create_ok [OF 2] have "files w3 ?t \<noteq> None" by simp
  then obtain w4 where 4: "sys_rename os ?t FP_CONFIG_PATH w3 = (True, w4)"
    using quiet_calls(4) [OF q] by (metis prod.collapse)
  have "length (dec (self_pid os)) \<le> 11" using assms(2) by (intro length_dec_le) auto
  then have l: "length ?t < length FP_CONFIG_PATH + 1 + 16" by (simp add: temporary_path_def)
  from 1 2 3 4 l show ?thesis by (simp add: fp_config_save_def Let_def)
qed

theorem config_save_load_roundtrip_witness:
  "fst (fp_config_load (quiet_os (\<lambda>_ k. (True, k))) empty_config
     (snd (fp_config_save (quiet_os (\<lambda>_ k. (True, k))) sample_config (empty_world ())))) = (ok, sample_config)"
proof -
  let ?os = "quiet_os (\<lambda>_ k. (True, k)) :: unit os"
  obtain r w' where s: "fp_config_save ?os sample_config (empty_world ()) = (r, w')" by force
  have "r = ok" using fp_config_save_quiet [of ?os sample_config "empty_world ()"] s by simp
  with s have "fp_config_save ?os sample_config (empty_world ()) = (ok, w')" by simp
  from config_save_load_roundtrip [OF sample_config_wf this, of empty_config] s show ?thesis by simp
qed

text \<open>
  C12: saving is atomic. A failed save, wherever it fails, leaves the stored configuration and
  every file but the temporary one as they were; a successful one leaves no temporary file and
  no other file changed. Neither touches the packet filter, the processes or sends a signal.
\<close>

theorem config_save_atomic:
  assumes "fp_config_save os c w = (r, w')"
  shows "same_kernel w w'
    \<and> (\<forall>p. p \<noteq> FP_CONFIG_PATH \<and> p \<noteq> temporary_path os \<longrightarrow> files w' p = files w p)
    \<and> (if r = ok
       then files w' FP_CONFIG_PATH = Some (config_text c) \<and> files w' (temporary_path os) = None
       else files w' FP_CONFIG_PATH = files w FP_CONFIG_PATH \<and> stored_config w' = stored_config w)"
  using fp_config_save_effect [OF assms] store.save_fail [OF assms] by (auto simp: only_path_def)

theorem config_save_atomic_witness:
  "\<exists>w'. fp_config_save ((quiet_os (\<lambda>_ k. (True, k)))\<lparr>faults := (\<lambda>n. n = 2)\<rparr>) sample_config
      ((empty_world ())\<lparr>files := [FP_CONFIG_PATH \<mapsto> ''old'']\<rparr>) = (fail, w')
    \<and> files w' FP_CONFIG_PATH = Some ''old''"
proof -
  let ?os = "(quiet_os (\<lambda>_ k. (True, k)) :: unit os)\<lparr>faults := (\<lambda>n. n = 2)\<rparr>"
  let ?w = "(empty_world ())\<lparr>files := [FP_CONFIG_PATH \<mapsto> ''old'']\<rparr>"
  obtain r w' where s: "fp_config_save ?os sample_config ?w = (r, w')" by force
  have "fst (fp_config_save ?os sample_config ?w) = fail"
  proof -
    obtain w1 where 1: "ensure_config_dir ?os ?w = (ok, w1)" "tick w1 = 1"
      by (auto simp: ensure_config_dir_def sys_defs empty_world_def Let_def)
    obtain w2 where 2: "sys_create ?os (temporary_path ?os) w1 = (True, w2)" "tick w2 = 2"
      using 1 by (auto simp: sys_defs)
    obtain w3 where 3: "sys_write ?os (temporary_path ?os) (proxy_line sample_config) w2 = (False, w3)"
      using 2 by (auto simp: sys_defs Let_def)
    obtain r4 w4 where 4: "write_temporary ?os (temporary_path ?os) sample_config w2 = (r4, w4)" by force
    have "r4 \<noteq> ok"
    proof
      assume "r4 = ok"
      obtain s3 where s3: "files w3 (temporary_path ?os) = Some s3" using sys_write_some [OF 3] by blast
      obtain r5 w5 where 5: "write_bypass_lines ?os (temporary_path ?os) (bypass sample_config) fail w3 = (r5, w5)"
        by force
      from 4 3 5 \<open>r4 = ok\<close> have "r5 = ok"
        by (auto simp: write_temporary_def Let_def split: prod.splits if_splits)
      with write_bypass_lines_ok [of ?os _ _ fail w3 w5 s3] 5 s3 show False by simp
    qed
    with 1 2 4 show ?thesis by (simp add: fp_config_save_def Let_def)
  qed
  with s have "r = fail" by simp
  with config_save_atomic [OF s] s show ?thesis by auto
qed

text \<open>
  The file is validated. Whatever bytes the configuration file holds, a load that reports
  success gives a configuration with a non-zero port and at most 32 distinct direct entries,
  each masked to its prefix and carrying exactly the text that prints it.
\<close>

theorem config_load_wf:
  assumes "fp_config_load os d w = ((ok, c), w')"
  shows "wf_config c \<and> same_kernel w w' \<and> same_files w w'"
  using fp_config_load_stored [OF assms] stored_config_wf by blast

lemma load_sample_text:
  "load_text (''proxy=192.168.3.2:10808'' @ [newline] @ ''bypass=10.2.3.4/8'' @ [newline])
     = (ok, \<lparr>proxy_addr = ip_of_octets 192 168 3 2, proxy_port = 10808,
            bypass = [mk_bypass (ip_of_octets 10 0 0 0) 8]\<rparr>)"
proof -
  have r: "read_lines 128 (''proxy=192.168.3.2:10808'' @ newline # ''bypass=10.2.3.4/8'' @ newline # [])
    = [''proxy=192.168.3.2:10808'' @ [newline], ''bypass=10.2.3.4/8'' @ [newline]]"
    by (subst read_lines_line, simp, simp, subst read_lines_line, simp, simp, simp)
  have c: "chomp (''proxy=192.168.3.2:10808'' @ [newline]) = ''proxy=192.168.3.2:10808''"
    "chomp (''bypass=10.2.3.4/8'' @ [newline]) = ''bypass=10.2.3.4/8''"
    by (rule chomp_plain, simp)+
  have p: "fp_parse_proxy ''192.168.3.2:10808'' cfg
      = (ok, cfg\<lparr>proxy_addr := ip_of_octets 192 168 3 2, proxy_port := 10808\<rparr>)" for cfg
    by (simp add: fp_parse_proxy_def parse_eval INET_ADDRSTRLEN_def)
  have "ip_of_octets 10 2 3 4 AND 0xFF000000 = ip_of_octets 10 0 0 0" by (simp add: ip_of_octets_def)
  then have e: "parse_entry ''10.2.3.4/8'' = Some (ip_of_octets 10 0 0 0, 8)"
    by (simp add: parse_entry_def parse_eval trim_def is_blank_def INET_ADDRSTRLEN_def Let_def)
  have "append_bypass ''10.2.3.4/8'' cfg = (ok, add_entry (ip_of_octets 10 0 0 0, 8) cfg)"
    if "bypass cfg = []" for cfg
    using that e by (simp add: append_bypass_eq FP_MAX_BYPASS_def)
  with r c p show ?thesis
    by (simp add: load_text_def load_line_def empty_config_def add_entry_def Let_def)
qed

theorem config_load_wf_witness:
  "wf_config \<lparr>proxy_addr = ip_of_octets 192 168 3 2, proxy_port = 10808,
     bypass = [mk_bypass (ip_of_octets 10 0 0 0) 8]\<rparr>"
proof -
  let ?t = "''proxy=192.168.3.2:10808'' @ [newline] @ ''bypass=10.2.3.4/8'' @ [newline]"
  let ?os = "quiet_os (\<lambda>_ k. (True, k)) :: unit os"
  have "fp_config_load ?os empty_config ((empty_world ())\<lparr>files := [FP_CONFIG_PATH \<mapsto> ?t]\<rparr>)
      = (load_text ?t, (empty_world ())\<lparr>files := [FP_CONFIG_PATH \<mapsto> ?t], tick := 1\<rparr>)"
    by (simp add: fp_config_load_def sys_defs empty_world_def)
  from config_load_wf [OF this [unfolded load_sample_text]] show ?thesis by blast
qed

lemma strtol_all_no_colon:
  assumes "strtol s = (p, [], e)"
  shows "CHR '':'' \<notin> set s"
proof
  assume c: "CHR '':'' \<in> set s"
  define t where "t = snd (strip_sign (dropWhile is_space s))"
  have d: "dropWhile is_digit t = [] \<or> s = []"
    using assms by (auto simp: strtol_def t_def Let_def split: prod.splits if_splits)
  have "set s = set (takeWhile is_space s) \<union> set (dropWhile is_space s)"
    by (metis set_append takeWhile_dropWhile_id)
  moreover have "CHR '':'' \<notin> set (takeWhile is_space s)"
    using is_space_colon by (auto dest: set_takeWhileD)
  ultimately have "CHR '':'' \<in> set (dropWhile is_space s)" using c by blast
  moreover have "CHR '':'' \<in> set (snd (strip_sign u))" if "CHR '':'' \<in> set u" for u
    using that by (auto simp: strip_sign_def split: list.splits)
  ultimately have "CHR '':'' \<in> set t" by (simp add: t_def)
  then have "dropWhile is_digit t \<noteq> []" using not_digit_literals(2) unfolding dropWhile_eq_Nil_conv by blast
  with d c show False by auto
qed

text \<open>
  C13: what \<open>IPv4:PORT\<close> is accepted. The parser succeeds exactly on a dotted quad, a colon and
  a number that \<open>strtol\<close> consumes whole with a value from 1 to 65535; it then sets exactly the
  address and the port, and otherwise it returns -1 and changes nothing.
\<close>

theorem parse_proxy_exact:
  "(fp_parse_proxy v cfg = (ok, cfg') \<longleftrightarrow>
      (\<exists>a rest p. v = inet_ntop a @ CHR '':'' # rest \<and> strtol rest = (p, [], False) \<and> 1 \<le> p \<and> p \<le> 65535
         \<and> cfg' = cfg\<lparr>proxy_addr := a, proxy_port := word_of_int p\<rparr>))
   \<and> (fst (fp_parse_proxy v cfg) = ok \<or> fp_parse_proxy v cfg = (fail, cfg))"
proof (intro conjI iffI)
  show "\<exists>a rest p. v = inet_ntop a @ CHR '':'' # rest \<and> strtol rest = (p, [], False) \<and> 1 \<le> p \<and> p \<le> 65535
      \<and> cfg' = cfg\<lparr>proxy_addr := a, proxy_port := word_of_int p\<rparr>"
    if "fp_parse_proxy v cfg = (ok, cfg')"
    using fp_parse_proxy_okD [OF that] .
next
  assume "\<exists>a rest p. v = inet_ntop a @ CHR '':'' # rest \<and> strtol rest = (p, [], False) \<and> 1 \<le> p \<and> p \<le> 65535
      \<and> cfg' = cfg\<lparr>proxy_addr := a, proxy_port := word_of_int p\<rparr>"
  then obtain a rest p where v: "v = inet_ntop a @ CHR '':'' # rest" and
    st: "strtol rest = (p, [], False)" "1 \<le> p" "p \<le> 65535"
    and c: "cfg' = cfg\<lparr>proxy_addr := a, proxy_port := word_of_int p\<rparr>" by blast
  have "strrchr_split CHR '':'' v = Some (inet_ntop a, rest)"
    unfolding v by (rule strrchr_split_append [OF strtol_all_no_colon [OF st(1)]])
  then show "fp_parse_proxy v cfg = (ok, cfg')"
    using st c length_inet_ntop [of a] by (simp add: fp_parse_proxy_def INET_ADDRSTRLEN_def)
next
  show "fst (fp_parse_proxy v cfg) = ok \<or> fp_parse_proxy v cfg = (fail, cfg)"
    using fp_parse_proxy_failD by (metis prod.collapse)
qed

text \<open>
  C14: what the direct list covers. When the list is accepted, every comma-separated token
  denotes a network, the stored entries are well formed, and an address is direct exactly if
  some token's network contains it; when it is refused, the list is empty. The proxy address
  and port are never touched.
\<close>

theorem bypass_list_covers:
  assumes "fp_parse_bypass_list (Some s) cfg = (r, cfg')" and "s \<noteq> []"
  shows "proxy_addr cfg' = proxy_addr cfg \<and> proxy_port cfg' = proxy_port cfg
    \<and> ((r = ok \<and> wf_bypass (bypass cfg')
          \<and> (\<forall>t \<in> set (split_on CHR '','' s). parse_entry t \<noteq> None)
          \<and> (\<forall>a. bypassed (bypass cfg') a \<longleftrightarrow>
               (\<exists>t \<in> set (split_on CHR '','' s). \<exists>n p. parse_entry t = Some (n, p) \<and> in_network n p a)))
       \<or> (r = fail \<and> bypass cfg' = []))"
proof -
  let ?c = "cfg\<lparr>bypass := []\<rparr>"
  from assms have a: "add_all (split_on CHR '','' s) ?c = (r, cfg')" by (simp add: fp_parse_bypass_list_eq)
  have "wf_bypass (bypass cfg')" using add_all_wf [OF _ a] by (simp add: wf_bypass_def)
  with add_all_result [OF a] add_all_proxy [OF a] show ?thesis by (simp add: bypassed_def)
qed

lemma entry_192: "parse_entry ''192.168.1.25'' = Some (ip_of_octets 192 168 1 25, 32)"
  by (simp add: parse_entry_def parse_eval trim_def is_blank_def INET_ADDRSTRLEN_def Let_def)

lemma entry_10: "parse_entry '' 10.2.3.4/8'' = Some (ip_of_octets 10 0 0 0, 8)"
proof -
  have "ip_of_octets 10 2 3 4 AND 0xFF000000 = ip_of_octets 10 0 0 0" by (simp add: ip_of_octets_def)
  then show ?thesis
    by (simp add: parse_entry_def parse_eval trim_def is_blank_def INET_ADDRSTRLEN_def Let_def)
qed

text \<open>The list of the unit test \<open>test_bypass_parser\<close>.\<close>

lemma unit_test_bypass:
  "fp_parse_bypass_list (Some ''192.168.1.25, 10.2.3.4/8'') cfg =
     (ok, cfg\<lparr>bypass := [mk_bypass (ip_of_octets 192 168 1 25) 32, mk_bypass (ip_of_octets 10 0 0 0) 8]\<rparr>)"
proof -
  have "ip_of_octets 192 168 1 25 \<noteq> ip_of_octets 10 0 0 0" by (simp add: ip_of_octets_def)
  then show ?thesis
    by (simp add: fp_parse_bypass_list_eq append_bypass_eq entry_192 entry_10 add_entry_def FP_MAX_BYPASS_def)
qed

theorem bypass_list_covers_witness:
  "wf_bypass [mk_bypass (ip_of_octets 192 168 1 25) 32, mk_bypass (ip_of_octets 10 0 0 0) 8]
   \<and> bypassed [mk_bypass (ip_of_octets 192 168 1 25) 32, mk_bypass (ip_of_octets 10 0 0 0) 8]
       (ip_of_octets 10 77 0 1)"
proof -
  have "in_network (ip_of_octets 10 0 0 0) 8 (ip_of_octets 10 77 0 1)"
    by (simp add: in_network_def ip_of_octets_def)
  with bypass_list_covers [OF unit_test_bypass [of empty_config]] show ?thesis
    by (simp add: bypassed_def)
qed

text \<open>
  The list can be edited as text. The comma-separated text of a well-formed list, which the
  status screen shows and the editor starts from, parses back to exactly that list.
\<close>

theorem bypass_text_roundtrip:
  assumes "wf_bypass bs"
  shows "fp_parse_bypass_list (Some (join_with CHR '','' (map btext bs))) cfg = (ok, cfg\<lparr>bypass := bs\<rparr>)"
  using assms by (rule parse_bypass_texts)

theorem bypass_text_roundtrip_witness:
  "fp_parse_bypass_list (Some ''10.0.0.0/8,192.168.1.20'') empty_config
     = (ok, empty_config\<lparr>bypass := bypass sample_config\<rparr>)"
proof -
  have w: "wf_bypass (bypass sample_config)" using sample_config_wf by (simp add: wf_config_def)
  have "join_with CHR '','' (map btext (bypass sample_config)) = ''10.0.0.0/8,192.168.1.20''"
    by (simp add: sample_config_def bypass_text_def snprintf_def INET_ADDRSTRLEN_def print_eval)
  with bypass_text_roundtrip [OF w, of empty_config] show ?thesis by simp
qed

end
