(* ===== verification/Firewall.thy ===== *)
theory Firewall
  imports Config "HOL-Library.Sublist"
begin

text \<open>
  The packet filter (\<open>src/firewall.c\<close>): the chain \<open>FPROXY_OUT\<close> in the \<open>nat\<close> table and the jump
  to it from \<open>OUTPUT\<close>, built and removed with the external \<open>iptables\<close> command. The command is
  the parameter \<open>iptables os\<close>; what it is documented to do is the reference step \<open>nat_step\<close> on a
  view of the table, and the assumptions \<open>ipt_sound\<close>, \<open>ipt_exact\<close> relate the two.
\<close>

section \<open>Operations\<close>

definition FP_CHAIN :: string where "FP_CHAIN = ''FPROXY_OUT''"
definition FP_LISTEN_PORT :: nat where "FP_LISTEN_PORT = 12345"

definition iptables_binary :: "'k os \<Rightarrow> string" where
  "iptables_binary os =
     (if executable os ''/usr/sbin/iptables'' then ''/usr/sbin/iptables''
      else if executable os ''/sbin/iptables'' then ''/sbin/iptables''
      else if executable os ''/usr/sbin/iptables-nft'' then ''/usr/sbin/iptables-nft''
      else if executable os ''/sbin/iptables-nft'' then ''/sbin/iptables-nft''
      else ''iptables'')"

text \<open>
  The child copies at most 31 arguments and replaces the first by the binary's path. The parent
  reports failure if it cannot fork, if waiting fails (the command has run then) or if the exit
  status is not 0.
\<close>

definition run_iptables :: "'k os \<Rightarrow> string list \<Rightarrow> 'k world \<Rightarrow> int \<times> 'k world" where
  "run_iptables os arguments w =
     (let (no_fork, w) = sys_spawn_fault os w in
      if no_fork then (fail, w)
      else
        let argv_copy = (take 31 arguments)[0 := iptables_binary os];
            (exit0, k) = iptables os argv_copy (nat_tab w);
            w = w\<lparr>nat_tab := k, nat_log := nat_log w @ [k]\<rparr>;
            (no_wait, w) = sys_spawn_fault os w
        in if no_wait then (fail, w) else (if exit0 then ok else fail, w))"

abbreviation nat_args :: "string list \<Rightarrow> string list" where
  "nat_args cmd \<equiv> ''iptables'' # ''-w'' # ''-t'' # ''nat'' # cmd"

definition jump_rule :: "string list" where
  "jump_rule = [''-p'', ''tcp'', ''-j'', FP_CHAIN]"

definition return_rule :: "string \<Rightarrow> string list" where
  "return_rule destination = [''-d'', destination, ''-j'', ''RETURN'']"

definition loopback_text :: string where "loopback_text = ''127.0.0.0/8''"

definition redirect_rule :: "string list" where
  "redirect_rule = [''-p'', ''tcp'', ''-j'', ''REDIRECT'', ''--to-ports'', dec FP_LISTEN_PORT]"

definition chain_exists :: "'k os \<Rightarrow> 'k world \<Rightarrow> bool \<times> 'k world" where
  "chain_exists os w = (let (r, w) = run_iptables os (nat_args [''-S'', FP_CHAIN]) w in (r = ok, w))"

definition output_jump_exists :: "'k os \<Rightarrow> 'k world \<Rightarrow> bool \<times> 'k world" where
  "output_jump_exists os w =
     (let (r, w) = run_iptables os (nat_args (''-C'' # ''OUTPUT'' # jump_rule)) w in (r = ok, w))"

definition bypass_rule :: "'k os \<Rightarrow> string \<Rightarrow> string \<Rightarrow> 'k world \<Rightarrow> int \<times> 'k world" where
  "bypass_rule os operation destination w =
     run_iptables os (nat_args (operation # FP_CHAIN # return_rule destination)) w"

text \<open>The loops over the direct entries: stop at the first command that fails.\<close>

fun bypass_rules :: "'k os \<Rightarrow> string \<Rightarrow> fp_bypass list \<Rightarrow> 'k world \<Rightarrow> int \<times> 'k world" where
  "bypass_rules os operation [] w = (ok, w)"
| "bypass_rules os operation (b # bs) w =
     (let (r, w) = bypass_rule os operation (btext b) w in
      if r \<noteq> ok then (fail, w) else bypass_rules os operation bs w)"

definition fp_firewall_is_enabled :: "'k os \<Rightarrow> fp_config \<Rightarrow> 'k world \<Rightarrow> bool \<times> 'k world" where
  "fp_firewall_is_enabled os config w =
     (let proxy_address = inet_ntop (proxy_addr config);
          (e, w) = chain_exists os w in
      if \<not> e then (False, w)
      else let (e, w) = output_jump_exists os w in
      if \<not> e then (False, w)
      else let (r, w) = run_iptables os (nat_args (''-C'' # FP_CHAIN # return_rule proxy_address)) w in
      if r \<noteq> ok then (False, w)
      else let (r, w) = run_iptables os (nat_args (''-C'' # FP_CHAIN # return_rule loopback_text)) w in
      if r \<noteq> ok then (False, w)
      else let (r, w) = run_iptables os (nat_args (''-C'' # FP_CHAIN # redirect_rule)) w in
      if r \<noteq> ok then (False, w)
      else let (r, w) = bypass_rules os ''-C'' (bypass config) w in
      if r \<noteq> ok then (False, w) else (True, w))"

text \<open>The loop that deletes every copy of the jump; \<^const>\<open>None\<close> is a run that never ends.\<close>

partial_function (option) remove_jumps :: "'k os \<Rightarrow> 'k world \<Rightarrow> (int \<times> 'k world) option" where
  "remove_jumps os w =
     (case output_jump_exists os w of (e, w1) \<Rightarrow>
      if e then
        (case run_iptables os (nat_args (''-D'' # ''OUTPUT'' # jump_rule)) w1 of (r, w2) \<Rightarrow>
         if r \<noteq> ok then Some (fail, w2) else remove_jumps os w2)
      else Some (ok, w1))"

definition fp_firewall_disable :: "'k os \<Rightarrow> 'k world \<Rightarrow> (int \<times> 'k world) option" where
  "fp_firewall_disable os w = do {
     (r, w) \<leftarrow> remove_jumps os w;
     if r \<noteq> ok then Some (fail, w)
     else let (e, w) = chain_exists os w in
     if \<not> e then Some (ok, w)
     else let (r, w) = run_iptables os (nat_args [''-F'', FP_CHAIN]) w in
     if r \<noteq> ok then Some (fail, w)
     else let (r, w) = run_iptables os (nat_args [''-X'', FP_CHAIN]) w in
     Some (if r = ok then ok else fail, w)
   }"

text \<open>\<open>(void)fp_firewall_disable(); return -1;\<close>\<close>

definition disable_and_fail :: "'k os \<Rightarrow> 'k world \<Rightarrow> (int \<times> 'k world) option" where
  "disable_and_fail os w = do { (_, w) \<leftarrow> fp_firewall_disable os w; Some (fail, w) }"

definition fp_firewall_enable :: "'k os \<Rightarrow> fp_config \<Rightarrow> 'k world \<Rightarrow> (int \<times> 'k world) option" where
  "fp_firewall_enable os config w =
     (let proxy_address = inet_ntop (proxy_addr config);
          (e, w) = chain_exists os w;
          (r, w) = (if e then (ok, w) else run_iptables os (nat_args [''-N'', FP_CHAIN]) w) in
      if r \<noteq> ok then Some (fail, w)
      else let (r, w) = run_iptables os (nat_args [''-F'', FP_CHAIN]) w in
      if r \<noteq> ok then disable_and_fail os w
      else let (r, w) = run_iptables os (nat_args (''-A'' # FP_CHAIN # return_rule proxy_address)) w in
      if r \<noteq> ok then disable_and_fail os w
      else let (r, w) = run_iptables os (nat_args (''-A'' # FP_CHAIN # return_rule loopback_text)) w in
      if r \<noteq> ok then disable_and_fail os w
      else let (r, w) = bypass_rules os ''-A'' (bypass config) w in
      if r \<noteq> ok then disable_and_fail os w
      else let (r, w) = run_iptables os (nat_args (''-A'' # FP_CHAIN # redirect_rule)) w in
      if r \<noteq> ok then disable_and_fail os w
      else let (r, w) = run_iptables os (nat_args (''-C'' # ''OUTPUT'' # jump_rule)) w;
               (r, w) = (if r = ok then (ok, w)
                 else run_iptables os (nat_args (''-I'' # ''OUTPUT'' # ''1'' # jump_rule)) w) in
      if r \<noteq> ok then disable_and_fail os w else Some (ok, w))"

section \<open>The documented effect of the command\<close>

text \<open>
  What the code sees of the table: the rules of \<open>FPROXY_OUT\<close>, if the chain exists, and the
  rules of \<open>OUTPUT\<close>, each as its specification.
\<close>

record nat_view =
  fchain :: "string list list option"
  foutput :: "string list list"

text \<open>
  The commands the program uses, as \<open>iptables(8)\<close> documents them: \<^const>\<open>None\<close> is a command that
  fails, and a failing command changes nothing.
\<close>

definition nat_step :: "string list \<Rightarrow> nat_view \<Rightarrow> nat_view option" where
  "nat_step cmd v =
     (case cmd of
        op # c # spec \<Rightarrow>
          if c = FP_CHAIN then
            (case fchain v of
               None \<Rightarrow> if op = ''-N'' then Some (v\<lparr>fchain := Some []\<rparr>) else None
             | Some rs \<Rightarrow>
                 if op = ''-S'' then Some v
                 else if op = ''-C'' then (if spec \<in> set rs then Some v else None)
                 else if op = ''-F'' then Some (v\<lparr>fchain := Some []\<rparr>)
                 else if op = ''-A'' then Some (v\<lparr>fchain := Some (rs @ [spec])\<rparr>)
                 else if op = ''-X'' then
                   (if rs = [] \<and> jump_rule \<notin> set (foutput v) then Some (v\<lparr>fchain := None\<rparr>) else None)
                 else None)
          else if c = ''OUTPUT'' then
            (if op = ''-C'' then (if spec \<in> set (foutput v) then Some v else None)
             else if op = ''-D'' then
               (if spec \<in> set (foutput v) then Some (v\<lparr>foutput := remove1 spec (foutput v)\<rparr>) else None)
             else if op = ''-I'' then
               (case spec of
                  [] \<Rightarrow> None
                | n # r \<Rightarrow> if n = ''1'' \<and> fchain v \<noteq> None then Some (v\<lparr>foutput := r # foutput v\<rparr>) else None)
             else None)
          else None
      | _ \<Rightarrow> None)"

text \<open>A command that reports success did its step; one that reports failure did nothing.\<close>

definition ipt_sound :: "'k os \<Rightarrow> ('k \<Rightarrow> nat_view) \<Rightarrow> bool" where
  "ipt_sound os view \<longleftrightarrow>
     (\<forall>bin cmd k b k'. iptables os (bin # ''-w'' # ''-t'' # ''nat'' # cmd) k = (b, k') \<longrightarrow>
        (if b then nat_step cmd (view k) = Some (view k') else view k' = view k))"

text \<open>
  Exact: moreover a possible command does succeed, and \<open>fork\<close> and \<open>waitpid\<close> do not fail.
\<close>

definition ipt_exact :: "'k os \<Rightarrow> ('k \<Rightarrow> nat_view) \<Rightarrow> bool" where
  "ipt_exact os view \<longleftrightarrow> ipt_sound os view \<and> spawn_faults os = (\<lambda>_. False) \<and>
     (\<forall>bin cmd k. nat_step cmd (view k) \<noteq> None \<longrightarrow>
        fst (iptables os (bin # ''-w'' # ''-t'' # ''nat'' # cmd) k))"

text \<open>The reference command itself, which witnesses both.\<close>

definition reference_ipt :: "string list \<Rightarrow> nat_view \<Rightarrow> bool \<times> nat_view" where
  "reference_ipt args v =
     (case nat_step (drop 4 args) v of None \<Rightarrow> (False, v) | Some v' \<Rightarrow> (True, v'))"

lemma reference_ipt_exact: "ipt_exact (quiet_os reference_ipt) (\<lambda>v. v)"
  by (auto simp: ipt_exact_def ipt_sound_def reference_ipt_def split: option.splits)

section \<open>One command\<close>

lemma nat_step_chain:
  "nat_step (''-S'' # FP_CHAIN # spec) v = (if fchain v = None then None else Some v)"
  "nat_step (''-N'' # FP_CHAIN # spec) v = (if fchain v = None then Some (v\<lparr>fchain := Some []\<rparr>) else None)"
  "nat_step (''-F'' # FP_CHAIN # spec) v = (if fchain v = None then None else Some (v\<lparr>fchain := Some []\<rparr>))"
  "nat_step (''-A'' # FP_CHAIN # spec) v =
     (case fchain v of None \<Rightarrow> None | Some rs \<Rightarrow> Some (v\<lparr>fchain := Some (rs @ [spec])\<rparr>))"
  "nat_step (''-C'' # FP_CHAIN # spec) v =
     (case fchain v of None \<Rightarrow> None | Some rs \<Rightarrow> if spec \<in> set rs then Some v else None)"
  "nat_step (''-X'' # FP_CHAIN # spec) v =
     (if fchain v = Some [] \<and> jump_rule \<notin> set (foutput v) then Some (v\<lparr>fchain := None\<rparr>) else None)"
  by (auto simp: nat_step_def split: option.splits)

lemma FP_CHAIN_neq_OUTPUT [simp]: "''OUTPUT'' \<noteq> FP_CHAIN"
  by (simp add: FP_CHAIN_def)

lemma nat_step_output:
  "nat_step (''-C'' # ''OUTPUT'' # spec) v = (if spec \<in> set (foutput v) then Some v else None)"
  "nat_step (''-D'' # ''OUTPUT'' # spec) v =
     (if spec \<in> set (foutput v) then Some (v\<lparr>foutput := remove1 spec (foutput v)\<rparr>) else None)"
  "nat_step (''-I'' # ''OUTPUT'' # ''1'' # spec) v =
     (if fchain v \<noteq> None then Some (v\<lparr>foutput := spec # foutput v\<rparr>) else None)"
  by (simp_all add: nat_step_def)

lemmas nat_step_simps = nat_step_chain nat_step_output

text \<open>What a run of one command can do to the table as seen through \<open>view\<close>.\<close>

lemma run_iptables_sound:
  assumes "ipt_sound os view" and "run_iptables os (nat_args cmd) w = (r, w')" and "length cmd \<le> 27"
  shows "(r = ok \<and> nat_step cmd (view (nat_tab w)) = Some (view (nat_tab w')))
    \<or> (r = fail \<and> (view (nat_tab w') = view (nat_tab w)
                  \<or> nat_step cmd (view (nat_tab w)) = Some (view (nat_tab w'))))"
proof -
  have a: "take 31 (nat_args cmd) = nat_args cmd" using assms(3) by simp
  obtain b k where c: "iptables os (iptables_binary os # ''-w'' # ''-t'' # ''nat'' # cmd) (nat_tab w) = (b, k)"
    by force
  with assms(1) have "if b then nat_step cmd (view (nat_tab w)) = Some (view k) else view k = view (nat_tab w)"
    unfolding ipt_sound_def by blast
  with assms(2) c a show ?thesis
    by (auto simp: run_iptables_def sys_spawn_fault_def Let_def split: if_splits)
qed

text \<open>The same, oriented for rewriting.\<close>

lemma run_iptables_view:
  assumes "ipt_sound os view" and "run_iptables os (nat_args cmd) w = (r, w')" and "length cmd \<le> 27"
  shows "r = ok \<or> r = fail"
    and "r = ok \<Longrightarrow> nat_step cmd (view (nat_tab w)) \<noteq> None
      \<and> view (nat_tab w') = the (nat_step cmd (view (nat_tab w)))"
    and "view (nat_tab w') = view (nat_tab w) \<or> (nat_step cmd (view (nat_tab w)) \<noteq> None
      \<and> view (nat_tab w') = the (nat_step cmd (view (nat_tab w))))"
  using run_iptables_sound [OF assms] by auto

lemma run_iptables_exact:
  assumes "ipt_exact os view" and "run_iptables os (nat_args cmd) w = (r, w')" and "length cmd \<le> 27"
  shows "(case nat_step cmd (view (nat_tab w)) of
            None \<Rightarrow> r = fail \<and> view (nat_tab w') = view (nat_tab w)
          | Some v \<Rightarrow> r = ok \<and> view (nat_tab w') = v)"
proof -
  have a: "take 31 (nat_args cmd) = nat_args cmd" using assms(3) by simp
  obtain b k where c: "iptables os (iptables_binary os # ''-w'' # ''-t'' # ''nat'' # cmd) (nat_tab w) = (b, k)"
    by force
  with assms(1) have s: "if b then nat_step cmd (view (nat_tab w)) = Some (view k) else view k = view (nat_tab w)"
    unfolding ipt_exact_def ipt_sound_def by blast
  from assms(1) c have e: "nat_step cmd (view (nat_tab w)) \<noteq> None \<Longrightarrow> b"
    unfolding ipt_exact_def by (metis fst_conv)
  from assms(1) have f: "spawn_faults os = (\<lambda>_. False)" by (simp add: ipt_exact_def)
  from assms(2) c a f have "r = (if b then ok else fail)" and "nat_tab w' = k"
    by (auto simp: run_iptables_def sys_spawn_fault_def Let_def split: if_splits)
  with s e show ?thesis by (cases b; cases "nat_step cmd (view (nat_tab w))") simp_all
qed

lemma run_iptables_log:
  assumes "run_iptables os args w = (r, w')"
  shows "(nat_log w' = nat_log w \<and> nat_tab w' = nat_tab w) \<or> nat_log w' = nat_log w @ [nat_tab w']"
  using assms by (auto simp: run_iptables_def sys_spawn_fault_def Let_def split: if_splits prod.splits)

definition only_nat :: "'k world \<Rightarrow> 'k world \<Rightarrow> bool" where
  "only_nat w w' \<longleftrightarrow> same_files w w' \<and> procs w' = procs w \<and> signals w' = signals w"

lemma only_nat_refl [simp]: "only_nat w w"
  by (simp add: only_nat_def)

lemma only_nat_trans [trans]: "only_nat a b \<Longrightarrow> only_nat b c \<Longrightarrow> only_nat a c"
  by (auto simp: only_nat_def intro: same_files_trans)

lemma run_iptables_frame [frame]: "run_iptables os args w = (r, w') \<Longrightarrow> only_nat w w'"
  by (auto simp: run_iptables_def only_nat_def same_files_def sys_spawn_fault_def Let_def
      split: if_splits prod.splits)

text \<open>
  From \<open>w\<close> to \<open>w'\<close> only the packet filter changed, and every state it went through on the way
  satisfies \<open>P\<close>.
\<close>

definition nat_path :: "('k \<Rightarrow> nat_view) \<Rightarrow> (nat_view \<Rightarrow> bool) \<Rightarrow> 'k world \<Rightarrow> 'k world \<Rightarrow> bool" where
  "nat_path view P w w' \<longleftrightarrow> only_nat w w'
     \<and> (\<exists>new. nat_log w' = nat_log w @ new \<and> (\<forall>k \<in> set new. P (view k)))"

lemma nat_path_refl [simp]: "nat_path view P w w"
  by (simp add: nat_path_def)

lemma nat_path_trans [trans]:
  assumes "nat_path view P a b" "nat_path view P b c"
  shows "nat_path view P a c"
proof -
  from assms obtain m n where "nat_log b = nat_log a @ m" "nat_log c = nat_log b @ n"
    and "\<forall>k \<in> set m. P (view k)" "\<forall>k \<in> set n. P (view k)" and "only_nat a b" "only_nat b c"
    unfolding nat_path_def by blast
  then show ?thesis unfolding nat_path_def by (auto intro: only_nat_trans)
qed

lemma nat_path_mono: "nat_path view P w w' \<Longrightarrow> (\<And>v. P v \<Longrightarrow> Q v) \<Longrightarrow> nat_path view Q w w'"
  unfolding nat_path_def by blast

lemma nat_path_only [frame]: "nat_path view P w w' \<Longrightarrow> only_nat w w'"
  by (simp add: nat_path_def)

lemma run_iptables_path:
  "run_iptables os args w = (r, w') \<Longrightarrow> P (view (nat_tab w')) \<Longrightarrow> nat_path view P w w'"
  unfolding nat_path_def
  by (frule run_iptables_log) (auto dest: run_iptables_frame)

lemma chain_exists_run:
  assumes "chain_exists os w = (e, w')"
  obtains r where "run_iptables os (nat_args [''-S'', FP_CHAIN]) w = (r, w')" and "e = (r = ok)"
  using assms by (auto simp: chain_exists_def split: prod.splits)

lemma output_jump_exists_run:
  assumes "output_jump_exists os w = (e, w')"
  obtains r where "run_iptables os (nat_args (''-C'' # ''OUTPUT'' # jump_rule)) w = (r, w')" and "e = (r = ok)"
  using assms by (auto simp: output_jump_exists_def split: prod.splits)

text \<open>The two questions the code asks change nothing, whatever they answer.\<close>

lemma chain_exists_view:
  assumes "ipt_sound os view" "chain_exists os w = (e, w')"
  shows "view (nat_tab w') = view (nat_tab w)" and "e \<Longrightarrow> fchain (view (nat_tab w)) \<noteq> None"
  using assms(2)
  by (auto elim!: chain_exists_run dest!: run_iptables_sound [OF assms(1)]
      simp: nat_step_simps split: if_splits)

lemma jump_rule_length [simp]: "length jump_rule = 4"
  by (simp add: jump_rule_def)

lemma redirect_rule_length [simp]: "length redirect_rule = 6"
  by (simp add: redirect_rule_def)

lemma return_rule_length [simp]: "length (return_rule d) = 4"
  by (simp add: return_rule_def)

lemma output_jump_exists_view:
  assumes "ipt_sound os view" "output_jump_exists os w = (e, w')"
  shows "view (nat_tab w') = view (nat_tab w)"
    and "e \<Longrightarrow> jump_rule \<in> set (foutput (view (nat_tab w)))"
  using assms(2)
  by (auto elim!: output_jump_exists_run dest!: run_iptables_sound [OF assms(1)]
      simp: nat_step_simps split: if_splits)

section \<open>Removal\<close>

definition other_rules :: "nat_view \<Rightarrow> string list list" where
  "other_rules v = filter (\<lambda>r. r \<noteq> jump_rule) (foutput v)"

lemma delete_jump_run:
  assumes "ipt_sound os view"
    and "run_iptables os (nat_args (''-D'' # ''OUTPUT'' # jump_rule)) w = (r, w')"
  shows "fchain (view (nat_tab w')) = fchain (view (nat_tab w))"
    and "other_rules (view (nat_tab w')) = other_rules (view (nat_tab w))"
    and "r = ok \<Longrightarrow> length (foutput (view (nat_tab w'))) < length (foutput (view (nat_tab w)))"
    and "r = ok \<or> r = fail"
  using run_iptables_view [OF assms]
  by (auto simp: nat_step_simps other_rules_def filter_remove1_same length_remove1_less
      split: if_splits)

text \<open>
  The removal loop ends: each turn deletes a rule of \<open>OUTPUT\<close>. On the way the chain and the
  other rules of \<open>OUTPUT\<close> do not change.
\<close>

lemma remove_jumps_total:
  assumes "ipt_sound os view"
  shows "\<exists>r w'. remove_jumps os w = Some (r, w') \<and> (r = ok \<or> r = fail)
    \<and> fchain (view (nat_tab w')) = fchain (view (nat_tab w))
    \<and> other_rules (view (nat_tab w')) = other_rules (view (nat_tab w))
    \<and> nat_path view (\<lambda>v. fchain v = fchain (view (nat_tab w))
         \<and> other_rules v = other_rules (view (nat_tab w))) w w'"
proof (induction "length (foutput (view (nat_tab w)))" arbitrary: w rule: less_induct)
  case less
  let ?P = "\<lambda>v. fchain v = fchain (view (nat_tab w)) \<and> other_rules v = other_rules (view (nat_tab w))"
  obtain e w1 where 1: "output_jump_exists os w = (e, w1)" by force
  note v1 = output_jump_exists_view [OF assms 1]
  have p1: "nat_path view ?P w w1"
    using 1 v1(1) by (auto elim!: output_jump_exists_run intro: run_iptables_path)
  obtain r w2 where 2: "run_iptables os (nat_args (''-D'' # ''OUTPUT'' # jump_rule)) w1 = (r, w2)" by force
  note v2 = delete_jump_run [OF assms 2, unfolded v1(1)]
  have p2: "nat_path view ?P w1 w2"
    using 2 v2(1,2) by (auto intro: run_iptables_path)
  show ?case
  proof (cases "e \<and> r = ok")
    case True
    with less [of w2] v2 p1 p2 1 2 show ?thesis
      by (subst remove_jumps.simps) (force intro: nat_path_trans)
  next
    case False
    with 1 2 v1 v2 p1 p2 show ?thesis
      by (subst remove_jumps.simps) (auto intro: nat_path_trans)
  qed
qed

text \<open>
  Removal ends whatever the commands answer, reports 0 or -1, keeps the other rules of
  \<open>OUTPUT\<close>, and the chain is at every moment the old one, empty, or gone.
\<close>

definition shrinks :: "nat_view \<Rightarrow> nat_view \<Rightarrow> bool" where
  "shrinks v0 v \<longleftrightarrow> other_rules v = other_rules v0
     \<and> (fchain v = fchain v0 \<or> (fchain v0 \<noteq> None \<and> fchain v \<in> {Some [], None}))"

lemma shrinks_refl [simp]: "shrinks v v"
  by (simp add: shrinks_def)

lemma other_rules_fchain [simp]: "other_rules (v\<lparr>fchain := c\<rparr>) = other_rules v"
  by (simp add: other_rules_def)

lemma flush_run:
  assumes "ipt_sound os view" "run_iptables os (nat_args [''-F'', FP_CHAIN]) w = (r, w')"
    and "shrinks v0 (view (nat_tab w))"
  shows "shrinks v0 (view (nat_tab w'))" and "r = ok \<or> r = fail"
  using run_iptables_view [OF assms(1,2)] assms(3)
  by (auto simp: shrinks_def nat_step_chain split: if_splits)

lemma delete_chain_run:
  assumes "ipt_sound os view" "run_iptables os (nat_args [''-X'', FP_CHAIN]) w = (r, w')"
    and "shrinks v0 (view (nat_tab w))"
  shows "shrinks v0 (view (nat_tab w'))" and "r = ok \<or> r = fail"
  using run_iptables_view [OF assms(1,2)] assms(3)
  by (cases "fchain v0"; force simp: shrinks_def nat_step_chain split: if_splits)+

lemma fp_firewall_disable_total:
  assumes s: "ipt_sound os view"
  shows "\<exists>r w'. fp_firewall_disable os w = Some (r, w') \<and> (r = ok \<or> r = fail)
    \<and> shrinks (view (nat_tab w)) (view (nat_tab w'))
    \<and> nat_path view (shrinks (view (nat_tab w))) w w'"
proof -
  let ?P = "shrinks (view (nat_tab w))"
  obtain r1 w1 where 0: "remove_jumps os w = Some (r1, w1)" "r1 = ok \<or> r1 = fail"
    "fchain (view (nat_tab w1)) = fchain (view (nat_tab w))
       \<and> other_rules (view (nat_tab w1)) = other_rules (view (nat_tab w))"
    and p1: "nat_path view (\<lambda>v. fchain v = fchain (view (nat_tab w))
         \<and> other_rules v = other_rules (view (nat_tab w))) w w1"
    using remove_jumps_total [OF s, of w] by blast
  have 1: "remove_jumps os w = Some (r1, w1)" "r1 = ok \<or> r1 = fail"
    "?P (view (nat_tab w1))" "nat_path view ?P w w1"
    using 0 nat_path_mono [OF p1, of ?P] by (auto simp: shrinks_def)
  obtain e w2 where 2: "chain_exists os w1 = (e, w2)" by force
  have v2: "view (nat_tab w2) = view (nat_tab w1)" by (rule chain_exists_view [OF s 2])
  have p2: "nat_path view ?P w1 w2"
    using 2 v2 1(3) by (auto elim!: chain_exists_run intro: run_iptables_path)
  obtain r3 w3 where 3: "run_iptables os (nat_args [''-F'', FP_CHAIN]) w2 = (r3, w3)" by force
  have v3: "?P (view (nat_tab w3))" by (rule flush_run [OF s 3]) (simp add: v2 1)
  have p3: "nat_path view ?P w2 w3" by (rule run_iptables_path [where P = ?P and view = view, OF 3 v3])
  obtain r4 w4 where 4: "run_iptables os (nat_args [''-X'', FP_CHAIN]) w3 = (r4, w4)" by force
  have v4: "?P (view (nat_tab w4))" by (rule delete_chain_run [OF s 4 v3])
  have p4: "nat_path view ?P w3 w4" by (rule run_iptables_path [where P = ?P and view = view, OF 4 v4])
  show ?thesis
    using 1 2 3 4 v2 v3 v4 nat_path_trans [OF 1(4) p2] nat_path_trans [OF nat_path_trans [OF 1(4) p2] p3]
      nat_path_trans [OF nat_path_trans [OF nat_path_trans [OF 1(4) p2] p3] p4]
    by (auto simp: fp_firewall_disable_def Let_def split: option.splits)
qed

lemma exact_sound: "ipt_exact os view \<Longrightarrow> ipt_sound os view"
  by (simp add: ipt_exact_def)

lemma output_jump_exists_exact:
  assumes "ipt_exact os view" "output_jump_exists os w = (e, w')"
  shows "e \<longleftrightarrow> jump_rule \<in> set (foutput (view (nat_tab w)))"
  using assms(2)
  by (auto elim!: output_jump_exists_run dest!: run_iptables_exact [OF assms(1)]
      simp: nat_step_simps split: if_splits)

lemma chain_exists_exact:
  assumes "ipt_exact os view" "chain_exists os w = (e, w')"
  shows "e \<longleftrightarrow> fchain (view (nat_tab w)) \<noteq> None"
  using assms(2)
  by (auto elim!: chain_exists_run dest!: run_iptables_exact [OF assms(1)]
      simp: nat_step_simps split: if_splits)

lemma remove_jumps_exact:
  assumes x: "ipt_exact os view" and "remove_jumps os w = Some (r, w')"
  shows "r = ok \<and> jump_rule \<notin> set (foutput (view (nat_tab w')))"
  using assms(2)
proof (induction "length (foutput (view (nat_tab w)))" arbitrary: w rule: less_induct)
  case less
  note s = exact_sound [OF x]
  obtain e w1 where 1: "output_jump_exists os w = (e, w1)" by force
  note v1 = output_jump_exists_view(1) [OF s 1] output_jump_exists_exact [OF x 1]
  obtain r2 w2 where 2: "run_iptables os (nat_args (''-D'' # ''OUTPUT'' # jump_rule)) w1 = (r2, w2)" by force
  have "e \<Longrightarrow> r2 = ok" using run_iptables_exact [OF x 2] v1 by (simp add: nat_step_simps)
  with less.hyps [of w2] less.prems delete_jump_run(3) [OF s 2] v1 1 2 show ?case
    by (subst (asm) remove_jumps.simps) (auto split: if_splits)
qed

lemma fp_firewall_disable_exact:
  assumes x: "ipt_exact os view"
  shows "\<exists>w'. fp_firewall_disable os w = Some (ok, w') \<and> fchain (view (nat_tab w')) = None
    \<and> jump_rule \<notin> set (foutput (view (nat_tab w')))"
proof -
  note s = exact_sound [OF x]
  obtain r1 w1 where 1: "remove_jumps os w = Some (r1, w1)"
    using remove_jumps_total [OF s, of w] by blast
  have v1: "r1 = ok" "jump_rule \<notin> set (foutput (view (nat_tab w1)))"
    using remove_jumps_exact [OF x 1] by auto
  obtain e w2 where 2: "chain_exists os w1 = (e, w2)" by force
  note v2 = chain_exists_view(1) [OF s 2] chain_exists_exact [OF x 2]
  obtain r3 w3 where 3: "run_iptables os (nat_args [''-F'', FP_CHAIN]) w2 = (r3, w3)" by force
  obtain r4 w4 where 4: "run_iptables os (nat_args [''-X'', FP_CHAIN]) w3 = (r4, w4)" by force
  show ?thesis
    using 1 2 3 4 v1 v2 run_iptables_exact [OF x 3] run_iptables_exact [OF x 4]
    by (auto simp: fp_firewall_disable_def nat_step_chain split: if_splits)
qed

section \<open>Installation\<close>

text \<open>The rules the chain is to hold, in the order in which a packet meets them.\<close>

definition chain_rules :: "fp_config \<Rightarrow> string list list" where
  "chain_rules config =
     [return_rule (inet_ntop (proxy_addr config)), return_rule loopback_text]
     @ map (\<lambda>b. return_rule (btext b)) (bypass config) @ [redirect_rule]"

text \<open>
  What the table may look like while the rules for \<open>config\<close> are being installed: the old chain,
  no chain, or the first few of the rules; the other rules of \<open>OUTPUT\<close> are the old ones.
\<close>

definition installing :: "fp_config \<Rightarrow> nat_view \<Rightarrow> nat_view \<Rightarrow> bool" where
  "installing config v0 v \<longleftrightarrow> other_rules v = other_rules v0
     \<and> (fchain v = fchain v0 \<or> fchain v = None
        \<or> (\<exists>rs. fchain v = Some rs \<and> Sublist.prefix rs (chain_rules config)))"

definition built :: "nat_view \<Rightarrow> string list list \<Rightarrow> nat_view \<Rightarrow> bool" where
  "built v0 rs v \<longleftrightarrow> other_rules v = other_rules v0 \<and> fchain v = Some rs"

lemma installing_refl [simp]: "installing config v v"
  by (simp add: installing_def)

lemma built_installing: "built v0 rs v \<Longrightarrow> Sublist.prefix rs (chain_rules config) \<Longrightarrow> installing config v0 v"
  by (auto simp: built_def installing_def)

lemma installing_shrinks: "installing config v0 v \<Longrightarrow> shrinks v v' \<Longrightarrow> installing config v0 v'"
  by (auto simp: installing_def shrinks_def)

lemma create_chain_run:
  assumes "ipt_sound os view" "run_iptables os (nat_args [''-N'', FP_CHAIN]) w = (r, w')"
  shows "installing config (view (nat_tab w)) (view (nat_tab w'))"
    and "r = ok \<or> r = fail"
    and "r = ok \<Longrightarrow> fchain (view (nat_tab w')) = Some []"
  using run_iptables_view [OF assms] by (auto simp: installing_def nat_step_chain split: if_splits)

lemma flush_chain_run:
  assumes "ipt_sound os view" "run_iptables os (nat_args [''-F'', FP_CHAIN]) w = (r, w')"
    and "installing config v0 (view (nat_tab w))"
  shows "installing config v0 (view (nat_tab w'))"
    and "r = ok \<Longrightarrow> built v0 [] (view (nat_tab w'))"
  using run_iptables_view [OF assms(1,2)] assms(3)
  by (auto simp: installing_def built_def nat_step_chain split: if_splits)

lemma append_rule_run:
  assumes "ipt_sound os view" "run_iptables os (nat_args (''-A'' # FP_CHAIN # spec)) w = (r, w')"
    and "built v0 rs (view (nat_tab w))" and "Sublist.prefix (rs @ [spec]) (chain_rules config)"
    and "length spec \<le> 25"
  shows "r = ok \<or> r = fail"
    and "installing config v0 (view (nat_tab w'))"
    and "r = ok \<Longrightarrow> built v0 (rs @ [spec]) (view (nat_tab w'))"
proof -
  have "built v0 rs (view (nat_tab w')) \<or> built v0 (rs @ [spec]) (view (nat_tab w'))"
    using run_iptables_view [OF assms(1,2)] assms(3,5) by (auto simp: built_def nat_step_chain)
  then show "installing config v0 (view (nat_tab w'))"
    using assms(4) append_prefixD built_installing by blast
  show "r = ok \<or> r = fail" "r = ok \<Longrightarrow> built v0 (rs @ [spec]) (view (nat_tab w'))"
    using run_iptables_view [OF assms(1,2)] assms(3,5) by (auto simp: built_def nat_step_chain)
qed

lemma bypass_rules_run:
  assumes "ipt_sound os view" "bypass_rules os ''-A'' bs w = (r, w')"
    and "built v0 rs (view (nat_tab w))"
    and "Sublist.prefix (rs @ map (\<lambda>b. return_rule (btext b)) bs) (chain_rules config)"
  shows "(r = ok \<or> r = fail) \<and> installing config v0 (view (nat_tab w'))
    \<and> (r = ok \<longrightarrow> built v0 (rs @ map (\<lambda>b. return_rule (btext b)) bs) (view (nat_tab w')))
    \<and> nat_path view (installing config v0) w w'"
  using assms(2-4)
proof (induction bs arbitrary: w rs)
  case Nil
  then show ?case by (auto intro: built_installing)
next
  case (Cons b bs)
  obtain r1 w1 where 1: "run_iptables os (nat_args (''-A'' # FP_CHAIN # return_rule (btext b))) w = (r1, w1)"
    by force
  from Cons.prems(3) have p: "Sublist.prefix ((rs @ [return_rule (btext b)])
      @ map (\<lambda>b. return_rule (btext b)) bs) (chain_rules config)" by simp
  note v = append_rule_run [OF assms(1) 1 Cons.prems(2) append_prefixD [OF p]]
  have q: "nat_path view (installing config v0) w w1"
    by (rule run_iptables_path [OF 1]) (simp add: v)
  show ?case
    using Cons.prems(1) Cons.IH [OF _ _ p, of w1] 1 v q nat_path_trans [OF q]
    by (auto simp: bypass_rule_def split: if_splits)
qed

text \<open>The jump to the chain is put first in \<open>OUTPUT\<close> unless it is there.\<close>

definition install_jump :: "'k os \<Rightarrow> 'k world \<Rightarrow> int \<times> 'k world" where
  "install_jump os w =
     (let (r, w) = run_iptables os (nat_args (''-C'' # ''OUTPUT'' # jump_rule)) w in
      if r = ok then (ok, w)
      else run_iptables os (nat_args (''-I'' # ''OUTPUT'' # ''1'' # jump_rule)) w)"

lemma install_jump_run:
  assumes s: "ipt_sound os view" and "install_jump os w = (r, w')"
    and b: "built v0 rs (view (nat_tab w))" and p: "Sublist.prefix rs (chain_rules config)"
  shows "r = ok \<or> r = fail"
    and "built v0 rs (view (nat_tab w'))"
    and "r = ok \<Longrightarrow> jump_rule \<in> set (foutput (view (nat_tab w')))"
    and "nat_path view (installing config v0) w w'"
proof -
  obtain r1 w1 where 1: "run_iptables os (nat_args (''-C'' # ''OUTPUT'' # jump_rule)) w = (r1, w1)" by force
  obtain r2 w2 where 2: "run_iptables os (nat_args (''-I'' # ''OUTPUT'' # ''1'' # jump_rule)) w1 = (r2, w2)"
    by force
  have v1: "view (nat_tab w1) = view (nat_tab w)" "r1 = ok \<Longrightarrow> jump_rule \<in> set (foutput (view (nat_tab w)))"
    "r1 = ok \<or> r1 = fail"
    using run_iptables_view [OF s 1] by (auto simp: nat_step_output split: if_splits)
  have v2: "built v0 rs (view (nat_tab w2))"
    "r2 = ok \<Longrightarrow> jump_rule \<in> set (foutput (view (nat_tab w2)))" "r2 = ok \<or> r2 = fail"
    using run_iptables_view [OF s 2] b v1
    by (auto simp: nat_step_output built_def other_rules_def split: if_splits)
  have p1: "nat_path view (installing config v0) w w1"
    by (rule run_iptables_path [OF 1]) (simp add: v1 built_installing [OF b p])
  have p2: "nat_path view (installing config v0) w1 w2"
    by (rule run_iptables_path [OF 2]) (simp add: built_installing [OF v2(1) p])
  show "r = ok \<or> r = fail" "built v0 rs (view (nat_tab w'))"
    "r = ok \<Longrightarrow> jump_rule \<in> set (foutput (view (nat_tab w')))"
    "nat_path view (installing config v0) w w'"
    using assms(2) 1 2 v1 v2 b p1 nat_path_trans [OF p1 p2]
    by (auto simp: install_jump_def Let_def split: if_splits)
qed

text \<open>How every run of \<open>fp_firewall_enable\<close> ends.\<close>

definition install_outcome ::
  "('k \<Rightarrow> nat_view) \<Rightarrow> fp_config \<Rightarrow> 'k world \<Rightarrow> (int \<times> 'k world) option \<Rightarrow> bool" where
  "install_outcome view config w res \<longleftrightarrow> (\<exists>r w'. res = Some (r, w') \<and> (r = ok \<or> r = fail)
     \<and> installing config (view (nat_tab w)) (view (nat_tab w'))
     \<and> nat_path view (installing config (view (nat_tab w))) w w'
     \<and> (r = ok \<longrightarrow> built (view (nat_tab w)) (chain_rules config) (view (nat_tab w'))
          \<and> jump_rule \<in> set (foutput (view (nat_tab w')))))"

lemma disable_and_fail_outcome:
  assumes "ipt_sound os view" and "installing config (view (nat_tab w)) (view (nat_tab w1))"
    and "nat_path view (installing config (view (nat_tab w))) w w1"
  shows "install_outcome view config w (disable_and_fail os w1)"
proof -
  obtain r w' where d: "fp_firewall_disable os w1 = Some (r, w')"
    "shrinks (view (nat_tab w1)) (view (nat_tab w'))"
    "nat_path view (shrinks (view (nat_tab w1))) w1 w'"
    using fp_firewall_disable_total [OF assms(1), of w1] by blast
  have "nat_path view (installing config (view (nat_tab w))) w1 w'"
    by (rule nat_path_mono [OF d(3)]) (rule installing_shrinks [OF assms(2)])
  with d assms(3) installing_shrinks [OF assms(2) d(2)] show ?thesis
    by (auto simp: disable_and_fail_def install_outcome_def intro: nat_path_trans)
qed

text \<open>The code after the chain exists, one step at a time.\<close>

definition install_rules :: "'k os \<Rightarrow> fp_config \<Rightarrow> 'k world \<Rightarrow> int \<times> 'k world" where
  "install_rules os config w =
     (let (r, w) = run_iptables os (nat_args [''-F'', FP_CHAIN]) w in
      if r \<noteq> ok then (r, w)
      else let (r, w) = run_iptables os (nat_args (''-A'' # FP_CHAIN # return_rule (inet_ntop (proxy_addr config)))) w in
      if r \<noteq> ok then (r, w)
      else let (r, w) = run_iptables os (nat_args (''-A'' # FP_CHAIN # return_rule loopback_text)) w in
      if r \<noteq> ok then (r, w)
      else let (r, w) = bypass_rules os ''-A'' (bypass config) w in
      if r \<noteq> ok then (r, w)
      else let (r, w) = run_iptables os (nat_args (''-A'' # FP_CHAIN # redirect_rule)) w in
      if r \<noteq> ok then (r, w) else install_jump os w)"

lemma fp_firewall_enable_rules:
  "fp_firewall_enable os config w =
     (let (e, w) = chain_exists os w;
          (r, w) = (if e then (ok, w) else run_iptables os (nat_args [''-N'', FP_CHAIN]) w) in
      if r \<noteq> ok then Some (fail, w)
      else let (r, w) = install_rules os config w in
      if r \<noteq> ok then disable_and_fail os w else Some (ok, w))"
  unfolding fp_firewall_enable_def install_rules_def install_jump_def Let_def
  by (simp add: split_beta)

lemma prefix_chain_rules:
  "Sublist.prefix [return_rule (inet_ntop (proxy_addr config))] (chain_rules config)"
  "Sublist.prefix [return_rule (inet_ntop (proxy_addr config)), return_rule loopback_text] (chain_rules config)"
  "Sublist.prefix ([return_rule (inet_ntop (proxy_addr config)), return_rule loopback_text]
     @ map (\<lambda>b. return_rule (btext b)) (bypass config)) (chain_rules config)"
  by (simp_all add: chain_rules_def)

lemma install_rules_run:
  assumes s: "ipt_sound os view" and "install_rules os config w = (r, w')"
    and i: "installing config v0 (view (nat_tab w))"
  shows "installing config v0 (view (nat_tab w')) \<and> nat_path view (installing config v0) w w'
    \<and> (r = ok \<longrightarrow> built v0 (chain_rules config) (view (nat_tab w'))
          \<and> jump_rule \<in> set (foutput (view (nat_tab w'))))"
proof -
  let ?Q = "nat_path view (installing config v0)"
  let ?pr = "return_rule (inet_ntop (proxy_addr config))" and ?lr = "return_rule loopback_text"
  let ?brs = "map (\<lambda>b. return_rule (btext b)) (bypass config)"
  obtain r1 w1 where 1: "run_iptables os (nat_args [''-F'', FP_CHAIN]) w = (r1, w1)" by force
  obtain r2 w2 where 2: "run_iptables os (nat_args (''-A'' # FP_CHAIN # ?pr)) w1 = (r2, w2)" by force
  obtain r3 w3 where 3: "run_iptables os (nat_args (''-A'' # FP_CHAIN # ?lr)) w2 = (r3, w3)" by force
  obtain r4 w4 where 4: "bypass_rules os ''-A'' (bypass config) w3 = (r4, w4)" by force
  obtain r5 w5 where 5: "run_iptables os (nat_args (''-A'' # FP_CHAIN # redirect_rule)) w4 = (r5, w5)" by force
  note v1 = flush_chain_run [OF s 1 i]
  note p1 = run_iptables_path [where P = "installing config v0" and view = view, OF 1 v1(1)]
  note v2 = append_rule_run [OF s 2 v1(2), where config = config, simplified, OF _ prefix_chain_rules(1)]
  note v3 = append_rule_run [OF s 3 v2(3), where config = config, simplified, OF _ _ prefix_chain_rules(2)]
  note v4 = bypass_rules_run [OF s 4 v3(3), where config = config, simplified,
      OF _ _ _ prefix_chain_rules(3) [simplified]]
  have c: "(?pr # ?lr # ?brs) @ [redirect_rule] = chain_rules config" by (simp add: chain_rules_def)
  have v5: "installing config v0 (view (nat_tab w5))" "r5 = ok \<Longrightarrow> built v0 (chain_rules config) (view (nat_tab w5))"
    if "r1 = ok" "r2 = ok" "r3 = ok" "r4 = ok"
    using append_rule_run [OF s 5, where config = config and ?v0.0 = v0 and rs = "?pr # ?lr # ?brs"] v4 that c by auto
  have q: "?Q w w2" if "r1 = ok"
    by (rule nat_path_trans [OF p1 run_iptables_path [OF 2]]) (rule v2(2) [OF that])
  have q3: "?Q w w3" if "r1 = ok" "r2 = ok"
    by (rule nat_path_trans [OF q run_iptables_path [OF 3]]) (use v3(2) that in auto)
  have q4: "?Q w w4" if "r1 = ok" "r2 = ok" "r3 = ok"
    by (rule nat_path_trans [OF q3]) (use v4 that in auto)
  have q5: "?Q w w5" if "r1 = ok" "r2 = ok" "r3 = ok" "r4 = ok"
    by (rule nat_path_trans [OF q4 run_iptables_path [OF 5]]) (use v5 that in auto)
  note v6 = install_jump_run [OF s _ v5(2) prefix_order.refl]
  show ?thesis
    using assms(2) 1 2 3 4 5 v1 p1 v2 v3 v4 v5 q q3 q4 q5 v6 nat_path_trans [OF q5 v6(4)]
    by (auto simp: install_rules_def Let_def built_installing split: if_splits)
qed

lemma fp_firewall_enable_outcome:
  assumes s: "ipt_sound os view"
  shows "install_outcome view config w (fp_firewall_enable os config w)"
proof -
  let ?Q = "nat_path view (installing config (view (nat_tab w)))"
  let ?I = "installing config (view (nat_tab w))"
  obtain e w1 where 1: "chain_exists os w = (e, w1)" by force
  have v1: "view (nat_tab w1) = view (nat_tab w)" by (rule chain_exists_view [OF s 1])
  have p1: "?Q w w1" using 1 v1 by (auto elim!: chain_exists_run intro: run_iptables_path)
  obtain r2 w2 where 2: "run_iptables os (nat_args [''-N'', FP_CHAIN]) w1 = (r2, w2)" by force
  have v2: "?I (view (nat_tab w2))" using create_chain_run(1) [OF s 2] v1 by simp
  have p2: "?Q w w2" by (rule nat_path_trans [OF p1 run_iptables_path [OF 2]]) (rule v2)
  have main: "install_outcome view config w
      (let (r, w) = install_rules os config x in if r \<noteq> ok then disable_and_fail os w else Some (ok, w))"
    if i: "?I (view (nat_tab x))" "?Q w x" for x
  proof -
    obtain r3 w3 where 3: "install_rules os config x = (r3, w3)" by force
    note v3 = install_rules_run [OF s 3 i(1)]
    have p3: "?Q w w3" by (rule nat_path_trans [OF i(2)]) (use v3 in blast)
    show ?thesis
      using 3 v3 p3 disable_and_fail_outcome [OF s _ p3] by (auto simp: install_outcome_def)
  qed
  show ?thesis
    unfolding fp_firewall_enable_rules
    using 1 2 v1 v2 p1 p2 main [of w1] main [of w2]
    by (auto simp: Let_def install_outcome_def split: if_splits)
qed

section \<open>What the installed rules do to a connection\<close>

text \<open>
  A TCP connection to \<open>dst\<close> that reaches the chain: the first rule that matches decides, and one
  that runs off the end returns to \<open>OUTPUT\<close>. A rule applies to an address or to a network
  \<open>address/prefix\<close>.
\<close>

datatype verdict = Untouched | Redirected nat

definition cidr_matches :: "string \<Rightarrow> ip \<Rightarrow> bool" where
  "cidr_matches d dst =
     (case strchr_split CHR ''/'' d of
        None \<Rightarrow> inet_pton d = Some dst
      | Some (a, p) \<Rightarrow> (case inet_pton a of None \<Rightarrow> False | Some n \<Rightarrow> in_network n (dval p) dst))"

definition rule_verdict :: "string list \<Rightarrow> ip \<Rightarrow> verdict option" where
  "rule_verdict spec dst =
     (case spec of
        [a, d, j, t] \<Rightarrow>
          if a = ''-d'' \<and> j = ''-j'' \<and> t = ''RETURN'' \<and> cidr_matches d dst then Some Untouched else None
      | [p, t, j, r, q, n] \<Rightarrow>
          if p = ''-p'' \<and> t = ''tcp'' \<and> j = ''-j'' \<and> r = ''REDIRECT'' \<and> q = ''--to-ports''
          then Some (Redirected (dval n)) else None
      | _ \<Rightarrow> None)"

fun chain_verdict :: "string list list \<Rightarrow> ip \<Rightarrow> verdict" where
  "chain_verdict [] dst = Untouched"
| "chain_verdict (r # rs) dst = (case rule_verdict r dst of Some v \<Rightarrow> v | None \<Rightarrow> chain_verdict rs dst)"

text \<open>The destinations the program promises to leave alone.\<close>

definition exempt :: "fp_config \<Rightarrow> ip \<Rightarrow> bool" where
  "exempt config dst \<longleftrightarrow> dst = proxy_addr config \<or> in_network (ip_of_octets 127 0 0 0) 8 dst
     \<or> bypassed (bypass config) dst"

lemma rule_verdict_return:
  "rule_verdict (return_rule d) dst = (if cidr_matches d dst then Some Untouched else None)"
  by (simp add: rule_verdict_def return_rule_def)

lemma rule_verdict_redirect: "rule_verdict redirect_rule dst = Some (Redirected FP_LISTEN_PORT)"
  by (simp add: rule_verdict_def redirect_rule_def)

lemma cidr_matches_host [simp]: "cidr_matches (inet_ntop n) dst \<longleftrightarrow> dst = n"
  by (auto simp: cidr_matches_def)

lemma cidr_matches_net [simp]: "cidr_matches (inet_ntop n @ CHR ''/'' # dec p) dst \<longleftrightarrow> in_network n p dst"
  by (simp add: cidr_matches_def strchr_split_append)

lemma cidr_matches_loopback [simp]: "cidr_matches loopback_text dst \<longleftrightarrow> in_network (ip_of_octets 127 0 0 0) 8 dst"
proof -
  have "inet_ntop (ip_of_octets 127 0 0 0) @ CHR ''/'' # dec 8 = loopback_text"
    by (simp add: loopback_text_def print_eval)
  then show ?thesis by (metis cidr_matches_net)
qed

lemma cidr_matches_btext: "wf_entry b \<Longrightarrow> cidr_matches (btext b) dst \<longleftrightarrow> in_network (network b) (unat (fp_bypass.prefix b)) dst"
  by (auto simp: wf_entry_def bypass_text_eq(1) in_network_32 split: if_splits)

lemma chain_verdict_append:
  "chain_verdict (xs @ ys) dst =
     (if \<exists>r \<in> set xs. rule_verdict r dst \<noteq> None then chain_verdict xs dst else chain_verdict ys dst)"
  by (induction xs) (auto split: option.splits)

lemma chain_verdict_returns:
  "(\<And>r. r \<in> set xs \<Longrightarrow> rule_verdict r dst \<in> {None, Some Untouched}) \<Longrightarrow> chain_verdict xs dst = Untouched"
  by (induction xs) (fastforce split: option.splits)+

lemma bypass_rules_match:
  assumes "\<forall>b \<in> set bs. wf_entry b"
  shows "(\<exists>r \<in> set (map (\<lambda>b. return_rule (btext b)) bs). rule_verdict r dst \<noteq> None) \<longleftrightarrow> bypassed bs dst"
  using assms by (auto simp: bypassed_def rule_verdict_return cidr_matches_btext)

lemma chain_rules_verdict:
  assumes "wf_config config"
  shows "chain_verdict (chain_rules config) dst =
    (if exempt config dst then Untouched else Redirected FP_LISTEN_PORT)"
proof -
  have w: "\<forall>b \<in> set (bypass config). wf_entry b"
    using assms by (simp add: wf_config_def wf_bypass_def)
  have u: "chain_verdict (map (\<lambda>b. return_rule (btext b)) (bypass config)) dst = Untouched"
    by (rule chain_verdict_returns) (auto simp: rule_verdict_return)
  show ?thesis
    using u bypass_rules_match [OF w, of dst]
    by (simp add: chain_rules_def chain_verdict_append rule_verdict_return rule_verdict_redirect exempt_def
        del: set_map split: option.split)
qed

text \<open>No matter where the rules are cut off, an exempt destination is left alone.\<close>

lemma chain_rules_prefix_verdict:
  assumes "wf_config config" and "Sublist.prefix rs (chain_rules config)" and "exempt config dst"
  shows "chain_verdict rs dst = Untouched"
proof -
  obtain zs where z: "chain_rules config = rs @ zs" using assms(2) by (auto simp: Sublist.prefix_def)
  have "chain_verdict (chain_rules config) dst = Untouched"
    using chain_rules_verdict [OF assms(1)] assms(3) by simp
  then show ?thesis
    unfolding z chain_verdict_append by (cases "\<exists>r \<in> set rs. rule_verdict r dst \<noteq> None")
      (auto intro: chain_verdict_returns)
qed

section \<open>A firewall whose commands work\<close>

lemma append_rule_exact:
  assumes "ipt_exact os view" "run_iptables os (nat_args (''-A'' # FP_CHAIN # spec)) w = (r, w')"
    and "fchain (view (nat_tab w)) \<noteq> None" and "length spec \<le> 25"
  shows "r = ok" and "fchain (view (nat_tab w')) \<noteq> None"
  using run_iptables_exact [OF assms(1,2)] assms(3,4) by (auto simp: nat_step_chain)

lemma bypass_rules_exact:
  assumes "ipt_exact os view" "bypass_rules os ''-A'' bs w = (r, w')" "fchain (view (nat_tab w)) \<noteq> None"
  shows "r = ok \<and> fchain (view (nat_tab w')) \<noteq> None"
  using assms(2,3)
proof (induction bs arbitrary: w)
  case (Cons b bs)
  obtain r1 w1 where 1: "run_iptables os (nat_args (''-A'' # FP_CHAIN # return_rule (btext b))) w = (r1, w1)"
    by force
  show ?case
    using Cons append_rule_exact [OF assms(1) 1 Cons.prems(2)] 1 by (simp add: bypass_rule_def)
qed auto

lemma install_jump_exact:
  assumes "ipt_exact os view" "install_jump os w = (r, w')" "fchain (view (nat_tab w)) \<noteq> None"
  shows "r = ok"
proof -
  obtain r1 w1 where 1: "run_iptables os (nat_args (''-C'' # ''OUTPUT'' # jump_rule)) w = (r1, w1)" by force
  obtain r2 w2 where 2: "run_iptables os (nat_args (''-I'' # ''OUTPUT'' # ''1'' # jump_rule)) w1 = (r2, w2)"
    by force
  show ?thesis
    using assms(2,3) 1 2 run_iptables_exact [OF assms(1) 1] run_iptables_exact [OF assms(1) 2]
    by (auto simp: install_jump_def nat_step_output split: if_splits)
qed

lemma install_rules_exact:
  assumes x: "ipt_exact os view" and "install_rules os config w = (r, w')"
    and c: "fchain (view (nat_tab w)) \<noteq> None"
  shows "r = ok"
proof -
  obtain r1 w1 where 1: "run_iptables os (nat_args [''-F'', FP_CHAIN]) w = (r1, w1)" by force
  have v1: "r1 = ok" "fchain (view (nat_tab w1)) \<noteq> None"
    using run_iptables_exact [OF x 1] c by (auto simp: nat_step_chain)
  obtain r2 w2 where 2: "run_iptables os (nat_args (''-A'' # FP_CHAIN
      # return_rule (inet_ntop (proxy_addr config)))) w1 = (r2, w2)" by force
  note v2 = append_rule_exact [OF x 2 v1(2), simplified]
  obtain r3 w3 where 3: "run_iptables os (nat_args (''-A'' # FP_CHAIN # return_rule loopback_text)) w2 = (r3, w3)"
    by force
  note v3 = append_rule_exact [OF x 3, simplified, OF v2(2)]
  obtain r4 w4 where 4: "bypass_rules os ''-A'' (bypass config) w3 = (r4, w4)" by force
  have v4: "r4 = ok \<and> fchain (view (nat_tab w4)) \<noteq> None"
    by (rule bypass_rules_exact [OF x 4]) (use v3 in simp)
  obtain r5 w5 where 5: "run_iptables os (nat_args (''-A'' # FP_CHAIN # redirect_rule)) w4 = (r5, w5)" by force
  have v5: "r5 = ok" "fchain (view (nat_tab w5)) \<noteq> None"
    using append_rule_exact [OF x 5] v4 by auto
  show ?thesis
    using assms(2) 1 2 3 4 5 v1 v2 v3 v4 v5 install_jump_exact [OF x _ v5(2)]
    by (simp add: install_rules_def)
qed

lemma fp_firewall_enable_exact:
  assumes x: "ipt_exact os view"
  shows "\<exists>w'. fp_firewall_enable os config w = Some (ok, w')"
proof -
  note s = exact_sound [OF x]
  obtain e w1 where 1: "chain_exists os w = (e, w1)" by force
  note v1 = chain_exists_view(1) [OF s 1] chain_exists_exact [OF x 1]
  obtain r2 w2 where 2: "run_iptables os (nat_args [''-N'', FP_CHAIN]) w1 = (r2, w2)" by force
  have v2: "\<not> e \<Longrightarrow> r2 = ok \<and> fchain (view (nat_tab w2)) \<noteq> None"
    using run_iptables_exact [OF x 2] v1 by (auto simp: nat_step_chain)
  have i: "fst (install_rules os config w1) = ok" if e
    using install_rules_exact [OF x, of config w1 "fst (install_rules os config w1)"
        "snd (install_rules os config w1)"] v1 that by simp
  have j: "fst (install_rules os config w2) = ok" if "\<not> e"
    using install_rules_exact [OF x, of config w2 "fst (install_rules os config w2)"
        "snd (install_rules os config w2)"] v2 that by simp
  show ?thesis
    unfolding fp_firewall_enable_rules using 1 2 v2 i j by (auto simp: split_beta Let_def)
qed

lemma check_rule_exact:
  assumes "ipt_exact os view" "run_iptables os (nat_args (''-C'' # FP_CHAIN # spec)) w = (r, w')"
    and "fchain (view (nat_tab w)) = Some rs" and "length spec \<le> 25"
  shows "r = (if spec \<in> set rs then ok else fail)" and "view (nat_tab w') = view (nat_tab w)"
  using run_iptables_exact [OF assms(1,2)] assms(3,4)
  by (auto simp: nat_step_chain split: if_splits)

lemma check_bypass_exact:
  assumes "ipt_exact os view" "bypass_rules os ''-C'' bs w = (r, w')"
    and "fchain (view (nat_tab w)) = Some rs"
  shows "(r = ok \<longleftrightarrow> (\<forall>b \<in> set bs. return_rule (btext b) \<in> set rs))
    \<and> view (nat_tab w') = view (nat_tab w)"
  using assms(2,3)
proof (induction bs arbitrary: w)
  case (Cons b bs)
  obtain r1 w1 where 1: "run_iptables os (nat_args (''-C'' # FP_CHAIN # return_rule (btext b))) w = (r1, w1)"
    by force
  show ?case
    using Cons check_rule_exact [OF assms(1) 1 Cons.prems(2)] 1
    by (auto simp: bypass_rule_def split: if_splits)
qed auto

lemma fp_firewall_is_enabled_exact:
  assumes x: "ipt_exact os view" and "fp_firewall_is_enabled os config w = (e, w')"
  shows "e \<longleftrightarrow> jump_rule \<in> set (foutput (view (nat_tab w)))
     \<and> (\<exists>rs. fchain (view (nat_tab w)) = Some rs \<and> set (chain_rules config) \<subseteq> set rs)"
proof -
  note s = exact_sound [OF x]
  obtain e1 w1 where 1: "chain_exists os w = (e1, w1)" by force
  obtain e2 w2 where 2: "output_jump_exists os w1 = (e2, w2)" by force
  obtain r3 w3 where 3: "run_iptables os (nat_args (''-C'' # FP_CHAIN
      # return_rule (inet_ntop (proxy_addr config)))) w2 = (r3, w3)" by force
  obtain r4 w4 where 4: "run_iptables os (nat_args (''-C'' # FP_CHAIN # return_rule loopback_text)) w3 = (r4, w4)"
    by force
  obtain r5 w5 where 5: "run_iptables os (nat_args (''-C'' # FP_CHAIN # redirect_rule)) w4 = (r5, w5)" by force
  obtain r6 w6 where 6: "bypass_rules os ''-C'' (bypass config) w5 = (r6, w6)" by force
  have d: "fp_firewall_is_enabled os config w
      = (e1 \<and> e2 \<and> r3 = ok \<and> r4 = ok \<and> r5 = ok \<and> r6 = ok,
         snd (fp_firewall_is_enabled os config w))"
    using 1 2 3 4 5 6 by (simp add: fp_firewall_is_enabled_def Let_def)
  note v1 = chain_exists_view(1) [OF s 1] chain_exists_exact [OF x 1]
  note v2 = output_jump_exists_view(1) [OF s 2] output_jump_exists_exact [OF x 2]
  have e: "e = (e1 \<and> e2 \<and> r3 = ok \<and> r4 = ok \<and> r5 = ok \<and> r6 = ok)"
    using d assms(2) by simp
  show ?thesis
  proof (cases "fchain (view (nat_tab w))")
    case None
    with v1 e show ?thesis by simp
  next
    case (Some rs)
    note v3 = check_rule_exact [OF x 3, of rs, simplified]
    note v4 = check_rule_exact [OF x 4, of rs, simplified]
    note v5 = check_rule_exact [OF x 5, of rs, simplified]
    note v6 = check_bypass_exact [OF x 6, of rs]
    from Some v1 v2 v3 v4 v5 v6 e show ?thesis
      by (auto simp: chain_rules_def)
  qed
qed

text \<open>If no process can be started, the two questions are answered with no.\<close>

lemma fp_firewall_disable_no_fork:
  assumes "spawn_faults os = (\<lambda>_. True)"
  shows "\<exists>w'. fp_firewall_disable os w = Some (ok, w') \<and> nat_tab w' = nat_tab w"
proof -
  have r: "run_iptables os args x = (fail, x\<lparr>tick := Suc (tick x)\<rparr>)" for args x
    using assms by (simp add: run_iptables_def sys_spawn_fault_def)
  show ?thesis
    by (simp add: fp_firewall_disable_def remove_jumps.simps [of os w] output_jump_exists_def
        chain_exists_def r)
qed

section \<open>What the firewall operations leave alone\<close>

lemma chain_exists_only [frame]: "chain_exists os w = (e, w') \<Longrightarrow> only_nat w w'"
  by (auto elim!: chain_exists_run dest: run_iptables_frame)

lemma output_jump_exists_only [frame]: "output_jump_exists os w = (e, w') \<Longrightarrow> only_nat w w'"
  by (auto elim!: output_jump_exists_run dest: run_iptables_frame)

lemma bypass_rules_only [frame]: "bypass_rules os op bs w = (r, w') \<Longrightarrow> only_nat w w'"
proof (induction bs arbitrary: w)
  case (Cons b bs)
  obtain q w1 where 1: "bypass_rule os op (btext b) w = (q, w1)" by force
  then have "only_nat w w1" by (simp add: bypass_rule_def run_iptables_frame)
  with Cons 1 show ?case by (auto split: if_splits intro: only_nat_trans)
qed simp

lemma remove_jumps_only [frame]: "remove_jumps os w = Some (r, w') \<Longrightarrow> only_nat w w'"
proof (rule remove_jumps.raw_induct [of "\<lambda>_ w x. only_nat w (snd x)" os w "(r, w')", simplified snd_conv])
  fix rec :: "'k os \<Rightarrow> 'k world \<Rightarrow> (int \<times> 'k world) option" and os w x
  assume ih: "\<And>os w x. rec os w = Some x \<Longrightarrow> only_nat w (snd x)"
    and b: "(case output_jump_exists os w of (e, w1) \<Rightarrow>
      if e then case run_iptables os (nat_args (''-D'' # ''OUTPUT'' # jump_rule)) w1 of
          (r, w2) \<Rightarrow> if r \<noteq> ok then Some (fail, w2) else rec os w2
      else Some (ok, w1)) = Some x"
  obtain e w1 where e: "output_jump_exists os w = (e, w1)" by force
  obtain q w2 where q: "run_iptables os (nat_args (''-D'' # ''OUTPUT'' # jump_rule)) w1 = (q, w2)" by force
  note o1 = output_jump_exists_only [OF e]
  note o2 = only_nat_trans [OF o1 run_iptables_frame [OF q]]
  show "only_nat w (snd x)"
  proof (cases "e \<and> q = ok")
    case True
    with b e q have "rec os w2 = Some x" by simp
    from only_nat_trans [OF o2 ih [OF this]] show ?thesis .
  next
    case False
    with b e q have "snd x = w1 \<or> snd x = w2" by (cases e) auto
    with o1 o2 show ?thesis by auto
  qed
qed

lemma fp_firewall_disable_only [frame]:
  assumes "fp_firewall_disable os w = Some (r, w')"
  shows "only_nat w w'"
proof -
  obtain r1 w1 where 1: "remove_jumps os w = Some (r1, w1)"
    using assms by (auto simp: fp_firewall_disable_def split: Option.bind_splits)
  obtain e w2 where 2: "chain_exists os w1 = (e, w2)" by force
  obtain r3 w3 where 3: "run_iptables os (nat_args [''-F'', FP_CHAIN]) w2 = (r3, w3)" by force
  obtain r4 w4 where 4: "run_iptables os (nat_args [''-X'', FP_CHAIN]) w3 = (r4, w4)" by force
  note o1 = remove_jumps_only [OF 1]
  note o2 = only_nat_trans [OF o1 chain_exists_only [OF 2]]
  note o3 = only_nat_trans [OF o2 run_iptables_frame [OF 3]]
  note o4 = only_nat_trans [OF o3 run_iptables_frame [OF 4]]
  show ?thesis
    using assms 1 2 3 4 o1 o2 o3 o4 by (auto simp: fp_firewall_disable_def Let_def split: if_splits)
qed

lemma install_jump_only:
  assumes "install_jump os w = (r, w')"
  shows "only_nat w w'"
proof -
  obtain r1 w1 where 1: "run_iptables os (nat_args (''-C'' # ''OUTPUT'' # jump_rule)) w = (r1, w1)" by force
  obtain r2 w2 where 2: "run_iptables os (nat_args (''-I'' # ''OUTPUT'' # ''1'' # jump_rule)) w1 = (r2, w2)" by force
  note o1 = run_iptables_frame [OF 1]
  note o2 = only_nat_trans [OF o1 run_iptables_frame [OF 2]]
  show ?thesis using assms 1 2 o1 o2 by (auto simp: install_jump_def split: if_splits)
qed

lemma install_rules_only:
  assumes "install_rules os config w = (r, w')"
  shows "only_nat w w'"
proof -
  obtain r1 w1 where 1: "run_iptables os (nat_args [''-F'', FP_CHAIN]) w = (r1, w1)" by force
  obtain r2 w2 where 2: "run_iptables os (nat_args (''-A'' # FP_CHAIN
      # return_rule (inet_ntop (proxy_addr config)))) w1 = (r2, w2)" by force
  obtain r3 w3 where 3: "run_iptables os (nat_args (''-A'' # FP_CHAIN # return_rule loopback_text)) w2 = (r3, w3)"
    by force
  obtain r4 w4 where 4: "bypass_rules os ''-A'' (bypass config) w3 = (r4, w4)" by force
  obtain r5 w5 where 5: "run_iptables os (nat_args (''-A'' # FP_CHAIN # redirect_rule)) w4 = (r5, w5)" by force
  obtain r6 w6 where 6: "install_jump os w5 = (r6, w6)" by force
  note o1 = run_iptables_frame [OF 1]
  note o2 = only_nat_trans [OF o1 run_iptables_frame [OF 2]]
  note o3 = only_nat_trans [OF o2 run_iptables_frame [OF 3]]
  note o4 = only_nat_trans [OF o3 bypass_rules_only [OF 4]]
  note o5 = only_nat_trans [OF o4 run_iptables_frame [OF 5]]
  note o6 = only_nat_trans [OF o5 install_jump_only [OF 6]]
  have "w' \<in> {w1, w2, w3, w4, w5, w6}"
    using assms 1 2 3 4 5 6 by (auto simp: install_rules_def Let_def split: if_splits)
  with o1 o2 o3 o4 o5 o6 show ?thesis by auto
qed

lemma fp_firewall_enable_only [frame]:
  assumes "fp_firewall_enable os config w = Some (r, w')"
  shows "only_nat w w'"
proof -
  obtain e w1 where 1: "chain_exists os w = (e, w1)" by force
  obtain r2 w2 where 2: "(if e then (ok, w1) else run_iptables os (nat_args [''-N'', FP_CHAIN]) w1) = (r2, w2)"
    by force
  obtain r3 w3 where 3: "install_rules os config w2 = (r3, w3)" by force
  have o1: "only_nat w w1" by (rule chain_exists_only [OF 1])
  have o2: "only_nat w w2"
    using 2 o1 only_nat_trans [OF o1 run_iptables_frame] by (auto split: if_splits)
  note o3 = only_nat_trans [OF o2 install_rules_only [OF 3]]
  show ?thesis
    using assms 1 2 3 o2 o3 unfolding fp_firewall_enable_rules
    by (auto simp: Let_def disable_and_fail_def split: if_splits Option.bind_splits
        dest: fp_firewall_disable_only intro: only_nat_trans)
qed

lemma fp_firewall_is_enabled_only [frame]:
  assumes "fp_firewall_is_enabled os config w = (e, w')"
  shows "only_nat w w'"
proof -
  obtain e1 w1 where 1: "chain_exists os w = (e1, w1)" by force
  obtain e2 w2 where 2: "output_jump_exists os w1 = (e2, w2)" by force
  obtain r3 w3 where 3: "run_iptables os (nat_args (''-C'' # FP_CHAIN
      # return_rule (inet_ntop (proxy_addr config)))) w2 = (r3, w3)" by force
  obtain r4 w4 where 4: "run_iptables os (nat_args (''-C'' # FP_CHAIN # return_rule loopback_text)) w3 = (r4, w4)"
    by force
  obtain r5 w5 where 5: "run_iptables os (nat_args (''-C'' # FP_CHAIN # redirect_rule)) w4 = (r5, w5)" by force
  obtain r6 w6 where 6: "bypass_rules os ''-C'' (bypass config) w5 = (r6, w6)" by force
  note o1 = chain_exists_only [OF 1]
  note o2 = only_nat_trans [OF o1 output_jump_exists_only [OF 2]]
  note o3 = only_nat_trans [OF o2 run_iptables_frame [OF 3]]
  note o4 = only_nat_trans [OF o3 run_iptables_frame [OF 4]]
  note o5 = only_nat_trans [OF o4 run_iptables_frame [OF 5]]
  note o6 = only_nat_trans [OF o5 bypass_rules_only [OF 6]]
  have "w' \<in> {w1, w2, w3, w4, w5, w6}"
    using assms 1 2 3 4 5 6 by (auto simp: fp_firewall_is_enabled_def Let_def split: if_splits)
  with o1 o2 o3 o4 o5 o6 show ?thesis by auto
qed

text \<open>A check that says yes is right even if the commands are only sound.\<close>

lemma check_rule_sound:
  assumes "ipt_sound os view" "run_iptables os (nat_args (''-C'' # FP_CHAIN # spec)) w = (r, w')" "length spec \<le> 25"
  shows "view (nat_tab w') = view (nat_tab w)"
    and "r = ok \<Longrightarrow> \<exists>rs. fchain (view (nat_tab w)) = Some rs \<and> spec \<in> set rs"
  using run_iptables_view [OF assms(1,2)] assms(3)
  by (auto simp: nat_step_chain split: option.splits if_splits)

lemma check_bypass_sound:
  assumes "ipt_sound os view" "bypass_rules os ''-C'' bs w = (r, w')"
  shows "view (nat_tab w') = view (nat_tab w) \<and> (r = ok \<longrightarrow> (\<forall>b \<in> set bs.
    \<exists>rs. fchain (view (nat_tab w)) = Some rs \<and> return_rule (btext b) \<in> set rs))"
  using assms(2)
proof (induction bs arbitrary: w)
  case (Cons b bs)
  obtain q w1 where 1: "run_iptables os (nat_args (''-C'' # FP_CHAIN # return_rule (btext b))) w = (q, w1)" by force
  note c = check_rule_sound [OF assms(1) 1, simplified]
  show ?case
  proof (cases "q = ok")
    case True
    with Cons.prems 1 have "bypass_rules os ''-C'' bs w1 = (r, w')" by (simp add: bypass_rule_def)
    from Cons.IH [OF this] c True show ?thesis by auto
  next
    case False
    with Cons.prems 1 c show ?thesis by (simp add: bypass_rule_def)
  qed
qed auto

text \<open>The firewall is on for a configuration: the jump, and all its rules in the chain.\<close>

definition firewall_on :: "fp_config \<Rightarrow> nat_view \<Rightarrow> bool" where
  "firewall_on config v \<longleftrightarrow> jump_rule \<in> set (foutput v)
     \<and> (\<exists>rs. fchain v = Some rs \<and> set (chain_rules config) \<subseteq> set rs)"

lemma fp_firewall_is_enabled_sound:
  assumes s: "ipt_sound os view" and "fp_firewall_is_enabled os config w = (True, w')"
  shows "firewall_on config (view (nat_tab w')) \<and> view (nat_tab w') = view (nat_tab w)"
proof -
  obtain e1 w1 where 1: "chain_exists os w = (e1, w1)" by force
  obtain e2 w2 where 2: "output_jump_exists os w1 = (e2, w2)" by force
  obtain r3 w3 where 3: "run_iptables os (nat_args (''-C'' # FP_CHAIN
      # return_rule (inet_ntop (proxy_addr config)))) w2 = (r3, w3)" by force
  obtain r4 w4 where 4: "run_iptables os (nat_args (''-C'' # FP_CHAIN # return_rule loopback_text)) w3 = (r4, w4)"
    by force
  obtain r5 w5 where 5: "run_iptables os (nat_args (''-C'' # FP_CHAIN # redirect_rule)) w4 = (r5, w5)" by force
  obtain r6 w6 where 6: "bypass_rules os ''-C'' (bypass config) w5 = (r6, w6)" by force
  have e: "e1 \<and> e2 \<and> r3 = ok \<and> r4 = ok \<and> r5 = ok \<and> r6 = ok" "w' = w6"
    using assms(2) 1 2 3 4 5 6 by (auto simp: fp_firewall_is_enabled_def Let_def split: if_splits)
  note c = chain_exists_view [OF s 1] output_jump_exists_view [OF s 2] check_rule_sound [OF s 3, simplified]
    check_rule_sound [OF s 4, simplified] check_rule_sound [OF s 5, simplified] check_bypass_sound [OF s 6]
  then show ?thesis using e by (auto simp: firewall_on_def chain_rules_def)
qed

text \<open>The table holds exactly the rules for a configuration, and the jump.\<close>

definition installed :: "fp_config \<Rightarrow> nat_view \<Rightarrow> bool" where
  "installed config v \<longleftrightarrow> fchain v = Some (chain_rules config) \<and> jump_rule \<in> set (foutput v)"

text \<open>The table holds no chain of the program and no jump to it.\<close>

definition cleared :: "nat_view \<Rightarrow> bool" where
  "cleared v \<longleftrightarrow> fchain v = None \<and> jump_rule \<notin> set (foutput v)"

lemma installed_on: "installed config v \<Longrightarrow> firewall_on config v"
  by (simp add: installed_def firewall_on_def)

lemma enable_installed:
  "ipt_sound os view \<Longrightarrow> fp_firewall_enable os config w = Some (ok, w') \<Longrightarrow> installed config (view (nat_tab w'))"
  using fp_firewall_enable_outcome [of os view config w]
  by (auto simp: install_outcome_def built_def installed_def)

lemma disable_cleared:
  "ipt_exact os view \<Longrightarrow> fp_firewall_disable os w = Some (r, w') \<Longrightarrow> r = ok \<and> cleared (view (nat_tab w'))"
  using fp_firewall_disable_exact [of os view w] by (auto simp: cleared_def)

section \<open>The packet filter as an interface\<close>

text \<open>
  What the operations rely on, if the commands can be trusted: enabling and disabling return,
  success of enabling means that exactly the configured rules are there, a check that says yes is
  right, and nothing else changes.
\<close>

locale packet_filter =
  fixes trusted :: bool
    and enable :: "'c \<Rightarrow> 'w \<Rightarrow> (int \<times> 'w) option"
    and disable :: "'w \<Rightarrow> (int \<times> 'w) option"
    and check :: "'c \<Rightarrow> 'w \<Rightarrow> bool \<times> 'w"
    and exact :: "'c \<Rightarrow> 'w \<Rightarrow> bool"
    and holds :: "'c \<Rightarrow> 'w \<Rightarrow> bool"
    and rest :: "'w \<Rightarrow> 'r"
  assumes enable_returns: "trusted \<Longrightarrow> \<exists>r w'. enable c w = Some (r, w') \<and> (r = ok \<or> r = fail)"
    and enable_exact: "trusted \<Longrightarrow> enable c w = Some (ok, w') \<Longrightarrow> exact c w'"
    and disable_returns: "trusted \<Longrightarrow> \<exists>r w'. disable w = Some (r, w') \<and> (r = ok \<or> r = fail)"
    and check_holds: "trusted \<Longrightarrow> check c w = (True, w') \<Longrightarrow> holds c w'"
    and exact_holds: "exact c w \<Longrightarrow> holds c w"
    and enable_rest: "enable c w = Some (r, w') \<Longrightarrow> rest w' = rest w"
    and disable_rest: "disable w = Some (r, w') \<Longrightarrow> rest w' = rest w"
    and check_rest: "check c w = (b, w') \<Longrightarrow> rest w' = rest w"
begin

text \<open>Asking first and enabling only if the answer is no always leads to the rules being there or to a failure.\<close>

lemma check_or_enable:
  assumes "trusted" and "check c w = (b, w1)" and "(if b then Some (ok, w1) else enable c w1) = Some (ok, w2)"
  shows "holds c w2" and "rest w2 = rest w"
  using assms check_holds enable_exact exact_holds check_rest enable_rest by (auto split: if_splits)

end

interpretation filter: packet_filter "ipt_sound os view" "fp_firewall_enable os" "fp_firewall_disable os"
  "fp_firewall_is_enabled os" "\<lambda>c w. installed c (view (nat_tab w))" "\<lambda>c w. firewall_on c (view (nat_tab w))"
  "\<lambda>w. (files w, dirs w, procs w, signals w)" for os view
proof unfold_locales
  fix c w w' r b
  show "ipt_sound os view \<Longrightarrow> \<exists>r w'. fp_firewall_enable os c w = Some (r, w') \<and> (r = ok \<or> r = fail)"
    using fp_firewall_enable_outcome [of os view c w] by (auto simp: install_outcome_def)
  show "ipt_sound os view \<Longrightarrow> \<exists>r w'. fp_firewall_disable os w = Some (r, w') \<and> (r = ok \<or> r = fail)"
    using fp_firewall_disable_total [of os view w] by auto
  show "ipt_sound os view \<Longrightarrow> fp_firewall_enable os c w = Some (ok, w') \<Longrightarrow> installed c (view (nat_tab w'))"
    by (rule enable_installed)
  show "ipt_sound os view \<Longrightarrow> fp_firewall_is_enabled os c w = (True, w') \<Longrightarrow> firewall_on c (view (nat_tab w'))"
    using fp_firewall_is_enabled_sound by blast
  show "installed c (view (nat_tab w)) \<Longrightarrow> firewall_on c (view (nat_tab w))"
    by (rule installed_on)
  show "fp_firewall_enable os c w = Some (r, w') \<Longrightarrow> (files w', dirs w', procs w', signals w') = (files w, dirs w, procs w, signals w)"
    by (drule fp_firewall_enable_only) (simp add: only_nat_def same_files_def)
  show "fp_firewall_disable os w = Some (r, w') \<Longrightarrow> (files w', dirs w', procs w', signals w') = (files w, dirs w, procs w, signals w)"
    by (drule fp_firewall_disable_only) (simp add: only_nat_def same_files_def)
  show "fp_firewall_is_enabled os c w = (b, w') \<Longrightarrow> (files w', dirs w', procs w', signals w') = (files w, dirs w, procs w, signals w)"
    by (drule fp_firewall_is_enabled_only) (simp add: only_nat_def same_files_def)
qed

section \<open>Properties\<close>

text \<open>
  C15: If \<open>fp_firewall_enable\<close> reports success then, whatever failures of \<open>fork\<close>,
  \<open>waitpid\<close> or the commands it met, the chain holds exactly the rules for the configuration in
  their order, \<open>OUTPUT\<close> jumps to it, the other rules of \<open>OUTPUT\<close> and everything outside the
  packet filter are as before.
\<close>

theorem firewall_enable_installs:
  assumes "ipt_sound os view" and "fp_firewall_enable os config w = Some (ok, w')"
  shows "fchain (view (nat_tab w')) = Some (chain_rules config)
    \<and> jump_rule \<in> set (foutput (view (nat_tab w')))
    \<and> other_rules (view (nat_tab w')) = other_rules (view (nat_tab w)) \<and> only_nat w w'"
  using fp_firewall_enable_outcome [OF assms(1), of config w] assms(2)
  by (auto simp: install_outcome_def built_def intro: nat_path_only)

definition no_rules :: nat_view where
  "no_rules = \<lparr>fchain = None, foutput = [[''-j'', ''DOCKER'']]\<rparr>"

definition reference_os :: "nat_view os" where
  "reference_os = quiet_os reference_ipt"

lemma reference_os_exact: "ipt_exact reference_os (\<lambda>v. v)"
  by (simp add: reference_os_def reference_ipt_exact)

theorem firewall_enable_installs_witness:
  "\<exists>w'. fp_firewall_enable reference_os sample_config (empty_world no_rules) = Some (ok, w')
     \<and> fchain (nat_tab w') = Some (chain_rules sample_config)
     \<and> jump_rule \<in> set (foutput (nat_tab w'))"
proof -
  obtain w' where w: "fp_firewall_enable reference_os sample_config (empty_world no_rules) = Some (ok, w')"
    using fp_firewall_enable_exact [OF reference_os_exact] by blast
  from firewall_enable_installs [OF exact_sound [OF reference_os_exact] w] w show ?thesis by auto
qed

text \<open>
  C16: With the rules for a well-formed configuration in place, a TCP connection is sent to the
  local port 12345 if and only if its destination is none of: the upstream proxy, a loopback
  address, an address of the direct list.
\<close>

theorem firewall_redirects_exactly:
  assumes "wf_config config"
  shows "chain_verdict (chain_rules config) dst
    = (if dst = proxy_addr config \<or> in_network (ip_of_octets 127 0 0 0) 8 dst
          \<or> bypassed (bypass config) dst
       then Untouched else Redirected 12345)"
  using chain_rules_verdict [OF assms, of dst] by (simp add: exempt_def FP_LISTEN_PORT_def)

theorem firewall_redirects_exactly_witness:
  "chain_verdict (chain_rules sample_config) (proxy_addr sample_config) = Untouched"
  by (simp add: firewall_redirects_exactly [OF sample_config_wf])

section \<open>The old rules, then the new ones\<close>

text \<open>
  A connection to \<open>dst\<close> is sent to the port by the chain; it is redirected if \<open>OUTPUT\<close> also jumps there.
\<close>

definition chain_sends :: "nat_view \<Rightarrow> ip \<Rightarrow> bool" where
  "chain_sends v dst \<longleftrightarrow> (case fchain v of None \<Rightarrow> False | Some rs \<Rightarrow> chain_verdict rs dst \<noteq> Untouched)"

definition redirected :: "nat_view \<Rightarrow> ip \<Rightarrow> bool" where
  "redirected v dst \<longleftrightarrow> jump_rule \<in> set (foutput v) \<and> chain_sends v dst"

text \<open>
  A table that still holds the old chain, with no jump more than before; and one whose chain, if there is
  one, is a beginning of the new rules.
\<close>

definition stale :: "nat_view \<Rightarrow> nat_view \<Rightarrow> bool" where
  "stale v0 v \<longleftrightarrow> fchain v = fchain v0 \<and> (jump_rule \<in> set (foutput v) \<longrightarrow> jump_rule \<in> set (foutput v0))"

definition fresh :: "fp_config \<Rightarrow> nat_view \<Rightarrow> bool" where
  "fresh config v \<longleftrightarrow> (case fchain v of None \<Rightarrow> True | Some rs \<Rightarrow> Sublist.prefix rs (chain_rules config))"

text \<open>Stale states first, fresh ones from some point on.\<close>

definition phases :: "('k \<Rightarrow> nat_view) \<Rightarrow> fp_config \<Rightarrow> 'k world \<Rightarrow> 'k world \<Rightarrow> bool" where
  "phases view config w w' \<longleftrightarrow>
     (let old = stale (view (nat_tab w)) in
      (nat_path view old w w' \<and> old (view (nat_tab w')))
      \<or> (\<exists>m. nat_path view old w m \<and> nat_path view (fresh config) m w' \<and> fresh config (view (nat_tab w'))))"

lemma phases_refl: "phases view config w w"
  by (simp add: phases_def stale_def)

lemma phases_step:
  assumes p: "phases view config w w1" and r: "run_iptables os args w1 = (r, w2)"
    and o: "stale (view (nat_tab w)) (view (nat_tab w1)) \<Longrightarrow>
      stale (view (nat_tab w)) (view (nat_tab w2)) \<or> fresh config (view (nat_tab w2))"
    and f: "fresh config (view (nat_tab w1)) \<Longrightarrow> fresh config (view (nat_tab w2))"
  shows "phases view config w w2"
proof -
  note path = run_iptables_path [OF r, where view = view]
  from p consider (old) "nat_path view (stale (view (nat_tab w))) w w1" "stale (view (nat_tab w)) (view (nat_tab w1))"
    | (new) m where "nat_path view (stale (view (nat_tab w))) w m" "nat_path view (fresh config) m w1"
      "fresh config (view (nat_tab w1))"
    by (auto simp: phases_def Let_def)
  then show ?thesis
  proof cases
    case old
    from o [OF old(2)] show ?thesis
    proof
      assume "stale (view (nat_tab w)) (view (nat_tab w2))"
      with nat_path_trans [OF old(1) path] show ?thesis by (auto simp: phases_def Let_def)
    next
      assume n: "fresh config (view (nat_tab w2))"
      with path have "nat_path view (fresh config) w1 w2" by simp
      with old(1) n show ?thesis by (auto simp: phases_def Let_def)
    qed
  next
    case new
    with f path nat_path_trans [OF new(2)] show ?thesis by (auto simp: phases_def Let_def)
  qed
qed

text \<open>The commands that ask, create, flush or delete keep to this order in any state.\<close>

lemma phases_commands:
  assumes s: "ipt_sound os view" and p: "phases view config w w1"
  shows "chain_exists os w1 = (e, w2) \<Longrightarrow> phases view config w w2"
    and "output_jump_exists os w1 = (e, w2) \<Longrightarrow> phases view config w w2"
    and "run_iptables os (nat_args (''-C'' # ''OUTPUT'' # jump_rule)) w1 = (r, w2) \<Longrightarrow> phases view config w w2"
    and "run_iptables os (nat_args (''-D'' # ''OUTPUT'' # jump_rule)) w1 = (r, w2) \<Longrightarrow> phases view config w w2"
    and "run_iptables os (nat_args [''-N'', FP_CHAIN]) w1 = (r, w2) \<Longrightarrow> phases view config w w2"
    and "run_iptables os (nat_args [''-F'', FP_CHAIN]) w1 = (r, w2) \<Longrightarrow> phases view config w w2"
    and "run_iptables os (nat_args [''-X'', FP_CHAIN]) w1 = (r, w2) \<Longrightarrow> phases view config w w2"
proof -
  have quiet: "phases view config w w2" if "run_iptables os args w1 = (r, w2)" "view (nat_tab w2) = view (nat_tab w1)" for args r
    using that by (intro phases_step [OF p that(1)]) simp_all
  show "chain_exists os w1 = (e, w2) \<Longrightarrow> phases view config w w2"
    by (erule chain_exists_run) (metis quiet chain_exists_view(1) [OF s] chain_exists_def case_prod_conv)
  show "output_jump_exists os w1 = (e, w2) \<Longrightarrow> phases view config w w2"
    by (erule output_jump_exists_run) (metis quiet output_jump_exists_view(1) [OF s] output_jump_exists_def case_prod_conv)
  show "phases view config w w2" if r: "run_iptables os (nat_args (''-C'' # ''OUTPUT'' # jump_rule)) w1 = (r, w2)"
    by (rule quiet [OF r]) (use run_iptables_view(3) [OF s r] in \<open>auto simp: nat_step_simps split: if_splits\<close>)
  show "phases view config w w2" if r: "run_iptables os (nat_args (''-D'' # ''OUTPUT'' # jump_rule)) w1 = (r, w2)"
    using run_iptables_view(3) [OF s r]
    by (intro phases_step [OF p r])
      (auto simp: nat_step_simps stale_def fresh_def dest: notin_set_remove1 split: if_splits)
  show "phases view config w w2" if r: "run_iptables os (nat_args [''-N'', FP_CHAIN]) w1 = (r, w2)"
    using run_iptables_view(3) [OF s r]
    by (intro phases_step [OF p r]) (auto simp: nat_step_simps stale_def fresh_def split: if_splits)
  show "phases view config w w2" if r: "run_iptables os (nat_args [''-F'', FP_CHAIN]) w1 = (r, w2)"
    using run_iptables_view(3) [OF s r]
    by (intro phases_step [OF p r]) (auto simp: nat_step_simps stale_def fresh_def split: if_splits)
  show "phases view config w w2" if r: "run_iptables os (nat_args [''-X'', FP_CHAIN]) w1 = (r, w2)"
    using run_iptables_view(3) [OF s r]
    by (intro phases_step [OF p r]) (auto simp: nat_step_simps stale_def fresh_def split: if_splits)
qed

lemma remove_jumps_phases:
  assumes s: "ipt_sound os view" and "phases view config w w1" and "remove_jumps os w1 = Some (r, w2)"
  shows "phases view config w w2"
  using assms(2,3)
proof (induction "length (foutput (view (nat_tab w1)))" arbitrary: w1 rule: less_induct)
  case less
  obtain e wa where a: "output_jump_exists os w1 = (e, wa)" by force
  obtain q wb where b: "run_iptables os (nat_args (''-D'' # ''OUTPUT'' # jump_rule)) wa = (q, wb)" by force
  note pa = phases_commands(2) [OF s less.prems(1) a]
  note pb = phases_commands(4) [OF s pa b]
  have "q = ok \<Longrightarrow> length (foutput (view (nat_tab wb))) < length (foutput (view (nat_tab w1)))"
    using delete_jump_run(3) [OF s b] output_jump_exists_view(1) [OF s a] by simp
  with less.hyps [OF _ pb] less.prems(2) a b pa pb show ?case
    by (subst (asm) remove_jumps.simps) (auto split: if_splits)
qed

lemma fp_firewall_disable_phases:
  assumes s: "ipt_sound os view" and p: "phases view config w w1" and "fp_firewall_disable os w1 = Some (r, w')"
  shows "phases view config w w'"
proof -
  obtain ra wa where a: "remove_jumps os w1 = Some (ra, wa)" using remove_jumps_total [OF s, of w1] by blast
  obtain e wb where b: "chain_exists os wa = (e, wb)" by force
  obtain rc wc where c: "run_iptables os (nat_args [''-F'', FP_CHAIN]) wb = (rc, wc)" by force
  obtain rd wd where d: "run_iptables os (nat_args [''-X'', FP_CHAIN]) wc = (rd, wd)" by force
  note pa = remove_jumps_phases [OF s p a]
  note pb = phases_commands(1) [OF s pa b]
  note pc = phases_commands(6) [OF s pb c]
  note pd = phases_commands(7) [OF s pc d]
  from assms(3) a b c d have "w' \<in> {wa, wb, wc, wd}"
    by (auto simp: fp_firewall_disable_def Let_def split: if_splits)
  with pa pb pc pd show ?thesis by auto
qed

lemma append_rule_phases:
  assumes s: "ipt_sound os view" and p: "phases view config w w1"
    and r: "run_iptables os (nat_args (''-A'' # FP_CHAIN # spec)) w1 = (r, w2)"
    and b: "built v0 rs (view (nat_tab w1))" "Sublist.prefix (rs @ [spec]) (chain_rules config)" "length spec \<le> 25"
  shows "phases view config w w2"
proof -
  have "fchain (view (nat_tab w2)) \<in> {Some rs, Some (rs @ [spec])}"
    using run_iptables_view(3) [OF s r] b(1,3) by (auto simp: built_def nat_step_chain)
  then have "fresh config (view (nat_tab w2))" using b(2) append_prefixD [OF b(2)] by (auto simp: fresh_def)
  then show ?thesis by (intro phases_step [OF p r]) simp_all
qed

lemma bypass_rules_phases:
  assumes s: "ipt_sound os view" and "phases view config w w1" and "bypass_rules os ''-A'' bs w1 = (r, w2)"
    and "built v0 rs (view (nat_tab w1))"
    and "Sublist.prefix (rs @ map (\<lambda>b. return_rule (btext b)) bs) (chain_rules config)"
  shows "phases view config w w2"
  using assms(2-5)
proof (induction bs arbitrary: w1 rs)
  case (Cons b bs)
  obtain ra wa where a: "run_iptables os (nat_args (''-A'' # FP_CHAIN # return_rule (btext b))) w1 = (ra, wa)"
    by force
  from Cons.prems(4) have p: "Sublist.prefix ((rs @ [return_rule (btext b)])
      @ map (\<lambda>b. return_rule (btext b)) bs) (chain_rules config)" by simp
  note pa = append_rule_phases [OF s Cons.prems(1) a Cons.prems(3) append_prefixD [OF p]]
  note va = append_rule_run(3) [OF s a Cons.prems(3) append_prefixD [OF p]]
  show ?case
    using Cons.prems(2) Cons.IH [OF _ _ _ p, of wa] a va pa by (auto simp: bypass_rule_def split: if_splits)
qed auto

lemma install_jump_phases:
  assumes s: "ipt_sound os view" and p: "phases view config w w1" and "install_jump os w1 = (r, w2)"
    and b: "built v0 (chain_rules config) (view (nat_tab w1))"
  shows "phases view config w w2"
proof -
  obtain ra wa where a: "run_iptables os (nat_args (''-C'' # ''OUTPUT'' # jump_rule)) w1 = (ra, wa)" by force
  obtain rb wb where i: "run_iptables os (nat_args (''-I'' # ''OUTPUT'' # ''1'' # jump_rule)) wa = (rb, wb)" by force
  note pa = phases_commands(3) [OF s p a]
  have "view (nat_tab wa) = view (nat_tab w1)"
    using run_iptables_view(3) [OF s a] by (auto simp: nat_step_simps split: if_splits)
  then have "fresh config (view (nat_tab wb))"
    using run_iptables_view(3) [OF s i] b by (auto simp: built_def fresh_def nat_step_simps split: if_splits)
  then have "phases view config w wb" by (intro phases_step [OF pa i]) simp_all
  with pa assms(3) a i show ?thesis by (auto simp: install_jump_def split: if_splits)
qed

lemma install_rules_phases:
  assumes s: "ipt_sound os view" and p: "phases view config w x" and "install_rules os config x = (r, w')"
  shows "phases view config w w'"
proof -
  let ?pr = "return_rule (inet_ntop (proxy_addr config))" and ?lr = "return_rule loopback_text"
  let ?brs = "map (\<lambda>b. return_rule (btext b)) (bypass config)"
  let ?v = "view (nat_tab x)"
  obtain r1 w1 where 1: "run_iptables os (nat_args [''-F'', FP_CHAIN]) x = (r1, w1)" by force
  obtain r2 w2 where 2: "run_iptables os (nat_args (''-A'' # FP_CHAIN # ?pr)) w1 = (r2, w2)" by force
  obtain r3 w3 where 3: "run_iptables os (nat_args (''-A'' # FP_CHAIN # ?lr)) w2 = (r3, w3)" by force
  obtain r4 w4 where 4: "bypass_rules os ''-A'' (bypass config) w3 = (r4, w4)" by force
  obtain r5 w5 where 5: "run_iptables os (nat_args (''-A'' # FP_CHAIN # redirect_rule)) w4 = (r5, w5)" by force
  have c: "(?pr # ?lr # ?brs) @ [redirect_rule] = chain_rules config" by (simp add: chain_rules_def)
  note p1 = phases_commands(6) [OF s p 1]
  have v1: "r1 = ok \<Longrightarrow> built ?v [] (view (nat_tab w1))" using flush_chain_run(2) [OF s 1] installing_refl by blast
  note p2 = append_rule_phases [OF s p1 2 v1, simplified, OF _ prefix_chain_rules(1)]
  note v2 = append_rule_run(3) [OF s 2 v1, where config = config, simplified, OF _ prefix_chain_rules(1)]
  note p3 = append_rule_phases [OF s p2 3 v2, simplified, OF _ _ prefix_chain_rules(2)]
  note v3 = append_rule_run(3) [OF s 3 v2, where config = config, simplified, OF _ _ prefix_chain_rules(2)]
  have p4: "phases view config w w4" if "r1 = ok" "r2 = ok" "r3 = ok"
    by (rule bypass_rules_phases [OF s p3 4 v3]) (use that prefix_chain_rules(3) in auto)
  have v4: "built ?v (?pr # ?lr # ?brs) (view (nat_tab w4))" if "r1 = ok" "r2 = ok" "r3 = ok" "r4 = ok"
    using bypass_rules_run [OF s 4 v3, where config = config] prefix_chain_rules(3) [of config] that by simp
  have p5: "phases view config w w5" if "r1 = ok" "r2 = ok" "r3 = ok" "r4 = ok"
    by (rule append_rule_phases [OF s p4 5 v4]) (use that c in auto)
  have v5: "built ?v (chain_rules config) (view (nat_tab w5))" if "r1 = ok" "r2 = ok" "r3 = ok" "r4 = ok" "r5 = ok"
    using append_rule_run(3) [OF s 5 v4, where config = config] that c by simp
  show ?thesis
    using assms(3) 1 2 3 4 5 p1 p2 p3 p4 p5 install_jump_phases [OF s p5 _ v5]
    by (auto simp: install_rules_def Let_def split: if_splits)
qed

lemma fp_firewall_enable_phases:
  assumes s: "ipt_sound os view" and "fp_firewall_enable os config w = Some (r, w')"
  shows "phases view config w w'"
proof -
  obtain e w1 where 1: "chain_exists os w = (e, w1)" by force
  obtain r2 w2 where 2: "(if e then (ok, w1) else run_iptables os (nat_args [''-N'', FP_CHAIN]) w1) = (r2, w2)" by force
  obtain r3 w3 where 3: "install_rules os config w2 = (r3, w3)" by force
  note p1 = phases_commands(1) [OF s phases_refl 1]
  have p2: "phases view config w w2" using 2 p1 phases_commands(5) [OF s p1] by (auto split: if_splits)
  note p3 = install_rules_phases [OF s p2 3]
  show ?thesis
    using assms(2) 1 2 3 p2 p3 fp_firewall_disable_phases [OF s p3]
    by (auto simp: fp_firewall_enable_rules disable_and_fail_def Let_def split: if_splits Option.bind_splits)
qed

lemma fresh_harmless: "wf_config config \<Longrightarrow> exempt config dst \<Longrightarrow> fresh config v \<Longrightarrow> \<not> chain_sends v dst"
  using chain_rules_prefix_verdict by (auto simp: fresh_def chain_sends_def split: option.splits)

lemma stale_harmless: "stale v0 v \<Longrightarrow> redirected v dst \<Longrightarrow> redirected v0 dst"
  by (auto simp: stale_def redirected_def chain_sends_def)

text \<open>
  C17: \<open>fp_firewall_enable\<close> never newly redirects an exempt destination. The states the table goes through
  fall into two parts. In the first the chain is still the old one, and an exempt destination is redirected only if it
  was before the call. In the second, from the flush on, the chain never sends it to the port, however far the new rules have
  got: the redirecting rule comes last. After a success it is not redirected; after a failure only if
  it was before and no new state was reached, because the old chain could not be flushed.
\<close>

theorem firewall_never_redirects_exempt:
  assumes "ipt_sound os view" and "wf_config config" and "exempt config dst"
    and "fp_firewall_enable os config w = Some (r, w')"
  shows "\<exists>before after. nat_log w' = nat_log w @ before @ after
    \<and> list_all (\<lambda>k. fchain (view k) = fchain (view (nat_tab w))
         \<and> (redirected (view k) dst \<longrightarrow> redirected (view (nat_tab w)) dst)) before
    \<and> list_all (\<lambda>k. \<not> chain_sends (view k) dst) after
    \<and> (redirected (view (nat_tab w')) dst \<longrightarrow> r = fail \<and> after = [] \<and> redirected (view (nat_tab w)) dst)"
proof -
  let ?old = "stale (view (nat_tab w))"
  have o: "list_all (\<lambda>k. fchain (view k) = fchain (view (nat_tab w))
      \<and> (redirected (view k) dst \<longrightarrow> redirected (view (nat_tab w)) dst)) ks" if "\<forall>k \<in> set ks. ?old (view k)" for ks
    using that stale_harmless by (auto simp: list_all_iff stale_def)
  have f: "list_all (\<lambda>k. \<not> chain_sends (view k) dst) ks" if "\<forall>k \<in> set ks. fresh config (view k)" for ks
    using that fresh_harmless [OF assms(2,3)] by (auto simp: list_all_iff)
  have r: "r = ok \<or> r = fail" "r = ok \<Longrightarrow> fresh config (view (nat_tab w'))"
    using fp_firewall_enable_outcome [OF assms(1), of config w] assms(4)
    by (auto simp: install_outcome_def built_def fresh_def)
  from fp_firewall_enable_phases [OF assms(1,4)] consider
      (old) "nat_path view ?old w w'" "?old (view (nat_tab w'))"
    | (new) m where "nat_path view ?old w m" "nat_path view (fresh config) m w'" "fresh config (view (nat_tab w'))"
    by (auto simp: phases_def Let_def)
  then show ?thesis
  proof cases
    case old
    then obtain ks where ks: "nat_log w' = nat_log w @ ks" "\<forall>k \<in> set ks. ?old (view k)" by (auto simp: nat_path_def)
    have "redirected (view (nat_tab w')) dst \<longrightarrow> r = fail \<and> redirected (view (nat_tab w)) dst"
      using stale_harmless [OF old(2)] r fresh_harmless [OF assms(2,3)] by (auto simp: redirected_def)
    with ks o [OF ks(2)] show ?thesis by (intro exI [of _ ks] exI [of _ "[]"]) auto
  next
    case new
    then obtain ks js where ks: "nat_log m = nat_log w @ ks" "\<forall>k \<in> set ks. ?old (view k)"
      and js: "nat_log w' = nat_log m @ js" "\<forall>k \<in> set js. fresh config (view k)" by (auto simp: nat_path_def)
    have "\<not> redirected (view (nat_tab w')) dst" using fresh_harmless [OF assms(2,3) new(3)] by (simp add: redirected_def)
    with ks(1) js(1) o [OF ks(2)] f [OF js(2)] show ?thesis by (intro exI [of _ ks] exI [of _ js]) auto
  qed
qed

definition after_enable :: "nat_view world" where
  "after_enable = snd (the (fp_firewall_enable reference_os sample_config (empty_world no_rules)))"

lemma after_enable: "fp_firewall_enable reference_os sample_config (empty_world no_rules) = Some (ok, after_enable)"
  using fp_firewall_enable_exact [OF reference_os_exact, of sample_config "empty_world no_rules"]
  by (auto simp: after_enable_def)

lemma after_enable_view:
  "fchain (nat_tab after_enable) = Some (chain_rules sample_config)"
  "jump_rule \<in> set (foutput (nat_tab after_enable))"
  using fp_firewall_enable_outcome [OF exact_sound [OF reference_os_exact], of sample_config "empty_world no_rules"]
  by (auto simp: after_enable install_outcome_def built_def)

text \<open>A table with a chain that redirects everything: enabling takes the exempt destination out.\<close>

definition stale_table :: nat_view where
  "stale_table = \<lparr>fchain = Some [redirect_rule], foutput = [jump_rule]\<rparr>"

theorem firewall_never_redirects_exempt_witness:
  "redirected stale_table (ip_of_octets 192 168 3 2)
    \<and> (\<exists>w'. fp_firewall_enable reference_os sample_config (empty_world stale_table) = Some (ok, w')
         \<and> \<not> redirected (nat_tab w') (ip_of_octets 192 168 3 2))"
proof -
  have "exempt sample_config (ip_of_octets 192 168 3 2)"
    by (simp add: exempt_def sample_config_def)
  moreover obtain w' where w': "fp_firewall_enable reference_os sample_config (empty_world stale_table) = Some (ok, w')"
    using fp_firewall_enable_exact [OF reference_os_exact, of sample_config "empty_world stale_table"] by auto
  ultimately have "\<not> redirected (nat_tab w') (ip_of_octets 192 168 3 2)"
    using firewall_never_redirects_exempt [OF exact_sound [OF reference_os_exact] sample_config_wf _ w'] by auto
  moreover have "redirected stale_table (ip_of_octets 192 168 3 2)"
    by (simp add: redirected_def chain_sends_def stale_table_def rule_verdict_redirect)
  ultimately show ?thesis using w' by blast
qed

text \<open>
  Enabling and disabling always return, with 0 or -1, as long as a deletion that reports
  success deletes: the loop that removes the jumps cannot spin.
\<close>

theorem firewall_terminates:
  assumes "ipt_sound os view"
  shows "(\<exists>r w'. fp_firewall_disable os w = Some (r, w') \<and> r \<in> {ok, fail})
    \<and> (\<exists>r w'. fp_firewall_enable os config w = Some (r, w') \<and> r \<in> {ok, fail})"
  using fp_firewall_disable_total [OF assms, of w] fp_firewall_enable_outcome [OF assms, of config w]
  by (auto simp: install_outcome_def)

theorem firewall_terminates_witness:
  "\<exists>r w'. fp_firewall_disable reference_os (empty_world no_rules) = Some (r, w') \<and> r \<in> {ok, fail}"
  by (rule firewall_terminates [OF exact_sound [OF reference_os_exact], THEN conjunct1])

text \<open>
  When the commands work, disabling succeeds from any state: the chain is gone, no jump to it
  is left however many there were, and the other rules of \<open>OUTPUT\<close> are untouched.
\<close>

theorem firewall_disable_removes:
  assumes "ipt_exact os view"
  shows "\<exists>w'. fp_firewall_disable os w = Some (ok, w') \<and> fchain (view (nat_tab w')) = None
    \<and> foutput (view (nat_tab w')) = filter (\<lambda>r. r \<noteq> jump_rule) (foutput (view (nat_tab w)))"
proof -
  obtain w' where d: "fp_firewall_disable os w = Some (ok, w')" "fchain (view (nat_tab w')) = None"
    "jump_rule \<notin> set (foutput (view (nat_tab w')))"
    using fp_firewall_disable_exact [OF assms] by blast
  have "other_rules (view (nat_tab w')) = other_rules (view (nat_tab w))"
    using fp_firewall_disable_total [OF exact_sound [OF assms], of w] d by (auto simp: shrinks_def)
  moreover have "other_rules (view (nat_tab w')) = foutput (view (nat_tab w'))"
    using d(3) by (auto simp: other_rules_def filter_id_conv)
  ultimately show ?thesis using d by (auto simp: other_rules_def)
qed

theorem firewall_disable_removes_witness:
  "\<exists>w'. fp_firewall_disable reference_os after_enable = Some (ok, w') \<and> fchain (nat_tab w') = None"
  using firewall_disable_removes [OF reference_os_exact, of after_enable] by auto

text \<open>
  When the commands work, \<open>fp_firewall_is_enabled\<close> answers yes exactly if \<open>OUTPUT\<close> jumps to
  the chain and every rule for the configuration is in it (in any order, other rules allowed).
\<close>

theorem firewall_is_enabled_iff:
  assumes "ipt_exact os view"
  shows "fst (fp_firewall_is_enabled os config w) \<longleftrightarrow>
    jump_rule \<in> set (foutput (view (nat_tab w)))
    \<and> (\<exists>rs. fchain (view (nat_tab w)) = Some rs \<and> set (chain_rules config) \<subseteq> set rs)"
  by (rule fp_firewall_is_enabled_exact [OF assms, where w' = "snd (fp_firewall_is_enabled os config w)"]) simp

theorem firewall_is_enabled_iff_witness:
  "fst (fp_firewall_is_enabled reference_os sample_config after_enable)"
  using firewall_is_enabled_iff [OF reference_os_exact, of sample_config after_enable] after_enable_view
  by simp

text \<open>
  C18: If no process can be started (\<open>fork\<close> fails), \<open>fp_firewall_disable\<close> reports success and
  leaves the table as it is: a question it could not ask counts as the answer "not there".
\<close>

theorem firewall_disable_blind:
  assumes "spawn_faults os = (\<lambda>_. True)"
  shows "\<exists>w'. fp_firewall_disable os w = Some (ok, w') \<and> nat_tab w' = nat_tab w"
  by (rule fp_firewall_disable_no_fork [OF assms])

theorem firewall_disable_blind_witness:
  "\<exists>w'. fp_firewall_disable (reference_os\<lparr>spawn_faults := \<lambda>_. True\<rparr>) after_enable = Some (ok, w')
     \<and> fchain (nat_tab w') = Some (chain_rules sample_config)"
  using firewall_disable_blind [of "reference_os\<lparr>spawn_faults := \<lambda>_. True\<rparr>" after_enable] after_enable_view
  by auto

end
