(* ===== verification/Process.thy ===== *)
theory Process
  imports Config
begin

text \<open>
  Finding and stopping the daemon (\<open>src/process.c\<close>): the process record in
  \<open>/run/free_proxy/free_proxy.pid\<close>, the identification of a process from \<open>/proc\<close>, and the
  signals. Starting it is in \<open>Daemon\<close>.
\<close>

definition FP_RUNTIME_DIR :: string where "FP_RUNTIME_DIR = ''/run/free_proxy''"
definition FP_PID_PATH :: string where "FP_PID_PATH = FP_RUNTIME_DIR @ ''/free_proxy.pid''"
definition FP_LOCK_PATH :: string where "FP_LOCK_PATH = FP_RUNTIME_DIR @ ''/lock''"
definition FP_STATS_PATH :: string where "FP_STATS_PATH = FP_RUNTIME_DIR @ ''/stats''"
definition FP_STOP_TIMEOUT_MS :: nat where "FP_STOP_TIMEOUT_MS = 5000"
definition SIGTERM :: nat where "SIGTERM = 15"
definition SIGKILL :: nat where "SIGKILL = 9"

section \<open>Scanning\<close>

text \<open>
  \<open>%ld\<close>, \<open>%llu\<close>, \<open>%u\<close> and \<open>%15s\<close> of \<open>fscanf\<close>: white space is skipped, then at least one digit
  (after an optional sign), respectively one other character, must follow. The unsigned
  conversions read like \<open>strtoull\<close>, which negates modulo \<open>2^64\<close> and saturates, and keep the low
  bits.
\<close>

definition scan_ld :: "string \<Rightarrow> (int \<times> string) option" where
  "scan_ld s = (case strtol s of (v, rest, _) \<Rightarrow>
     (let t = snd (strip_sign (dropWhile is_space s)) in
      if takeWhile is_digit t = [] then None else Some (v, rest)))"

definition strtoull :: "string \<Rightarrow> nat \<times> string \<times> bool" where
  "strtoull s =
     (let (neg, t) = strip_sign (dropWhile is_space s);
          ds = takeWhile is_digit t; rest = dropWhile is_digit t; v = dval ds
      in if ds = [] then (0, s, False)
         else if v \<ge> 2 ^ 64 then (2 ^ 64 - 1, rest, True)
         else ((if neg then (2 ^ 64 - v) mod 2 ^ 64 else v), rest, False))"

definition scan_unsigned :: "nat \<Rightarrow> string \<Rightarrow> (nat \<times> string) option" where
  "scan_unsigned bits s = (case strtoull s of (v, rest, _) \<Rightarrow>
     (let t = snd (strip_sign (dropWhile is_space s)) in
      if takeWhile is_digit t = [] then None else Some (v mod 2 ^ bits, rest)))"

definition scan_word :: "nat \<Rightarrow> string \<Rightarrow> (string \<times> string) option" where
  "scan_word n s =
     (let t = dropWhile is_space s; v = take n (takeWhile (\<lambda>c. \<not> is_space c) t) in
      if v = [] then None else Some (v, drop (length v) t))"

text \<open>Conversion of a \<open>long\<close> to the 32-bit \<open>pid_t\<close>.\<close>

definition to_pid_t :: "int \<Rightarrow> int" where
  "to_pid_t v = sint (word_of_int v :: 32 word)"

section \<open>The process record\<close>

record process_record =
  rec_pid :: int
  rec_start :: nat
  rec_addr :: ip
  rec_port :: port

definition parse_record :: "string \<Rightarrow> process_record option" where
  "parse_record text = do {
     (pid, rest) \<leftarrow> scan_ld text;
     (start, rest) \<leftarrow> scan_unsigned 64 rest;
     (address, rest) \<leftarrow> scan_word 15 rest;
     (port, rest) \<leftarrow> scan_unsigned 32 rest;
     if pid \<le> 1 \<or> port > 65535 then None
     else do {
       addr \<leftarrow> inet_pton address;
       Some \<lparr>rec_pid = to_pid_t pid, rec_start = start, rec_addr = addr, rec_port = word_of_nat port\<rparr>
     }
   }"

definition read_process_record :: "'k os \<Rightarrow> 'k world \<Rightarrow> process_record option \<times> 'k world" where
  "read_process_record os w =
     (case sys_open_read os FP_PID_PATH w of
        (None, w) \<Rightarrow> (None, w)
      | (Some text, w) \<Rightarrow> (parse_record text, w))"

definition fp_read_pid :: "'k os \<Rightarrow> 'k world \<Rightarrow> int \<times> 'k world" where
  "fp_read_pid os w =
     (case read_process_record os w of
        (None, w) \<Rightarrow> (-1, w)
      | (Some r, w) \<Rightarrow> (rec_pid r, w))"

definition ensure_runtime_dir :: "'k os \<Rightarrow> 'k world \<Rightarrow> int \<times> 'k world" where
  "ensure_runtime_dir os w =
     (case sys_mkdir os FP_RUNTIME_DIR w of
        (e, w) \<Rightarrow> (if e \<noteq> None \<and> e \<noteq> Some EEXIST then fail else ok, w))"

section \<open>Identifying a process\<close>

text \<open>Field 22 of \<open>/proc/PID/stat\<close>, counted from the parenthesis that ends the command name.\<close>

definition parse_start_time :: "string \<Rightarrow> nat option" where
  "parse_start_time stat =
     (case fgets 1024 stat of
        None \<Rightarrow> None
      | Some (line, _) \<Rightarrow>
          (case strrchr_split CHR '')'' (cstr line) of
             None \<Rightarrow> None
           | Some (_, cursor) \<Rightarrow>
               if cursor = [] \<or> hd cursor \<noteq> CHR '' '' then None
               else
                 let tokens = filter (\<lambda>t. t \<noteq> []) (split_on CHR '' '' (tl cursor)) in
                 if length tokens < 20 then None
                 else (case strtoull (tokens ! 19) of (v, end, erange) \<Rightarrow>
                   if erange \<or> end = tokens ! 19 then None else Some v)))"

definition process_start_time :: "'k os \<Rightarrow> int \<Rightarrow> 'k world \<Rightarrow> nat option \<times> 'k world" where
  "process_start_time os pid w =
     (case sys_proc os pid w of
        (None, w) \<Rightarrow> (None, w)
      | (Some p, w) \<Rightarrow> (parse_start_time (p_stat p), w))"

definition exe_is_free_proxy :: "string \<Rightarrow> bool" where
  "exe_is_free_proxy target =
     (let binary_name = (case strrchr_split CHR ''/'' target of None \<Rightarrow> target | Some (_, b) \<Rightarrow> b) in
      binary_name = ''free_proxy'' \<or> binary_name = ''free_proxy (deleted)'')"

text \<open>
  The first 255 bytes of the command line; the buffer is not terminated, so a comparison that
  runs past them sees what the stack holds (\<open>rubbish\<close>).
\<close>

definition command_is_run :: "string \<Rightarrow> string \<Rightarrow> bool" where
  "command_is_run rubbish cmdline =
     (let command = take 255 cmdline; first = length (cstr command) in
      if command = [] \<or> first + 1 \<ge> length command then False
      else cstr (drop (first + 1) command @ rubbish @ [CHR 0x00]) = ''run'')"

definition cmdline_is_run :: "'k os \<Rightarrow> int \<Rightarrow> 'k world \<Rightarrow> bool \<times> 'k world" where
  "cmdline_is_run os pid w =
     (let rubbish = junk os (tick w) in
      case sys_proc os pid w of
        (None, w) \<Rightarrow> (False, w)
      | (Some p, w) \<Rightarrow> (command_is_run rubbish (p_cmdline p), w))"

text \<open>\<open>readlink\<close> of \<open>/proc/PID/exe\<close> into 4095 bytes.\<close>

definition read_exe :: "'k os \<Rightarrow> int \<Rightarrow> 'k world \<Rightarrow> string option \<times> 'k world" where
  "read_exe os pid w =
     (case sys_proc os pid w of
        (None, w) \<Rightarrow> (None, w)
      | (Some p, w) \<Rightarrow> (map_option (take 4095) (p_exe p), w))"

text \<open>The last comparison of \<open>process_is_ours\<close>, with the own executable, decides nothing.\<close>

definition process_is_ours :: "'k os \<Rightarrow> int \<Rightarrow> nat \<Rightarrow> 'k world \<Rightarrow> bool \<times> 'k world" where
  "process_is_ours os pid expected w =
     (let (actual, w) = process_start_time os pid w in
      if actual \<noteq> Some expected then (False, w)
      else let (target, w) = read_exe os pid w in
      (case target of
         None \<Rightarrow> (False, w)
       | Some target \<Rightarrow>
           if \<not> exe_is_free_proxy target then (False, w)
           else let (run, w) = cmdline_is_run os pid w in
           if \<not> run then (False, w)
           else let (_, w) = sys_fault os w in (True, w)))"

definition sscanf_ppid :: "string \<Rightarrow> int option" where
  "sscanf_ppid line =
     (if take 5 line \<noteq> ''PPid:'' then None else map_option (\<lambda>(v, _). to_pid_t v) (scan_ld (drop 5 line)))"

fun find_ppid :: "string list \<Rightarrow> int" where
  "find_ppid [] = 0"
| "find_ppid (l # ls) = (case sscanf_ppid (cstr l) of Some v \<Rightarrow> v | None \<Rightarrow> find_ppid ls)"

definition leads_session :: "int \<Rightarrow> 'k world \<Rightarrow> bool" where
  "leads_session pid w =
     (case map_of (procs w) pid of None \<Rightarrow> False | Some p \<Rightarrow> p_sid p = pid \<and> p_pgid p = pid)"

definition is_legacy_daemon :: "'k os \<Rightarrow> int \<Rightarrow> 'k world \<Rightarrow> bool \<times> 'k world" where
  "is_legacy_daemon os pid w =
     (let (target, w) = read_exe os pid w in
      (case target of
         None \<Rightarrow> (False, w)
       | Some target \<Rightarrow>
           if \<not> exe_is_free_proxy target then (False, w)
           else let (run, w) = cmdline_is_run os pid w in
           if \<not> run then (False, w)
           else (case sys_proc os pid w of
               (None, w) \<Rightarrow> (False, w)
             | (Some p, w) \<Rightarrow>
                 (leads_session pid w \<or> find_ppid (read_lines 256 (p_status p)) = 1, w))))"

section \<open>Stopping\<close>

text \<open>Whether the target of the signals is gone: the group, or the process with its start time.\<close>

definition target_gone :: "'k os \<Rightarrow> int \<Rightarrow> int \<Rightarrow> nat \<Rightarrow> 'k world \<Rightarrow> bool \<times> 'k world" where
  "target_gone os signal_target pid start w =
     (if signal_target < 0
      then (case sys_kill os signal_target 0 w of (e, w) \<Rightarrow> (e = Some ESRCH, w))
      else (case process_start_time os pid w of (actual, w) \<Rightarrow> (actual \<noteq> Some start, w)))"

fun wait_gone :: "nat \<Rightarrow> 'k os \<Rightarrow> int \<Rightarrow> int \<Rightarrow> nat \<Rightarrow> 'k world \<Rightarrow> bool \<times> 'k world" where
  "wait_gone 0 os signal_target pid start w = (False, w)"
| "wait_gone (Suc n) os signal_target pid start w =
     (let (gone, w) = target_gone os signal_target pid start w in
      if gone then (True, w) else wait_gone n os signal_target pid start (sys_sleep os w))"

definition stop_process :: "'k os \<Rightarrow> int \<Rightarrow> nat \<Rightarrow> 'k world \<Rightarrow> int \<times> 'k world" where
  "stop_process os pid start w =
     (let signal_target = (if leads_session pid w then - pid else pid);
          (e, w) = sys_kill os signal_target SIGTERM w in
      if e \<noteq> None \<and> e \<noteq> Some ESRCH then (fail, w)
      else let (gone, w) = wait_gone (FP_STOP_TIMEOUT_MS div 100) os signal_target pid start w in
      if gone then (ok, w)
      else let (e, w) = sys_kill os signal_target SIGKILL w in
      if e \<noteq> None \<and> e \<noteq> Some ESRCH then (fail, w)
      else let (gone, w) = wait_gone 10 os signal_target pid start w in
      (if gone then ok else fail, w))"

text \<open>The loop over the names \<open>readdir\<close> returns for \<open>/proc\<close>.\<close>

definition entry_pid :: "string \<Rightarrow> int option" where
  "entry_pid name =
     (if name = [] \<or> \<not> is_digit (hd name) then None
      else (case strtol name of (v, end, erange) \<Rightarrow>
        if erange \<or> end \<noteq> [] \<or> v \<le> 1 then None else Some (to_pid_t v)))"

fun stop_entries :: "'k os \<Rightarrow> string list \<Rightarrow> 'k world \<Rightarrow> int \<times> 'k world" where
  "stop_entries os [] w = (ok, w)"
| "stop_entries os (name # names) w =
     (case entry_pid name of
        None \<Rightarrow> stop_entries os names w
      | Some pid \<Rightarrow>
          (let (legacy, w) = is_legacy_daemon os pid w in
           if \<not> legacy then stop_entries os names w
           else (case process_start_time os pid w of
               (None, w) \<Rightarrow> stop_entries os names w
             | (Some start, w) \<Rightarrow>
                 (let (r, w) = stop_process os pid start w in
                  if r \<noteq> ok then (fail, w) else stop_entries os names w))))"

definition stop_untracked_daemons :: "'k os \<Rightarrow> 'k world \<Rightarrow> int \<times> 'k world" where
  "stop_untracked_daemons os w =
     (let names = listing os (tick w) (procs w); (no_dir, w) = sys_fault os w in
      if no_dir then (fail, w) else stop_entries os names w)"

definition listener_is_released :: "'k os \<Rightarrow> 'k world \<Rightarrow> int \<times> 'k world" where
  "listener_is_released os w =
     (let busy = port_busy os (tick w) (procs w); (f, w) = sys_fault os w in
      (if f \<or> busy then fail else ok, w))"

fun wait_listener :: "nat \<Rightarrow> 'k os \<Rightarrow> 'k world \<Rightarrow> int \<times> 'k world" where
  "wait_listener 0 os w = (fail, w)"
| "wait_listener (Suc n) os w =
     (let (r, w) = listener_is_released os w in
      if r = ok then (ok, w) else wait_listener n os (sys_sleep os w))"

definition wait_listener_released :: "'k os \<Rightarrow> 'k world \<Rightarrow> int \<times> 'k world" where
  "wait_listener_released os w = wait_listener 50 os w"

definition fp_remove_pid :: "'k os \<Rightarrow> 'k world \<Rightarrow> 'k world" where
  "fp_remove_pid os w = snd (sys_unlink os FP_PID_PATH w)"

text \<open>\<open>fp_stats_unlink\<close> of \<open>src/stats.c\<close>, on the file system.\<close>

definition stats_unlink :: "'k os \<Rightarrow> 'k world \<Rightarrow> 'k world" where
  "stats_unlink os w = snd (sys_unlink os FP_STATS_PATH w)"

definition fp_stop_daemon :: "'k os \<Rightarrow> 'k world \<Rightarrow> int \<times> 'k world" where
  "fp_stop_daemon os w =
     (let (record, w) = read_process_record os w;
          (r, w) = (case record of
              None \<Rightarrow> (ok, w)
            | Some rc \<Rightarrow>
                (let (actual, w) = process_start_time os (rec_pid rc) w in
                 if actual \<noteq> Some (rec_start rc) then (ok, w)
                 else let (ours, w) = process_is_ours os (rec_pid rc) (rec_start rc) w in
                 if \<not> ours then (ok, w) else stop_process os (rec_pid rc) (rec_start rc) w))
      in if r \<noteq> ok then (fail, w)
      else let (r, w) = stop_untracked_daemons os w in
      if r \<noteq> ok then (fail, w)
      else let (r, w) = wait_listener_released os w;
               (r, w) = (if r = ok then (ok, w)
                 else let (r, w) = stop_untracked_daemons os w in
                 if r \<noteq> ok then (fail, w) else wait_listener_released os w)
      in if r \<noteq> ok then (fail, w) else (ok, stats_unlink os (fp_remove_pid os w)))"

section \<open>The daemon's record and the lock\<close>

definition record_text :: "nat \<Rightarrow> nat \<Rightarrow> fp_config \<Rightarrow> string" where
  "record_text pid start config =
     dec pid @ '' '' @ dec start @ '' '' @ inet_ntop (proxy_addr config) @ '' ''
       @ dec (unat (proxy_port config)) @ [newline]"

definition fp_write_pid :: "'k os \<Rightarrow> fp_config \<Rightarrow> 'k world \<Rightarrow> int \<times> 'k world" where
  "fp_write_pid os config w =
     (let (r, w) = ensure_runtime_dir os w in
      if r \<noteq> ok then (fail, w)
      else (case process_start_time os (int (self_pid os)) w of
         (None, w) \<Rightarrow> (fail, w)
       | (Some start, w) \<Rightarrow>
           (let (opened, w) = sys_create os FP_PID_PATH w in
            if \<not> opened then (fail, w)
            else let (put, w) = sys_write os FP_PID_PATH (record_text (self_pid os) start config) w in
            if \<not> put then (fail, w)
            else let (closed, w) = sys_check os w in (if closed then ok else fail, w))))"

text \<open>The lock: the descriptor or -1. That another process waits is not modelled.\<close>

definition fp_lock_acquire :: "'k os \<Rightarrow> 'k world \<Rightarrow> int \<times> 'k world" where
  "fp_lock_acquire os w =
     (let (r, w) = ensure_runtime_dir os w in
      if r \<noteq> ok then (-1, w)
      else let (f, w) = sys_fault os w in
      if f then (-1, w)
      else
        let w = w\<lparr>files := (files w)(FP_LOCK_PATH \<mapsto>
              (case files w FP_LOCK_PATH of None \<Rightarrow> '''' | Some s \<Rightarrow> s))\<rparr>;
            (f, w) = sys_fault os w in
        if f then (-1, w) else (3, w))"

definition fp_daemon_matches_config :: "'k os \<Rightarrow> fp_config \<Rightarrow> 'k world \<Rightarrow> bool \<times> 'k world" where
  "fp_daemon_matches_config os config w =
     (case read_process_record os w of
        (None, w) \<Rightarrow> (False, w)
      | (Some rc, w) \<Rightarrow>
          (let (ours, w) = process_is_ours os (rec_pid rc) (rec_start rc) w in
           (ours \<and> rec_port rc = proxy_port config \<and> rec_addr rc = proxy_addr config, w)))"

section \<open>What identification means\<close>

text \<open>A process that runs some \<open>free_proxy\<close> binary with first argument \<open>run\<close>.\<close>

definition daemon_like :: "proc \<Rightarrow> bool" where
  "daemon_like p \<longleftrightarrow> (\<exists>e. p_exe p = Some e \<and> exe_is_free_proxy (take 4095 e))
     \<and> (\<exists>rubbish. command_is_run rubbish (p_cmdline p))"

lemma sys_proc_Some: "sys_proc os pid w = (Some p, w') \<Longrightarrow> map_of (procs w) pid = Some p"
  by (auto simp: sys_proc_def sys_fault_def split: if_splits)

lemma process_start_time_same [frame]: "process_start_time os pid w = (t, w') \<Longrightarrow> same_kernel w w'"
  by (auto simp: process_start_time_def split: prod.splits option.splits dest: sys_same_kernel)

lemma read_exe_same [frame]: "read_exe os pid w = (t, w') \<Longrightarrow> same_kernel w w'"
  by (auto simp: read_exe_def split: prod.splits option.splits dest: sys_same_kernel)

lemma cmdline_is_run_same [frame]: "cmdline_is_run os pid w = (b, w') \<Longrightarrow> same_kernel w w'"
  by (auto simp: cmdline_is_run_def Let_def split: prod.splits option.splits dest: sys_same_kernel)

lemma read_process_record_same [frame]: "read_process_record os w = (t, w') \<Longrightarrow> same_kernel w w'"
  by (auto simp: read_process_record_def split: prod.splits option.splits dest: sys_same_kernel)

lemma process_is_ours_same [frame]: "process_is_ours os pid t w = (b, w') \<Longrightarrow> same_kernel w w'"
  unfolding process_is_ours_def
  by (auto simp: Let_def split: prod.splits option.splits if_splits
      dest!: process_start_time_same read_exe_same cmdline_is_run_same sys_same_kernel
      intro: same_kernel_trans)

lemma is_legacy_daemon_same [frame]: "is_legacy_daemon os pid w = (b, w') \<Longrightarrow> same_kernel w w'"
  unfolding is_legacy_daemon_def
  by (auto simp: Let_def split: prod.splits option.splits if_splits
      dest!: read_exe_same cmdline_is_run_same sys_same_kernel intro: same_kernel_trans)

lemma same_kernel_procs: "same_kernel w w' \<Longrightarrow> procs w' = procs w \<and> signals w' = signals w \<and> nat_tab w' = nat_tab w"
  by (simp add: same_kernel_def)

lemma read_exe_Some: "read_exe os pid w = (Some t, w') \<Longrightarrow>
    \<exists>p e. map_of (procs w) pid = Some p \<and> p_exe p = Some e \<and> t = take 4095 e"
  by (auto simp: read_exe_def split: prod.splits option.splits dest!: sys_proc_Some)

lemma cmdline_is_run_True: "cmdline_is_run os pid w = (True, w') \<Longrightarrow>
    \<exists>p rubbish. map_of (procs w) pid = Some p \<and> command_is_run rubbish (p_cmdline p)"
  by (auto simp: cmdline_is_run_def Let_def split: prod.splits option.splits dest!: sys_proc_Some)

lemma process_start_time_Some: "process_start_time os pid w = (Some t, w') \<Longrightarrow>
    \<exists>p. map_of (procs w) pid = Some p \<and> parse_start_time (p_stat p) = Some t"
  by (auto simp: process_start_time_def split: prod.splits option.splits dest!: sys_proc_Some)

lemma process_is_ours_True:
  assumes "process_is_ours os pid expected w = (True, w')"
  shows "\<exists>p. map_of (procs w) pid = Some p \<and> daemon_like p \<and> parse_start_time (p_stat p) = Some expected"
proof -
  obtain w1 where 1: "process_start_time os pid w = (Some expected, w1)"
    using assms by (auto simp: process_is_ours_def Let_def split: prod.splits if_splits)
  obtain t w2 where 2: "read_exe os pid w1 = (Some t, w2)" "exe_is_free_proxy t"
    using assms 1 by (auto simp: process_is_ours_def Let_def split: prod.splits option.splits if_splits)
  obtain w3 where 3: "cmdline_is_run os pid w2 = (True, w3)"
    using assms 1 2 by (auto simp: process_is_ours_def Let_def split: prod.splits if_splits)
  have "procs w1 = procs w" "procs w2 = procs w"
    using same_kernel_procs [OF process_start_time_same [OF 1]] same_kernel_procs [OF read_exe_same [OF 2(1)]]
    by auto
  with process_start_time_Some [OF 1] read_exe_Some [OF 2(1)] 2(2) cmdline_is_run_True [OF 3] show ?thesis
    by (auto simp: daemon_like_def)
qed

lemma is_legacy_daemon_True:
  assumes "is_legacy_daemon os pid w = (True, w')"
  shows "\<exists>p. map_of (procs w) pid = Some p \<and> daemon_like p
    \<and> (leads_session pid w \<or> find_ppid (read_lines 256 (p_status p)) = 1)"
proof -
  obtain t w2 where 2: "read_exe os pid w = (Some t, w2)" "exe_is_free_proxy t"
    using assms by (auto simp: is_legacy_daemon_def Let_def split: prod.splits option.splits if_splits)
  obtain w3 where 3: "cmdline_is_run os pid w2 = (True, w3)"
    using assms 2 by (auto simp: is_legacy_daemon_def Let_def split: prod.splits if_splits)
  obtain p w4 where 4: "sys_proc os pid w3 = (Some p, w4)"
    "leads_session pid w4 \<or> find_ppid (read_lines 256 (p_status p)) = 1"
    using assms 2 3 by (auto simp: is_legacy_daemon_def Let_def split: prod.splits option.splits if_splits)
  have "procs w2 = procs w" "procs w3 = procs w2" "procs w4 = procs w3"
    using same_kernel_procs [OF read_exe_same [OF 2(1)]] same_kernel_procs [OF cmdline_is_run_same [OF 3]]
      sys_same_kernel(11) [OF 4(1)] by (auto simp: same_kernel_def)
  with read_exe_Some [OF 2(1)] 2(2) cmdline_is_run_True [OF 3] sys_proc_Some [OF 4(1)] 4(2) show ?thesis
    by (auto simp: daemon_like_def leads_session_def)
qed

section \<open>Which signals are sent\<close>

text \<open>
  Process ids are positive, and process 1 is not a \<open>free_proxy\<close> daemon; this stays so however
  the table changes.
\<close>

definition sane_table :: "ptable \<Rightarrow> bool" where
  "sane_table ps \<longleftrightarrow> (\<forall>q p. map_of ps q = Some p \<longrightarrow> 1 \<le> q \<and> (q = 1 \<longrightarrow> \<not> daemon_like p))"

definition sane_os :: "'k os \<Rightarrow> bool" where
  "sane_os os \<longleftrightarrow> (\<forall>n ps. sane_table ps \<longrightarrow> sane_table (elapse os n ps))
     \<and> (\<forall>n t s ps. sane_table ps \<longrightarrow> sane_table (deliver os n t s ps))"

definition good_signals :: "sig_event list \<Rightarrow> bool" where
  "good_signals new \<longleftrightarrow> (\<forall>e \<in> set new. 1 < \<bar>sig_target e\<bar> \<and>
     (sig_number e = SIGTERM \<and> (\<exists>p. sig_proc e = Some p \<and> daemon_like p)
      \<or> sig_number e = SIGKILL \<and> (\<exists>e0 \<in> set new. sig_number e0 = SIGTERM \<and> sig_target e0 = sig_target e
          \<and> (\<exists>p. sig_proc e0 = Some p \<and> daemon_like p))))"

text \<open>From \<open>w\<close> to \<open>w'\<close> only such signals were sent, and the table is still sane.\<close>

definition signalled :: "'k world \<Rightarrow> 'k world \<Rightarrow> bool" where
  "signalled w w' \<longleftrightarrow> sane_table (procs w') \<and> (\<exists>new. signals w' = signals w @ new \<and> good_signals new)"

lemma good_signals_append: "good_signals a \<Longrightarrow> good_signals b \<Longrightarrow> good_signals (a @ b)"
  unfolding good_signals_def by fastforce

lemma good_signals_Nil [simp]: "good_signals []"
  by (simp add: good_signals_def)

lemma signalled_refl: "sane_table (procs w) \<Longrightarrow> signalled w w"
  by (simp add: signalled_def)

lemma signalled_trans: "signalled a b \<Longrightarrow> signalled b c \<Longrightarrow> signalled a c"
  unfolding signalled_def by (metis append.assoc good_signals_append)

lemma signalled_sane: "signalled w w' \<Longrightarrow> sane_table (procs w')"
  by (simp add: signalled_def)

lemma signalled_same: "sane_table (procs w) \<Longrightarrow> same_kernel w w' \<Longrightarrow> signalled w w'"
  by (simp add: signalled_def same_kernel_def)

lemma kill_zero: "sys_kill os target 0 w = (e, w') \<Longrightarrow> procs w' = procs w \<and> signals w' = signals w"
  by (auto simp: sys_kill_def sys_fault_def Let_def split: if_splits)

lemma target_gone_quiet: "target_gone os t pid start w = (b, w') \<Longrightarrow> procs w' = procs w \<and> signals w' = signals w"
  by (auto simp: target_gone_def split: if_splits prod.splits dest!: kill_zero process_start_time_same same_kernel_procs)

lemma wait_gone_quiet:
  assumes "sane_os os" "sane_table (procs w)" "wait_gone n os t pid start w = (b, w')"
  shows "sane_table (procs w') \<and> signals w' = signals w"
  using assms(2,3)
proof (induction n arbitrary: w)
  case (Suc n)
  obtain g w1 where 1: "target_gone os t pid start w = (g, w1)" by force
  have s: "sane_table (procs (sys_sleep os w1))" "signals (sys_sleep os w1) = signals w1"
    using target_gone_quiet [OF 1] assms(1) Suc.prems(1) by (auto simp: sys_sleep_def sane_os_def)
  show ?case
    using Suc.prems 1 target_gone_quiet [OF 1] Suc.IH [OF s(1)] s(2) by (auto split: if_splits)
qed auto

lemma kill_effect:
  assumes "sane_os os" "sane_table (procs w)" "sys_kill os t sig w = (e, w')"
  shows "sane_table (procs w')"
    and "signals w' = signals w \<or> (e = None \<and> signals w' = signals w @
      [\<lparr>sig_target = t, sig_number = sig, sig_proc = map_of (procs w) \<bar>t\<bar>\<rparr>])"
  using assms by (auto simp: sys_kill_def sys_fault_def sane_os_def Let_def split: if_splits)

lemma kill_reaches:
  assumes "sys_kill os t sig w = (e, w')" "kill_target (procs w) t" "e = None \<or> e = Some ESRCH" "sig \<noteq> 0"
  shows "signals w' = signals w @ [\<lparr>sig_target = t, sig_number = sig, sig_proc = map_of (procs w) \<bar>t\<bar>\<rparr>]"
  using assms by (auto simp: sys_kill_def sys_fault_def Let_def split: if_splits)

lemma stop_process_signals:
  assumes so: "sane_os os" and st: "sane_table (procs w)" and p: "map_of (procs w) pid = Some p" "daemon_like p"
    and "stop_process os pid start w = (r, w')"
  shows "signalled w w'"
proof -
  define t where "t = (if leads_session pid w then - pid else pid)"
  have pid: "1 < pid" using st p unfolding sane_table_def by (metis order_le_less)
  have k: "kill_target (procs w) t"
  proof (cases "leads_session pid w")
    case True
    then have "p_pgid p = pid" using p by (simp add: leads_session_def)
    with p pid True show ?thesis
      by (auto simp: kill_target_def t_def list_ex_iff dest!: map_of_SomeD)
  next
    case False
    with p pid show ?thesis by (simp add: kill_target_def t_def)
  qed
  have at: "\<bar>t\<bar> = pid" using pid by (simp add: t_def)
  let ?sent = "\<lparr>sig_target = t, sig_number = SIGTERM, sig_proc = Some p\<rparr>"
  obtain e1 w1 where 1: "sys_kill os t SIGTERM w = (e1, w1)" by force
  note s1 = kill_effect [OF so st 1]
  obtain g2 w2 where 2: "wait_gone (FP_STOP_TIMEOUT_MS div 100) os t pid start w1 = (g2, w2)" by force
  note s2 = wait_gone_quiet [OF so s1(1) 2]
  obtain e3 w3 where 3: "sys_kill os t SIGKILL w2 = (e3, w3)" by force
  have s3: "sane_table (procs w3)" "signals w3 = signals w2 \<or> (\<exists>q. signals w3 = signals w2 @
      [\<lparr>sig_target = t, sig_number = SIGKILL, sig_proc = q\<rparr>])"
    using kill_effect [OF so _ 3] s2 by auto
  obtain g4 w4 where 4: "wait_gone 10 os t pid start w3 = (g4, w4)" by force
  note s4 = wait_gone_quiet [OF so s3(1) 4]
  have g: "good_signals [?sent]" "good_signals [?sent, \<lparr>sig_target = t, sig_number = SIGKILL, sig_proc = q\<rparr>]" for q
    using p pid at by (auto simp: good_signals_def)
  show ?thesis
  proof (cases "e1 \<noteq> None \<and> e1 \<noteq> Some ESRCH")
    case True
    with assms(5) 1 s1 show ?thesis
      by (auto simp: stop_process_def t_def [symmetric] signalled_def Let_def)
  next
    case False
    then have n1: "signals w1 = signals w @ [?sent]"
      using kill_reaches [OF 1 k] p at by (auto simp: SIGTERM_def)
    from assms(5) 1 2 3 4 False consider "w' = w2" | "w' = w3" | "w' = w4"
      by (auto simp: stop_process_def t_def [symmetric] Let_def split: if_splits)
    then show ?thesis
      using n1 s1 s2 s3 s4 g by cases (auto simp: signalled_def)
  qed
qed

lemma signalled_calm: "signalled a b \<Longrightarrow> same_kernel b c \<Longrightarrow> signalled a c"
  using signalled_trans signalled_same signalled_sane by blast

lemma stop_entries_signals:
  assumes "sane_os os" "sane_table (procs w)" "stop_entries os names w = (r, w')"
  shows "signalled w w'"
  using assms(2,3)
proof (induction names arbitrary: w)
  case Nil
  then show ?case by (simp add: signalled_refl)
next
  case (Cons name names)
  have next_entry: "signalled w w'" if "signalled w v" "stop_entries os names v = (r, w')" for v
    using that signalled_trans Cons.IH [OF signalled_sane] by blast
  show ?case
  proof (cases "entry_pid name")
    case None
    with Cons show ?thesis by simp
  next
    case (Some pid)
    obtain l w1 where 1: "is_legacy_daemon os pid w = (l, w1)" by force
    obtain s w2 where 2: "process_start_time os pid w1 = (s, w2)" by force
    obtain q w3 where 3: "stop_process os pid (the s) w2 = (q, w3)" by force
    note k1 = is_legacy_daemon_same [OF 1] and k2 = process_start_time_same [OF 2]
    have g1: "signalled w w1" by (rule signalled_same [OF Cons.prems(1) k1])
    have g2: "signalled w w2" by (rule signalled_calm [OF g1 k2])
    have g3: "signalled w w3" if l
    proof -
      have "is_legacy_daemon os pid w = (True, w1)" using 1 that by simp
      then obtain p where "map_of (procs w2) pid = Some p" "daemon_like p"
        using is_legacy_daemon_True [of os pid w w1] k1 k2 unfolding same_kernel_def by metis
      from stop_process_signals [OF assms(1) signalled_sane [OF g2] this 3] show ?thesis
        by (rule signalled_trans [OF g2])
    qed
    from Cons.prems(2) 1 2 3 Some consider "stop_entries os names w1 = (r, w')" | "stop_entries os names w2 = (r, w')"
      | l "stop_entries os names w3 = (r, w')" | l "w' = w3"
      by (auto split: if_splits option.splits)
    then show ?thesis using next_entry g1 g2 g3 by cases auto
  qed
qed

lemma stop_untracked_signals:
  assumes "sane_os os" "sane_table (procs w)" "stop_untracked_daemons os w = (r, w')"
  shows "signalled w w'"
proof -
  obtain f w1 where 1: "sys_fault os w = (f, w1)" by force
  note k = sys_same_kernel(1) [OF 1]
  have t: "sane_table (procs w1)" using assms(2) k by (simp add: same_kernel_def)
  have g: "signalled w w1" by (rule signalled_same [OF assms(2) k])
  show ?thesis
  proof (cases f)
    case True
    with assms(3) 1 g show ?thesis by (simp add: stop_untracked_daemons_def Let_def)
  next
    case False
    with assms(3) 1 have "stop_entries os (listing os (tick w) (procs w)) w1 = (r, w')"
      by (simp add: stop_untracked_daemons_def Let_def)
    from stop_entries_signals [OF assms(1) t this] g show ?thesis by (rule signalled_trans [rotated])
  qed
qed

lemma wait_listener_signals:
  assumes "sane_os os" "sane_table (procs w)" "wait_listener n os w = (r, w')"
  shows "signalled w w'"
  using assms(2,3)
proof (induction n arbitrary: w)
  case 0
  then show ?case by (simp add: signalled_refl)
next
  case (Suc n)
  obtain q w1 where 1: "listener_is_released os w = (q, w1)" by force
  have k: "procs w1 = procs w" "signals w1 = signals w"
    using 1 by (auto simp: listener_is_released_def sys_fault_def Let_def)
  have s: "sane_table (procs (sys_sleep os w1))" "signals (sys_sleep os w1) = signals w"
    using k assms(1) Suc.prems(1) by (auto simp: sys_sleep_def sane_os_def)
  show ?case
    using Suc.prems 1 k Suc.IH [OF s(1)] s(2) by (auto simp: signalled_def split: if_splits)
qed

lemma unlink_signals:
  "sane_table (procs w) \<Longrightarrow> signalled w (stats_unlink os (fp_remove_pid os w))"
  by (rule signalled_same) (auto simp: stats_unlink_def fp_remove_pid_def sys_unlink_def sys_fault_def Let_def
      same_kernel_def)

text \<open>The process of the record, when it is still the daemon that wrote it, and only then.\<close>

lemma stop_recorded_signals:
  assumes so: "sane_os os" and st: "sane_table (procs w)"
    and "(let (actual, w) = process_start_time os pid w in
         if actual \<noteq> Some start then (ok, w)
         else let (ours, w) = process_is_ours os pid start w in
         if \<not> ours then (ok, w) else stop_process os pid start w) = (r, w')"
  shows "signalled w w'"
proof -
  obtain a wa where a: "process_start_time os pid w = (a, wa)" by force
  obtain b wb where b: "process_is_ours os pid start wa = (b, wb)" by force
  have ga: "signalled w wa" by (rule signalled_same [OF st process_start_time_same [OF a]])
  have gb: "signalled w wb" by (rule signalled_calm [OF ga process_is_ours_same [OF b]])
  from assms(3) a b consider "w' = wa" | "w' = wb" | "b" "stop_process os pid start wb = (r, w')"
    by (auto simp: Let_def split: if_splits)
  then show ?thesis
  proof cases
    case 3
    obtain p where "map_of (procs wb) pid = Some p" "daemon_like p"
      using process_is_ours_True [of os pid start wa wb] process_is_ours_same [OF b] b 3(1)
      by (auto simp: same_kernel_def)
    from stop_process_signals [OF so signalled_sane [OF gb] this 3(2)] show ?thesis
      by (rule signalled_trans [OF gb])
  qed (use ga gb in simp_all)
qed

lemma fp_stop_daemon_signals:
  assumes so: "sane_os os" and st: "sane_table (procs w)" and "fp_stop_daemon os w = (r, w')"
  shows "signalled w w'"
proof -
  obtain rc w1 where 1: "read_process_record os w = (rc, w1)" by force
  have g1: "signalled w w1" by (rule signalled_same [OF st read_process_record_same [OF 1]])
  let ?first = "(case rc of
      None \<Rightarrow> (ok, w1)
    | Some rc \<Rightarrow>
        (let (actual, w) = process_start_time os (rec_pid rc) w1 in
         if actual \<noteq> Some (rec_start rc) then (ok, w)
         else let (ours, w) = process_is_ours os (rec_pid rc) (rec_start rc) w in
         if \<not> ours then (ok, w) else stop_process os (rec_pid rc) (rec_start rc) w))"
  obtain r2 w2 where 2: "?first = (r2, w2)" by force
  have g2: "signalled w w2"
    using 2 g1 signalled_trans [OF g1 stop_recorded_signals [OF so signalled_sane [OF g1]]]
    by (cases rc) auto
  obtain r3 w3 where 3: "stop_untracked_daemons os w2 = (r3, w3)" by force
  note g3 = signalled_trans [OF g2 stop_untracked_signals [OF so signalled_sane [OF g2] 3]]
  obtain r4 w4 where 4: "wait_listener_released os w3 = (r4, w4)" by force
  note g4 = signalled_trans [OF g3 wait_listener_signals [OF so signalled_sane [OF g3] 4 [unfolded wait_listener_released_def]]]
  obtain r5 w5 where 5: "stop_untracked_daemons os w4 = (r5, w5)" by force
  note g5 = signalled_trans [OF g4 stop_untracked_signals [OF so signalled_sane [OF g4] 5]]
  obtain r6 w6 where 6: "wait_listener_released os w5 = (r6, w6)" by force
  note g6 = signalled_trans [OF g5 wait_listener_signals [OF so signalled_sane [OF g5] 6 [unfolded wait_listener_released_def]]]
  note u4 = signalled_trans [OF g4 unlink_signals [OF signalled_sane [OF g4], of os]]
  note u6 = signalled_trans [OF g6 unlink_signals [OF signalled_sane [OF g6], of os]]
  have "fp_stop_daemon os w = (if r2 \<noteq> ok then (fail, w2) else if r3 \<noteq> ok then (fail, w3)
      else if r4 = ok then (ok, stats_unlink os (fp_remove_pid os w4))
      else if r5 \<noteq> ok then (fail, w5) else if r6 \<noteq> ok then (fail, w6)
      else (ok, stats_unlink os (fp_remove_pid os w6)))"
    using 1 2 3 4 5 6 by (simp add: fp_stop_daemon_def Let_def)
  with assms(3) g2 g3 g4 g5 g6 u4 u6 show ?thesis by (auto split: if_splits)
qed

section \<open>The record is read back\<close>

lemma is_space_blank [simp]: "is_space CHR '' ''"
  by (simp add: is_space_def)

lemma strtoull_dec:
  assumes "n < 2 ^ 64" and "rest = [] \<or> \<not> is_digit (hd rest)"
  shows "strtoull (dec n @ rest) = (n, rest, False)"
  using assms digits_takeWhile [of "dec n" rest] digits_head [of "dec n" rest]
  by (simp add: strtoull_def)

lemma scan_unsigned_dec:
  assumes "n < 2 ^ bits" "n < 2 ^ 64" and "rest = [] \<or> \<not> is_digit (hd rest)"
  shows "scan_unsigned bits (CHR '' '' # dec n @ rest) = Some (n, rest)"
proof -
  have "strtoull (CHR '' '' # dec n @ rest) = (n, rest, False)"
    using assms(2,3) digits_takeWhile [of "dec n" rest] digits_head [of "dec n" rest]
    by (simp add: strtoull_def)
  then show ?thesis
    using assms digits_takeWhile [of "dec n" rest] digits_head [of "dec n" rest]
    by (simp add: scan_unsigned_def)
qed

lemma scan_ld_dec:
  assumes "int n \<le> LONG_MAX" and "rest = [] \<or> \<not> is_digit (hd rest)"
  shows "scan_ld (dec n @ rest) = Some (int n, rest)"
  using assms digits_takeWhile [of "dec n" rest] digits_head [of "dec n" rest]
  by (simp add: scan_ld_def strtol_dec)

lemma inet_ntop_not_space: "c \<in> set (inet_ntop a) \<Longrightarrow> \<not> is_space c"
  using inet_ntop_chars [of c a] digit_not_space [of c] by (auto simp: is_space_def)

lemma scan_word_inet_ntop: "scan_word 15 (CHR '' '' # inet_ntop a @ CHR '' '' # rest) = Some (inet_ntop a, CHR '' '' # rest)"
proof -
  have d: "dropWhile is_space (inet_ntop a @ CHR '' '' # rest) = inet_ntop a @ CHR '' '' # rest"
    using inet_ntop_not_space [of "hd (inet_ntop a)" a] by (cases "inet_ntop a") auto
  have t: "takeWhile (\<lambda>c. \<not> is_space c) (inet_ntop a @ CHR '' '' # rest) = inet_ntop a"
    using inet_ntop_not_space [of _ a] by (simp add: takeWhile_tail is_space_def)
  show ?thesis using length_inet_ntop [of a] by (simp add: scan_word_def d t)
qed

lemma to_pid_t_id: "0 \<le> v \<Longrightarrow> v < 2 ^ 31 \<Longrightarrow> to_pid_t v = v"
  by (simp add: to_pid_t_def signed_of_int signed_take_bit_int_eq_self)

lemma parse_record_text:
  assumes "1 < pid" "pid < 2 ^ 31" "start < 2 ^ 64"
  shows "parse_record (record_text pid start config) =
    Some \<lparr>rec_pid = int pid, rec_start = start, rec_addr = proxy_addr config, rec_port = proxy_port config\<rparr>"
proof -
  let ?p = "unat (proxy_port config)"
  have p: "?p < 65536" using unat_port_bound by blast
  have 1: "scan_ld (record_text pid start config) = Some (int pid, '' '' @ dec start @ '' '' @
      inet_ntop (proxy_addr config) @ '' '' @ dec ?p @ [newline])"
    using assms unfolding record_text_def by (subst scan_ld_dec) (auto simp: LONG_MAX_def)
  have 2: "scan_unsigned 64 ('' '' @ dec start @ '' '' @ inet_ntop (proxy_addr config) @ '' '' @ dec ?p @ [newline])
      = Some (start, '' '' @ inet_ntop (proxy_addr config) @ '' '' @ dec ?p @ [newline])"
    using scan_unsigned_dec [of start 64 "'' '' @ inet_ntop (proxy_addr config) @ '' '' @ dec ?p @ [newline]"] assms
    by simp
  have 3: "scan_unsigned 32 ('' '' @ dec ?p @ [newline]) = Some (?p, [newline])"
    using scan_unsigned_dec [of ?p 32 "[newline]"] p by simp
  show ?thesis
    unfolding parse_record_def 1 using 2 3 scan_word_inet_ntop [of "proxy_addr config"] assms p
    by (simp add: to_pid_t_id)
qed

lemma strtoull_bound: "strtoull s = (v, e, erange) \<Longrightarrow> v < 2 ^ 64"
  by (auto simp: strtoull_def Let_def split: prod.splits if_splits)

lemma parse_start_time_bound: "parse_start_time s = Some v \<Longrightarrow> v < 2 ^ 64"
  by (auto simp: parse_start_time_def Let_def split: option.splits prod.splits if_splits dest: strtoull_bound)

lemma fp_write_pid_ok:
  assumes "fp_write_pid os config w = (ok, w')"
  shows "\<exists>p start. map_of (procs w) (int (self_pid os)) = Some p \<and> parse_start_time (p_stat p) = Some start
    \<and> files w' FP_PID_PATH = Some (record_text (self_pid os) start config) \<and> same_kernel w w'"
proof -
  obtain r1 w1 where 1: "ensure_runtime_dir os w = (r1, w1)" by force
  obtain s w2 where 2: "process_start_time os (int (self_pid os)) w1 = (s, w2)" by force
  obtain b3 w3 where 3: "sys_create os FP_PID_PATH w2 = (b3, w3)" by force
  obtain start where start: "s = Some start" "r1 = ok" "b3"
    using assms 1 2 3 by (auto simp: fp_write_pid_def split: option.splits if_splits)
  obtain b4 w4 where 4: "sys_write os FP_PID_PATH (record_text (self_pid os) start config) w3 = (b4, w4)" by force
  obtain b5 w5 where 5: "sys_check os w4 = (b5, w5)" by force
  have e: "b4" "w' = w5"
    using assms 1 2 3 4 5 start by (auto simp: fp_write_pid_def split: if_splits)
  have k1: "same_kernel w w1"
    using 1 by (auto simp: ensure_runtime_dir_def split: prod.splits dest: sys_same_kernel)
  have "procs w1 = procs w" using k1 by (simp add: same_kernel_def)
  moreover have "same_kernel w w'"
    using k1 process_start_time_same [OF 2] sys_same_kernel(4) [OF 3] sys_same_kernel(5) [OF 4]
      sys_same_kernel(6) [OF 5] e(2) same_kernel_trans by metis
  moreover have "files w' FP_PID_PATH = Some (record_text (self_pid os) start config)"
    using sys_create_ok [of os FP_PID_PATH w2 w3] 3 sys_write_ok [of os FP_PID_PATH _ w3 w4] 4 e start
      sys_check_files [OF 5] by simp
  ultimately show ?thesis
    using process_start_time_Some [OF 2 [unfolded start]] by auto
qed

text \<open>What \<open>command_is_run\<close> decides when the command line fits the buffer: no stack contents matter.\<close>

definition surely_run :: "string \<Rightarrow> bool" where
  "surely_run cmdline \<longleftrightarrow> (\<forall>rubbish. command_is_run rubbish cmdline)"

lemma surely_runI:
  assumes "CHR 0x00 \<notin> set exe" "length exe < 250"
  shows "surely_run (exe @ CHR 0x00 # ''run'' @ CHR 0x00 # rest)"
proof -
  let ?c = "take 255 (exe @ CHR 0x00 # ''run'' @ CHR 0x00 # rest)"
  have c: "?c = exe @ CHR 0x00 # ''run'' @ CHR 0x00 # take (250 - length exe) rest"
    using assms(2) by (simp add: take_Cons' eval_nat_numeral)
  have f: "cstr (exe @ CHR 0x00 # t) = exe" for t
    using assms(1) by (auto simp: cstr_def takeWhile_tail)
  show ?thesis
    unfolding surely_run_def command_is_run_def c
    by (simp add: f[simplified] cstr_def[of "CHR ''r'' # _"] Let_def)
qed

lemma quiet_sys_proc: "faults os = (\<lambda>_. False) \<Longrightarrow> sys_proc os pid w = (map_of (procs w) pid, w\<lparr>tick := Suc (tick w)\<rparr>)"
  by (simp add: sys_proc_def sys_fault_def)

lemma process_is_ours_quiet:
  assumes "faults os = (\<lambda>_. False)" "map_of (procs w) pid = Some p" "p_exe p = Some exe"
    "exe_is_free_proxy (take 4095 exe)" "surely_run (p_cmdline p)"
  shows "fst (process_is_ours os pid start w) \<longleftrightarrow> parse_start_time (p_stat p) = Some start"
  using assms
  by (auto simp: process_is_ours_def process_start_time_def read_exe_def cmdline_is_run_def quiet_sys_proc
      sys_fault_def surely_run_def Let_def split: option.splits if_splits)

section \<open>What the process operations leave alone\<close>

text \<open>
  What every operation here keeps: the files outside the three paths in \<open>/run/free_proxy\<close>, the
  directories other than that one, and the packet filter. As a function of the world, so that the frame of an operation is an equation.
\<close>

definition run_paths :: "string set" where
  "run_paths = {FP_PID_PATH, FP_LOCK_PATH, FP_STATS_PATH}"

definition kept_files :: "'k world \<Rightarrow> (string \<rightharpoonup> string)" where
  "kept_files w = files w |` (- run_paths)"

definition kept :: "'k world \<Rightarrow> (string \<rightharpoonup> string) \<times> string set \<times> 'k \<times> 'k list" where
  "kept w = (kept_files w, dirs w - {FP_RUNTIME_DIR}, nat_tab w, nat_log w)"

lemma kept_parts: "kept w' = kept w \<Longrightarrow> kept_files w' = kept_files w
    \<and> dirs w' - {FP_RUNTIME_DIR} = dirs w - {FP_RUNTIME_DIR} \<and> nat_tab w' = nat_tab w \<and> nat_log w' = nat_log w"
  by (simp add: kept_def)

lemma kept_files_same: "same_files w w' \<Longrightarrow> kept_files w' = kept_files w"
  by (simp add: same_files_def kept_files_def)

lemma kept_files_config: "kept_files w' = kept_files w \<Longrightarrow> files w' FP_CONFIG_PATH = files w FP_CONFIG_PATH"
proof -
  assume a: "kept_files w' = kept_files w"
  have "FP_CONFIG_PATH \<notin> run_paths"
    by (simp add: run_paths_def FP_CONFIG_PATH_def FP_CONFIG_DIR_def FP_PID_PATH_def FP_LOCK_PATH_def
        FP_STATS_PATH_def FP_RUNTIME_DIR_def)
  then show ?thesis using fun_cong [OF a, of FP_CONFIG_PATH] by (simp add: kept_files_def)
qed

lemma kept_read:
  "same_files w w' \<Longrightarrow> same_kernel w w' \<Longrightarrow> kept w' = kept w"
  by (simp add: kept_def kept_files_def same_files_def same_kernel_def)

lemma sys_kept:
  "sys_fault os w = (f, w') \<Longrightarrow> kept w' = kept w"
  "sys_spawn_fault os w = (f, w') \<Longrightarrow> kept w' = kept w"
  "sys_check os w = (b, w') \<Longrightarrow> kept w' = kept w"
  "sys_mkdir os FP_RUNTIME_DIR w = (e, w') \<Longrightarrow> kept w' = kept w"
  "sys_open_read os p w = (c, w') \<Longrightarrow> kept w' = kept w"
  "sys_access os p w = (b, w') \<Longrightarrow> kept w' = kept w"
  "sys_proc os pid w = (pr, w') \<Longrightarrow> kept w' = kept w"
  "sys_kill os target sig w = (e, w') \<Longrightarrow> kept w' = kept w"
  by (auto simp: sys_defs sys_spawn_fault_def sys_proc_def sys_kill_def kept_def kept_files_def Let_def
      split: if_splits)

lemma kept_files_upd: "q \<in> run_paths \<Longrightarrow> (m(q := x)) |` (- run_paths) = m |` (- run_paths)"
  by (rule ext) (auto simp: restrict_map_def)

lemma sys_kept_run:
  "q \<in> run_paths \<Longrightarrow> sys_create os q w = (b, w') \<Longrightarrow> kept w' = kept w"
  "q \<in> run_paths \<Longrightarrow> sys_write os q t w = (b, w') \<Longrightarrow> kept w' = kept w"
  "q \<in> run_paths \<Longrightarrow> sys_unlink os q w = (e, w') \<Longrightarrow> kept w' = kept w"
  by (auto simp: sys_defs kept_def kept_files_def kept_files_upd Let_def split: if_splits option.splits)

lemma run_paths_mem [simp]: "FP_PID_PATH \<in> run_paths" "FP_LOCK_PATH \<in> run_paths" "FP_STATS_PATH \<in> run_paths"
  by (simp_all add: run_paths_def)

lemma sys_sleep_kept [simp]: "kept (sys_sleep os w) = kept w"
  by (simp add: sys_sleep_def kept_def kept_files_def)

lemma unlink_kept [simp]: "kept (fp_remove_pid os w) = kept w" "kept (stats_unlink os w) = kept w"
  using sys_kept_run(3) [of FP_PID_PATH os w] sys_kept_run(3) [of FP_STATS_PATH os w]
  by (auto simp: fp_remove_pid_def stats_unlink_def prod_eq_iff)

lemma read_kept:
  "process_start_time os pid w = (t, w') \<Longrightarrow> kept w' = kept w"
  "read_exe os pid w = (x, w') \<Longrightarrow> kept w' = kept w"
  "cmdline_is_run os pid w = (b, w') \<Longrightarrow> kept w' = kept w"
  "read_process_record os w = (rc, w') \<Longrightarrow> kept w' = kept w"
  "ensure_runtime_dir os w = (r, w') \<Longrightarrow> kept w' = kept w"
  by (auto simp: process_start_time_def read_exe_def cmdline_is_run_def read_process_record_def
      ensure_runtime_dir_def Let_def dest: sys_kept split: prod.splits option.splits)

lemma fp_read_pid_kept: "fp_read_pid os w = (pid, w') \<Longrightarrow> kept w' = kept w"
  by (auto simp: fp_read_pid_def dest: read_kept split: prod.splits option.splits)

lemma process_is_ours_kept: "process_is_ours os pid t w = (b, w') \<Longrightarrow> kept w' = kept w"
  by (auto simp: process_is_ours_def Let_def dest!: read_kept sys_kept split: prod.splits option.splits if_splits)

lemma is_legacy_daemon_kept: "is_legacy_daemon os pid w = (b, w') \<Longrightarrow> kept w' = kept w"
  by (auto simp: is_legacy_daemon_def Let_def dest!: read_kept sys_kept split: prod.splits option.splits if_splits)

lemma target_gone_kept: "target_gone os t pid start w = (b, w') \<Longrightarrow> kept w' = kept w"
  by (auto simp: target_gone_def dest!: read_kept sys_kept split: prod.splits if_splits)

lemma wait_gone_kept: "wait_gone n os t pid start w = (b, w') \<Longrightarrow> kept w' = kept w"
proof (induction n arbitrary: w)
  case (Suc n)
  obtain g w1 where "target_gone os t pid start w = (g, w1)" by force
  with Suc target_gone_kept [OF this] show ?case by (auto split: if_splits)
qed simp

lemma stop_process_kept: "stop_process os pid start w = (r, w') \<Longrightarrow> kept w' = kept w"
  by (auto simp: stop_process_def Let_def dest!: sys_kept wait_gone_kept split: prod.splits if_splits)

lemma stop_entries_kept: "stop_entries os names w = (r, w') \<Longrightarrow> kept w' = kept w"
proof (induction names arbitrary: w)
  case (Cons name names)
  then show ?case
    by (auto simp: Let_def dest!: is_legacy_daemon_kept read_kept stop_process_kept
        split: prod.splits if_splits option.splits)
qed simp

lemma stop_untracked_kept: "stop_untracked_daemons os w = (r, w') \<Longrightarrow> kept w' = kept w"
  by (auto simp: stop_untracked_daemons_def Let_def dest!: sys_kept stop_entries_kept
      split: prod.splits if_splits)

lemma wait_listener_kept: "wait_listener n os w = (r, w') \<Longrightarrow> kept w' = kept w"
proof (induction n arbitrary: w)
  case (Suc n)
  then show ?case
    by (auto simp: listener_is_released_def Let_def dest!: sys_kept split: prod.splits if_splits)
qed simp

lemma fp_stop_daemon_kept:
  assumes "fp_stop_daemon os w = (r, w')"
  shows "kept w' = kept w"
  using assms unfolding fp_stop_daemon_def wait_listener_released_def
  by (auto simp: Let_def dest!: read_kept process_is_ours_kept stop_process_kept stop_untracked_kept
      wait_listener_kept split: prod.splits if_splits option.splits)

lemma fp_write_pid_kept: "fp_write_pid os c w = (r, w') \<Longrightarrow> kept w' = kept w"
  by (auto simp: fp_write_pid_def Let_def dest!: read_kept sys_kept sys_kept_run(1,2) [rotated]
      split: prod.splits if_splits option.splits)

lemma fp_lock_acquire_kept: "fp_lock_acquire os w = (fd, w') \<Longrightarrow> kept w' = kept w"
  by (auto simp: fp_lock_acquire_def Let_def kept_def kept_files_def kept_files_upd sys_fault_def
      dest!: read_kept(5) split: prod.splits if_splits option.splits)

lemma fp_daemon_matches_config_kept: "fp_daemon_matches_config os c w = (b, w') \<Longrightarrow> kept w' = kept w"
  by (auto simp: fp_daemon_matches_config_def dest!: read_kept process_is_ours_kept
      split: prod.splits if_splits option.splits)

lemmas process_kept = read_kept fp_read_pid_kept fp_stop_daemon_kept fp_write_pid_kept
  fp_lock_acquire_kept fp_daemon_matches_config_kept

section \<open>Properties\<close>

text \<open>A line of \<open>/proc/PID/stat\<close>: the command name in parentheses, then fields.\<close>

definition stat_line :: "nat \<Rightarrow> string \<Rightarrow> string list \<Rightarrow> string" where
  "stat_line pid comm fs = dec pid @ '' ('' @ comm @ '') '' @ join_with CHR '' '' fs @ [newline]"

lemma fgets_line:
  assumes "newline \<notin> set l" "length l < n - 1"
  shows "fgets n (l @ [newline]) = Some (l @ [newline], [])"
proof -
  have "fgets_take k (l @ [newline]) = (l @ [newline], [])" if "length l < k" for k
    using assms(1) that
  proof (induction l arbitrary: k)
    case Nil
    then show ?case by (cases k) auto
  next
    case (Cons c cs)
    then show ?case by (cases k) auto
  qed
  with assms(2) show ?thesis by (simp add: fgets_def)
qed

lemma set_join_with: "set (join_with c ts) \<subseteq> insert c (\<Union>(set ` set ts))"
  by (induction c ts rule: join_with.induct) auto

lemma join_with_snoc: "ts \<noteq> [] \<Longrightarrow> join_with c ts @ s = join_with c (butlast ts @ [last ts @ s])"
  by (induction c ts rule: join_with.induct) auto

lemma parse_stat_line:
  assumes "21 \<le> length fs" and "fs ! 19 = dec start" and "start < 2 ^ 64"
    and "\<forall>f \<in> set fs. f \<noteq> [] \<and> CHR '' '' \<notin> set f \<and> CHR '')'' \<notin> set f \<and> CHR 0x00 \<notin> set f \<and> newline \<notin> set f"
    and "newline \<notin> set comm" "CHR 0x00 \<notin> set comm" and "length (stat_line pid comm fs) < 1023"
  shows "parse_start_time (stat_line pid comm fs) = Some start"
proof -
  let ?f = "butlast fs @ [last fs @ [newline]]"
  have ne: "fs \<noteq> []" using assms(1) by auto
  have j: "join_with CHR '' '' fs @ [newline] = join_with CHR '' '' ?f"
    using join_with_snoc [OF ne] by simp
  have nn: "newline \<notin> set (dec pid)" "CHR 0x00 \<notin> set (dec pid)" by simp_all
  have sj: "set (join_with CHR '' '' fs) \<subseteq> insert CHR '' '' (\<Union>(set ` set fs))" by (rule set_join_with)
  have nj: "x \<notin> set (join_with CHR '' '' fs)" if "x \<noteq> CHR '' ''" "\<forall>f \<in> set fs. x \<notin> set f" for x
    using sj that by auto
  let ?l = "dec pid @ '' ('' @ comm @ '') '' @ join_with CHR '' '' fs"
  have "fgets 1024 (?l @ [newline]) = Some (?l @ [newline], [])"
    using assms(4-7) nn nj [of newline] by (intro fgets_line) (auto simp: stat_line_def)
  then have g: "fgets 1024 (stat_line pid comm fs) = Some (stat_line pid comm fs, [])"
    by (simp add: stat_line_def)
  have c: "cstr (stat_line pid comm fs) = stat_line pid comm fs"
    using assms(4-6) nn nj [of "CHR 0x00"] by (intro cstr_id) (auto simp: stat_line_def)
  have par: "CHR '')'' \<notin> set ('' '' @ join_with CHR '' '' fs @ [newline])"
    using assms(4) nj [of "CHR '')''"] by auto
  have st: "stat_line pid comm fs = (dec pid @ '' ('' @ comm) @ CHR '')'' # '' '' @ join_with CHR '' '' fs @ [newline]"
    by (simp add: stat_line_def)
  have r: "strrchr_split CHR '')'' (stat_line pid comm fs)
      = Some (dec pid @ '' ('' @ comm, '' '' @ join_with CHR '' '' fs @ [newline])"
    unfolding st by (rule strrchr_split_append [OF par])
  have last: "last fs \<in> set fs" using ne by simp
  have sp: "split_on CHR '' '' (join_with CHR '' '' ?f) = ?f"
    by (rule split_join) (use assms(4) last in \<open>auto dest: in_set_butlastD\<close>)
  have fl: "filter (\<lambda>t. t \<noteq> []) ?f = ?f"
    using assms(4) by (auto simp: filter_id_conv dest: in_set_butlastD)
  have n19: "?f ! 19 = dec start" "20 \<le> length ?f"
    using assms(1,2) by (auto simp: nth_append nth_butlast)
  have u: "strtoull (dec start) = (start, [], False)"
    using strtoull_dec [OF assms(3), of "[]"] by simp
  have "[] \<noteq> dec start" by (metis dec_nonempty)
  then show ?thesis
    using r j sp fl n19 u by (simp add: parse_start_time_def g c)
qed

definition sample_fields :: "string list" where
  "sample_fields = replicate 19 ''0'' @ [dec 4711] @ replicate 5 ''1''"

lemma sample_fields_text: "join_with CHR '' '' sample_fields =
    ''0 0 0 0 0 0 0 0 0 0 0 0 0 0 0 0 0 0 0 4711 1 1 1 1 1''"
proof -
  have d: "dec 4711 = ''4711''" by (simp add: dec.simps)
  show ?thesis unfolding sample_fields_def d by (simp add: eval_nat_numeral)
qed

lemma sample_fields_ok:
  "21 \<le> length sample_fields" "sample_fields ! 19 = dec 4711"
  "\<forall>f \<in> set sample_fields. f \<noteq> [] \<and> CHR '' '' \<notin> set f \<and> CHR '')'' \<notin> set f \<and> CHR 0x00 \<notin> set f \<and> newline \<notin> set f"
  by (auto simp: sample_fields_def nth_append dec.simps)

text \<open>
  The start time of a process is field 22 of its \<open>stat\<close> line whatever the command name is,
  also if it contains blanks and parentheses: the fields are counted from the last parenthesis.
\<close>

theorem start_time_any_name:
  assumes "21 \<le> length fs" and "fs ! 19 = dec start" and "start < 2 ^ 64"
    and "\<forall>f \<in> set fs. f \<noteq> [] \<and> CHR '' '' \<notin> set f \<and> CHR '')'' \<notin> set f \<and> CHR 0x00 \<notin> set f \<and> newline \<notin> set f"
    and "newline \<notin> set comm" "CHR 0x00 \<notin> set comm" and "length (stat_line pid comm fs) < 1023"
  shows "parse_start_time (stat_line pid comm fs) = Some start"
  by (rule parse_stat_line [OF assms])

theorem start_time_any_name_witness:
  "parse_start_time (stat_line 4242 '') (x y'' sample_fields) = Some 4711"
  by (rule start_time_any_name [OF sample_fields_ok(1,2) _ sample_fields_ok(3)])
    (simp_all add: stat_line_def sample_fields_text dec.simps)

text \<open>
  C6: Stopping signals nothing but daemons of this program. Every \<open>SIGTERM\<close> goes to a process
  that at that moment runs a \<open>free_proxy\<close> binary with argument \<open>run\<close>, or to the group it leads,
  and every \<open>SIGKILL\<close> to the target of such a \<open>SIGTERM\<close>; never to process 1, to every process
  (-1) or to the own group (0). This holds whatever the process record says, in particular if it
  is stale and its process id has been reused.
\<close>

theorem stop_signals_only_daemons:
  assumes "sane_os os" and "sane_table (procs w)" and "fp_stop_daemon os w = (r, w')"
  shows "\<exists>new. signals w' = signals w @ new \<and> (\<forall>e \<in> set new. 1 < \<bar>sig_target e\<bar> \<and>
     (sig_number e = SIGTERM \<and> (\<exists>p. sig_proc e = Some p \<and> daemon_like p)
      \<or> sig_number e = SIGKILL \<and> (\<exists>e0 \<in> set new. sig_number e0 = SIGTERM \<and> sig_target e0 = sig_target e
          \<and> (\<exists>p. sig_proc e0 = Some p \<and> daemon_like p))))"
  using fp_stop_daemon_signals [OF assms] by (simp add: signalled_def good_signals_def)

definition sample_daemon :: proc where
  "sample_daemon = \<lparr>p_stat = stat_line 4242 ''free_proxy'' sample_fields,
     p_exe = Some ''/usr/local/bin/free_proxy'',
     p_cmdline = ''/usr/local/bin/free_proxy'' @ CHR 0x00 # ''run'' @ CHR 0x00 # [],
     p_status = ''PPid: 1'' @ [newline], p_sid = 4242, p_pgid = 4242\<rparr>"

definition sample_other :: proc where
  "sample_other = \<lparr>p_stat = stat_line 77 ''sleep'' sample_fields, p_exe = Some ''/bin/sleep'',
     p_cmdline = ''sleep'' @ CHR 0x00 # ''run'' @ CHR 0x00 # [], p_status = ''PPid: 1'' @ [newline],
     p_sid = 77, p_pgid = 77\<rparr>"

definition busy_world :: "unit world" where
  "busy_world = empty_world ()\<lparr>procs := [(77, sample_other), (4242, sample_daemon)]\<rparr>"

definition plain_os :: "unit os" where
  "plain_os = quiet_os (\<lambda>_ _. (True, ()))\<lparr>listing := (\<lambda>_ _. [''1'', ''77'', ''4242'', ''self''])\<rparr>"

lemma map_of_filter_pairs: "map_of (filter (\<lambda>(q, p). P q p) ps) q = Some p \<Longrightarrow> (q, p) \<in> set ps"
  by (auto dest: map_of_SomeD)

text \<open>Dropping processes with distinct ids keeps a table sane; here only keys matter.\<close>

lemma sane_plain_os: "sane_os (plain_os\<lparr>deliver := (\<lambda>_ t _ ps. if t = - 4242 \<or> t = 4242 then [] else ps)\<rparr>)"
  by (auto simp: sane_os_def plain_os_def quiet_os_def sane_table_def)

lemma sane_busy: "sane_table (procs busy_world)"
  by (auto simp: sane_table_def busy_world_def empty_world_def)

theorem stop_signals_only_daemons_witness:
  "\<exists>new. signals (snd (fp_stop_daemon
       (plain_os\<lparr>deliver := (\<lambda>_ t _ ps. if t = - 4242 \<or> t = 4242 then [] else ps)\<rparr>) busy_world)) = new
     \<and> (\<forall>e \<in> set new. 1 < \<bar>sig_target e\<bar>)"
proof -
  obtain r w' where f: "fp_stop_daemon
    (plain_os\<lparr>deliver := (\<lambda>_ t _ ps. if t = - 4242 \<or> t = 4242 then [] else ps)\<rparr>) busy_world = (r, w')" by force
  from stop_signals_only_daemons [OF sane_plain_os sane_busy f] show ?thesis
    using f by (auto simp: busy_world_def empty_world_def)
qed

lemma record_read_back:
  assumes "files w FP_PID_PATH = Some (record_text pid start config)" and "1 < pid" "pid < 2 ^ 31"
    and "parse_start_time st = Some start" and "faults os = (\<lambda>_. False)"
  shows "read_process_record os w = (Some \<lparr>rec_pid = int pid, rec_start = start, rec_addr = proxy_addr config,
      rec_port = proxy_port config\<rparr>, w\<lparr>tick := Suc (tick w)\<rparr>)"
  using assms parse_start_time_bound [OF assms(4)]
  by (simp add: read_process_record_def sys_open_read_def sys_fault_def parse_record_text)

lemma daemon_matches_record:
  assumes "files w FP_PID_PATH = Some (record_text pid start config)" and "1 < pid" "pid < 2 ^ 31"
    and "map_of (procs w) (int pid) = Some p" and "p_exe p = Some exe" and "parse_start_time (p_stat p) = Some start"
    and "exe_is_free_proxy (take 4095 exe)" and "surely_run (p_cmdline p)" and "faults os = (\<lambda>_. False)"
  shows "fst (fp_daemon_matches_config os config w)"
  using record_read_back [OF assms(1-3,6,9)] process_is_ours_quiet [OF assms(9), of "w\<lparr>tick := Suc (tick w)\<rparr>" "int pid" p exe start]
    assms(4-8)
  by (simp add: fp_daemon_matches_config_def split: prod.splits)

text \<open>
  The record a daemon writes is read back as its own process id, start time and proxy: an
  observer recognises the daemon exactly for the configuration it was started with, and no longer
  once that process is gone or its id belongs to a process with another start time.
\<close>

theorem daemon_recognised:
  assumes "fp_write_pid os config w = (ok, w')" and "1 < self_pid os" "self_pid os < 2 ^ 31"
    and "map_of (procs w) (int (self_pid os)) = Some p" and "p_exe p = Some exe"
    and "exe_is_free_proxy (take 4095 exe)" and "surely_run (p_cmdline p)"
    and "faults os' = (\<lambda>_. False)" and "files w2 FP_PID_PATH = files w' FP_PID_PATH"
    and "case map_of (procs w2) (int (self_pid os)) of None \<Rightarrow> True
       | Some q \<Rightarrow> q = p \<or> parse_start_time (p_stat q) \<noteq> parse_start_time (p_stat p)"
  shows "fst (fp_daemon_matches_config os' config' w2) \<longleftrightarrow>
    map_of (procs w2) (int (self_pid os)) = Some p
    \<and> proxy_port config' = proxy_port config \<and> proxy_addr config' = proxy_addr config"
proof -
  obtain start where st: "parse_start_time (p_stat p) = Some start"
    "files w' FP_PID_PATH = Some (record_text (self_pid os) start config)"
    using fp_write_pid_ok [OF assms(1)] assms(4) by auto
  let ?pid = "int (self_pid os)"
  let ?w = "w2\<lparr>tick := Suc (tick w2)\<rparr>"
  have r: "read_process_record os' w2 = (Some \<lparr>rec_pid = ?pid, rec_start = start, rec_addr = proxy_addr config,
      rec_port = proxy_port config\<rparr>, ?w)"
    by (rule record_read_back [OF _ assms(2,3) st(1) assms(8)]) (simp add: st(2) assms(9))
  have "fst (process_is_ours os' ?pid start ?w) \<longleftrightarrow> map_of (procs w2) ?pid = Some p"
  proof (cases "map_of (procs w2) ?pid = Some p")
    case True
    with process_is_ours_quiet [OF assms(8), of ?w ?pid p exe start] assms(5-7) st(1) show ?thesis by simp
  next
    case False
    have "\<not> b" if "process_is_ours os' ?pid start ?w = (b, v)" for b v
      using process_is_ours_True [of os' ?pid start ?w v] that False assms(10) st(1) by (cases b) auto
    with False show ?thesis by (metis prod.collapse)
  qed
  then show ?thesis
    by (auto simp: fp_daemon_matches_config_def r split: prod.splits)
qed

lemma sample_daemon_start: "parse_start_time (p_stat sample_daemon) = Some 4711"
  unfolding sample_daemon_def proc.select_convs
  by (rule parse_stat_line [OF sample_fields_ok(1,2) _ sample_fields_ok(3)])
    (simp_all add: stat_line_def sample_fields_text dec.simps)

lemma plain_os_sel [simp]: "faults plain_os = (\<lambda>_. False)" "self_pid plain_os = 4242"
  by (simp_all add: plain_os_def)

lemma busy_write: "\<exists>w'. fp_write_pid plain_os sample_config busy_world = (ok, w') \<and> procs w' = procs busy_world"
  using sample_daemon_start
  by (simp add: fp_write_pid_def ensure_runtime_dir_def process_start_time_def quiet_sys_proc sys_defs
      busy_world_def empty_world_def Let_def)

lemma sample_daemon_runs:
  "p_exe sample_daemon = Some ''/usr/local/bin/free_proxy''" "surely_run (p_cmdline sample_daemon)"
  "exe_is_free_proxy (take 4095 ''/usr/local/bin/free_proxy'')"
  using surely_runI [of "''/usr/local/bin/free_proxy''" "[]"]
  by (simp_all add: sample_daemon_def exe_is_free_proxy_def strrchr_split_def)

theorem daemon_recognised_witness:
  "\<exists>w. fp_write_pid plain_os sample_config busy_world = (ok, w)
     \<and> fst (fp_daemon_matches_config plain_os sample_config w)"
proof -
  obtain w where w: "fp_write_pid plain_os sample_config busy_world = (ok, w)" "procs w = procs busy_world"
    using busy_write by blast
  have p: "map_of (procs busy_world) 4242 = Some sample_daemon" by (simp add: busy_world_def)
  have "fst (fp_daemon_matches_config plain_os sample_config w)"
    using daemon_recognised [OF w(1), of sample_daemon "''/usr/local/bin/free_proxy''" plain_os w sample_config] p w(2)
      sample_daemon_runs by simp
  with w show ?thesis by blast
qed

end
