(* ===== verification/Daemon.thy ===== *)
theory Daemon
  imports Firewall Process
begin

text \<open>
  Starting the daemon: \<open>fp_start_daemon\<close> (\<open>src/process.c\<close>), what its child does from \<open>main\<close>
  (\<open>src/main.c\<close>, command \<open>run\<close>) through the start of \<open>fp_proxy_run\<close> (\<open>src/proxy.c\<close>) to the
  readiness byte, and what it does at its end. The accept loop between the two is in \<open>Accept\<close>,
  the statistics file's contents in \<open>Stats\<close>.
\<close>

section \<open>The child\<close>

text \<open>\<open>fp_stats_create\<close> and \<open>fp_stats_close\<close> as far as the file system sees them.\<close>

definition stats_create :: "'k os \<Rightarrow> 'k world \<Rightarrow> int \<times> 'k world" where
  "stats_create os w =
     (let (r, w) = ensure_runtime_dir os w in
      if r \<noteq> ok then (fail, w)
      else
        let w = stats_unlink os w in
        if files w FP_STATS_PATH \<noteq> None then (fail, w)
        else let (opened, w) = sys_create os FP_STATS_PATH w in
        if \<not> opened then (fail, w)
        else let (sized, w) = sys_check os w in
        if \<not> sized then (fail, stats_unlink os w)
        else let (mapped, w) = sys_check os w in
        if \<not> mapped then (fail, stats_unlink os w) else (ok, w))"

definition stats_close :: "'k os \<Rightarrow> bool \<Rightarrow> 'k world \<Rightarrow> 'k world" where
  "stats_close os owner w = (if owner then stats_unlink os w else w)"

text \<open>
  The listening socket, then statistics, process record and firewall. The result says whether the
  readiness byte is \<open>R\<close>; otherwise it is \<open>E\<close> and everything has been taken back.
\<close>

definition proxy_startup :: "'k os \<Rightarrow> fp_config \<Rightarrow> 'k world \<Rightarrow> (bool \<times> 'k world) option" where
  "proxy_startup os config w =
     (let busy = port_busy os (tick w) (procs w); (f, w) = sys_fault os w in
      if f \<or> busy then Some (False, w)
      else
        let (created, w) = stats_create os w;
            (written, w) = (if created = ok then fp_write_pid os config w else (fail, w)) in do {
          (r, w) \<leftarrow> (if written = ok then fp_firewall_enable os config w else Some (fail, w));
          if r \<noteq> ok then do {
            let w = stats_close os (created = ok) (fp_remove_pid os w);
            (_, w) \<leftarrow> fp_firewall_disable os w;
            Some (False, w) }
          else Some (True, w) })"

text \<open>The end of \<open>fp_proxy_run\<close> and of \<open>main\<close> after the loop.\<close>

definition proxy_shutdown :: "'k os \<Rightarrow> 'k world \<Rightarrow> (int \<times> 'k world) option" where
  "proxy_shutdown os w = do {
     let w = stats_close os True (fp_remove_pid os w);
     (_, w) \<leftarrow> fp_firewall_disable os w;
     Some (ok, w) }"

text \<open>
  \<open>main run\<close> up to the readiness byte: the configuration comes from the file. A failed start goes
  through \<open>main\<close>'s own \<open>fp_firewall_disable\<close>, except when the configuration cannot be loaded.
\<close>

definition run_main :: "'k os \<Rightarrow> 'k world \<Rightarrow> (bool \<times> 'k world) option" where
  "run_main os w =
     (case fp_config_load os empty_config w of ((r, config), w) \<Rightarrow>
      if r \<noteq> ok then Some (False, w)
      else do {
        (ready, w) \<leftarrow> proxy_startup os config w;
        if ready then Some (True, w)
        else do { (_, w) \<leftarrow> fp_firewall_disable os w; Some (False, w) } })"

definition add_proc :: "int \<Rightarrow> proc \<Rightarrow> 'k world \<Rightarrow> 'k world" where
  "add_proc pid p w = w\<lparr>procs := (pid, p) # procs w\<rparr>"

definition drop_proc :: "int \<Rightarrow> 'k world \<Rightarrow> 'k world" where
  "drop_proc pid w = w\<lparr>procs := filter (\<lambda>(q, _). q \<noteq> pid) (procs w)\<rparr>"

text \<open>
  The child, seen by the waiting parent: \<^const>\<open>True\<close> if it reports \<open>R\<close> in time and stays.
  If it reports \<open>E\<close> or nothing in time, the parent sends \<open>SIGTERM\<close> and waits for its end; a child
  that is late finds \<open>keep_running\<close> cleared after its start and shuts down.
\<close>

definition run_child :: "'k os \<Rightarrow> 'k world \<Rightarrow> (bool \<times> 'k world) option" where
  "run_child os w =
     (case child os (tick w) of (outcome, pid, p) \<Rightarrow>
      (let w = add_proc (int pid) p w; os' = os\<lparr>self_pid := pid\<rparr> in
       case outcome of
         NeverRan \<Rightarrow> Some (False, drop_proc (int pid) (snd (sys_kill os (int pid) SIGTERM w)))
       | InTime \<Rightarrow> do {
           (ready, w) \<leftarrow> run_main os' w;
           if ready then Some (True, w)
           else Some (False, drop_proc (int pid) (snd (sys_kill os (int pid) SIGTERM w))) }
       | TooLate \<Rightarrow> do {
           let w = snd (sys_kill os (int pid) SIGTERM w);
           (ready, w) \<leftarrow> run_main os' w;
           (_, w) \<leftarrow> (if ready then proxy_shutdown os' w else Some (ok, w));
           Some (False, drop_proc (int pid) w) }))"

section \<open>The parent\<close>

definition fp_start_daemon :: "'k os \<Rightarrow> fp_config \<Rightarrow> 'k world \<Rightarrow> (int \<times> 'k world) option" where
  "fp_start_daemon os config w =
     (let (record, w) = read_process_record os w;
          (verdict, w) = (case record of
              None \<Rightarrow> (let (r, w) = stop_untracked_daemons os w in (if r \<noteq> ok then Some fail else None, w))
            | Some rc \<Rightarrow>
                (let (ours, w) = process_is_ours os (rec_pid rc) (rec_start rc) w in
                 if ours \<and> rec_port rc = proxy_port config \<and> rec_addr rc = proxy_addr config
                 then (Some ok, w)
                 else (let (r, w) = fp_stop_daemon os w in (if r \<noteq> ok then Some fail else None, w))))
      in case verdict of
           Some r \<Rightarrow> Some (r, w)
         | None \<Rightarrow>
             (let w = stats_unlink os (fp_remove_pid os w); (f, w) = sys_fault os w in
              if f \<or> self_exe os = None then Some (fail, w)
              else let (no_pipe, w) = sys_fault os w in
              if no_pipe then Some (fail, w)
              else let (no_fork, w) = sys_spawn_fault os w in
              if no_fork then Some (fail, w)
              else do { (ready, w) \<leftarrow> run_child os w; Some (if ready then ok else fail, w) }))"

section \<open>What starting leaves alone\<close>

lemma only_nat_kept: "only_nat w w' \<Longrightarrow> kept_files w' = kept_files w"
  by (simp add: only_nat_def kept_files_same)

lemmas firewall_kept = only_nat_kept [OF fp_firewall_enable_only] only_nat_kept [OF fp_firewall_disable_only]
  only_nat_kept [OF fp_firewall_is_enabled_only]

lemma stats_create_kept: "stats_create os w = (r, w') \<Longrightarrow> kept w' = kept w"
  unfolding stats_create_def
  by (auto simp: Let_def dest!: read_kept(5) sys_kept sys_kept_run(1) [rotated]
      split: prod.splits if_splits)

lemma stats_close_kept [simp]: "kept (stats_close os b w) = kept w"
  by (simp add: stats_close_def)

lemma kept_files_kept: "kept w' = kept w \<Longrightarrow> kept_files w' = kept_files w"
  by (simp add: kept_def)

lemma unlink_kept_files [simp]:
  "kept_files (fp_remove_pid os w) = kept_files w" "kept_files (stats_unlink os w) = kept_files w"
  "kept_files (stats_close os b w) = kept_files w"
  by (rule kept_files_kept; simp)+

lemma add_proc_sel [simp]:
  "files (add_proc pid p w) = files w" "nat_tab (add_proc pid p w) = nat_tab w"
  "files (drop_proc pid w) = files w" "nat_tab (drop_proc pid w) = nat_tab w"
  by (simp_all add: add_proc_def drop_proc_def)

lemma add_proc_kept [simp]:
  "kept_files (add_proc pid p w) = kept_files w" "kept_files (drop_proc pid w) = kept_files w"
  by (simp_all add: kept_files_def)

lemma snd_kill_kept [simp]:
  "kept_files (snd (sys_kill os target sig w)) = kept_files w" "nat_tab (snd (sys_kill os target sig w)) = nat_tab w"
  using sys_kept(8) [of os target sig w] by (auto simp: kept_def prod_eq_iff)

lemma fp_config_load_kept:
  "fp_config_load os d w = (rc, w') \<Longrightarrow> kept w' = kept w"
  by (cases rc) (auto intro: kept_read dest: fp_config_load_stored)

lemma proxy_startup_kept:
  assumes "proxy_startup os config w = Some (ready, w')"
  shows "kept_files w' = kept_files w"
  using assms unfolding proxy_startup_def
  by (auto simp: Let_def dest!: sys_kept(1) [THEN kept_files_kept] stats_create_kept [THEN kept_files_kept]
      fp_write_pid_kept [THEN kept_files_kept] firewall_kept split: prod.splits if_splits Option.bind_splits)

lemma proxy_shutdown_kept: "proxy_shutdown os w = Some (r, w') \<Longrightarrow> kept_files w' = kept_files w"
  by (auto simp: proxy_shutdown_def dest!: firewall_kept split: prod.splits Option.bind_splits)

lemma run_main_kept: "run_main os w = Some (ready, w') \<Longrightarrow> kept_files w' = kept_files w"
  unfolding run_main_def
  by (auto dest!: fp_config_load_kept [THEN kept_files_kept] proxy_startup_kept firewall_kept
      split: prod.splits if_splits Option.bind_splits)

lemma run_child_kept: "run_child os w = Some (ready, w') \<Longrightarrow> kept_files w' = kept_files w"
  unfolding run_child_def
  by (auto simp: Let_def dest!: run_main_kept proxy_shutdown_kept
      split: prod.splits if_splits Option.bind_splits launch.splits)

lemma fp_start_daemon_kept: "fp_start_daemon os config w = Some (r, w') \<Longrightarrow> kept_files w' = kept_files w"
  unfolding fp_start_daemon_def
  by (auto simp: Let_def dest!: run_child_kept process_kept [THEN kept_files_kept]
      stop_untracked_kept [THEN kept_files_kept] process_is_ours_kept [THEN kept_files_kept]
      sys_kept [THEN kept_files_kept]
      split: prod.splits if_splits Option.bind_splits option.splits)

section \<open>What starting does to the firewall\<close>

text \<open>Only the command's behaviour matters to the assumptions on it, not who runs it.\<close>

lemma ipt_other_self [simp]:
  "ipt_sound (os\<lparr>self_pid := p\<rparr>) view \<longleftrightarrow> ipt_sound os view"
  "ipt_exact (os\<lparr>self_pid := p\<rparr>) view \<longleftrightarrow> ipt_exact os view"
  by (simp_all add: ipt_sound_def ipt_exact_def)

lemma stored_config_kept: "kept_files w' = kept_files w \<Longrightarrow> stored_config w' = stored_config w"
  by (rule stored_config_cong) (rule kept_files_config)

lemma proxy_startup_ready:
  assumes "ipt_sound os view" and "proxy_startup os config w = Some (True, w')"
  shows "installed config (view (nat_tab w'))"
  using assms(2) unfolding proxy_startup_def
  by (auto simp: Let_def split: prod.splits if_splits Option.bind_splits dest: enable_installed [OF assms(1)])

lemma run_main_ready:
  assumes "ipt_sound os view" and "run_main os w = Some (True, w')"
  shows "\<exists>c. stored_config w = Some c \<and> installed c (view (nat_tab w'))"
  using assms(2) unfolding run_main_def
  by (auto split: prod.splits if_splits Option.bind_splits
      dest: proxy_startup_ready [OF assms(1)] fp_config_load_stored(1))

lemma run_child_ready:
  assumes "ipt_sound os view" and "run_child os w = Some (True, w')"
  shows "\<exists>c. stored_config w = Some c \<and> installed c (view (nat_tab w'))"
proof -
  obtain p pr where "run_main (os\<lparr>self_pid := p\<rparr>) (add_proc (int p) pr w) = Some (True, w')"
    using assms(2) unfolding run_child_def
    by (auto simp: Let_def split: prod.splits if_splits Option.bind_splits launch.splits)
  from run_main_ready [OF _ this, of view] assms(1) show ?thesis by (simp add: stored_config_def)
qed

text \<open>
  A start that succeeds without finding a daemon that already runs for the configuration has
  installed the rules for the stored configuration.
\<close>

lemma fp_start_daemon_ready:
  assumes s: "ipt_sound os view" and "fp_start_daemon os config w = Some (ok, w')"
    and n: "\<And>rc w1 w2. read_process_record os w = (Some rc, w1) \<Longrightarrow>
       process_is_ours os (rec_pid rc) (rec_start rc) w1 \<noteq> (True, w2)"
  shows "\<exists>c. stored_config w = Some c \<and> installed c (view (nat_tab w'))"
proof -
  have "\<exists>w1. kept_files w1 = kept_files w \<and> run_child os w1 = Some (True, w')"
    using assms(2) n unfolding fp_start_daemon_def
    by (auto simp: Let_def dest!: process_kept [THEN kept_files_kept]
        stop_untracked_kept [THEN kept_files_kept] process_is_ours_kept [THEN kept_files_kept]
        sys_kept [THEN kept_files_kept]
        split: prod.splits if_splits Option.bind_splits option.splits)
  then show ?thesis using run_child_ready [OF s] stored_config_kept by metis
qed

section \<open>Starting always returns\<close>

lemma disable_returns: "ipt_sound os view \<Longrightarrow> fp_firewall_disable os w \<noteq> None"
  using fp_firewall_disable_total [of os view w] by auto

lemma enable_returns: "ipt_sound os view \<Longrightarrow> fp_firewall_enable os config w \<noteq> None"
  using fp_firewall_enable_outcome [of os view config w] by (auto simp: install_outcome_def)

lemma proxy_startup_returns: "ipt_sound os view \<Longrightarrow> proxy_startup os config w \<noteq> None"
  unfolding proxy_startup_def
  by (auto simp: Let_def split: prod.splits Option.bind_splits dest: disable_returns enable_returns)

lemma proxy_shutdown_returns: "ipt_sound os view \<Longrightarrow> proxy_shutdown os w \<noteq> None"
  using fp_firewall_disable_total [of os view "stats_close os True (fp_remove_pid os w)"]
  by (auto simp: proxy_shutdown_def)

lemma run_main_returns: "ipt_sound os view \<Longrightarrow> run_main os w \<noteq> None"
  unfolding run_main_def
  by (auto split: prod.splits Option.bind_splits dest: disable_returns proxy_startup_returns)

lemma run_child_returns:
  assumes "ipt_sound os view"
  shows "run_child os w \<noteq> None"
proof -
  have m: "run_main (os\<lparr>self_pid := p\<rparr>) x = None \<longleftrightarrow> False"
    and d: "proxy_shutdown (os\<lparr>self_pid := p\<rparr>) x = None \<longleftrightarrow> False" for p x
    using assms run_main_returns proxy_shutdown_returns by (metis ipt_other_self(1))+
  obtain outcome pid p where c: "child os (tick w) = (outcome, pid, p)" by (metis prod_cases3)
  show ?thesis
    by (cases outcome) (auto simp: run_child_def c Let_def m d bind_eq_None_conv simp del: not_None_eq split: prod.splits)
qed

lemma fp_start_daemon_returns: "ipt_sound os view \<Longrightarrow> fp_start_daemon os config w \<noteq> None"
  unfolding fp_start_daemon_def
  by (auto simp: Let_def split: prod.splits Option.bind_splits option.splits dest: run_child_returns)

end
