(* ===== verification/Systemd.thy ===== *)
theory Systemd
  imports Config
begin

text \<open>
  Starting at boot (\<open>src/systemd.c\<close>): the unit file and the external \<open>systemctl\<close>, whose exit
  status, and whose effect on the running processes, is the parameter \<open>systemctl os\<close>.
\<close>

definition FP_UNIT_PATH :: string where
  "FP_UNIT_PATH = ''/etc/systemd/system/free_proxy.service''"
definition FP_INSTALLED_BINARY :: string where
  "FP_INSTALLED_BINARY = ''/usr/local/bin/free_proxy''"

definition systemctl_available :: "'k os \<Rightarrow> bool" where
  "systemctl_available os \<longleftrightarrow> executable os ''/bin/systemctl'' \<or> executable os ''/usr/bin/systemctl''"

text \<open>\<open>fork\<close>, \<open>execlp\<close> and \<open>waitpid\<close> around one command: whether it was run and exited with 0.\<close>

definition spawn_systemctl :: "'k os \<Rightarrow> string list \<Rightarrow> 'k world \<Rightarrow> bool \<times> 'k world" where
  "spawn_systemctl os args w =
     (let n = tick w; (no_fork, w) = sys_spawn_fault os w in
      if no_fork then (False, w)
      else
        let (exit0, ps) = systemctl os n args (procs w); w = w\<lparr>procs := ps\<rparr>;
            (no_wait, w) = sys_spawn_fault os w
        in (\<not> no_wait \<and> exit0, w))"

definition run_systemctl :: "'k os \<Rightarrow> string \<Rightarrow> 'k world \<Rightarrow> int \<times> 'k world" where
  "run_systemctl os action w =
     (if \<not> systemctl_available os then (fail, w)
      else let (done, w) = spawn_systemctl os [action, ''free_proxy.service''] w in
        (if done then ok else fail, w))"

definition reload_systemd :: "'k os \<Rightarrow> 'k world \<Rightarrow> int \<times> 'k world" where
  "reload_systemd os w =
     (if \<not> systemctl_available os then (fail, w)
      else let (done, w) = spawn_systemctl os [''daemon-reload''] w in (if done then ok else fail, w))"

definition fp_autostart_is_enabled :: "'k os \<Rightarrow> 'k world \<Rightarrow> bool \<times> 'k world" where
  "fp_autostart_is_enabled os w =
     (if \<not> systemctl_available os then (False, w)
      else let (readable, w) = sys_access os FP_UNIT_PATH w in
      if \<not> readable then (False, w)
      else spawn_systemctl os [''is-enabled'', ''--quiet'', ''free_proxy.service''] w)"

definition fp_autostart_enable :: "'k os \<Rightarrow> 'k world \<Rightarrow> int \<times> 'k world" where
  "fp_autostart_enable os w =
     (let (configured, w) = fp_config_exists os w in
      if \<not> configured then (fail, w)
      else if \<not> systemctl_available os then (fail, w)
      else if \<not> executable os FP_INSTALLED_BINARY then (fail, w)
      else let (readable, w) = sys_access os FP_UNIT_PATH w in
      if \<not> readable then (fail, w)
      else run_systemctl os ''enable'' w)"

definition fp_autostart_disable :: "'k os \<Rightarrow> 'k world \<Rightarrow> int \<times> 'k world" where
  "fp_autostart_disable os w =
     (if \<not> systemctl_available os then (ok, w)
      else let (readable, w) = sys_access os FP_UNIT_PATH w in
      if \<not> readable then (ok, w)
      else let (r, w) = run_systemctl os ''disable'' w in
      if r = ok then (ok, w)
      else let (enabled, w) = fp_autostart_is_enabled os w in (if enabled then fail else ok, w))"

definition fp_autostart_remove :: "'k os \<Rightarrow> 'k world \<Rightarrow> int \<times> 'k world" where
  "fp_autostart_remove os w =
     (let w = (if systemctl_available os
               then snd (run_systemctl os ''stop'' (snd (run_systemctl os ''disable'' w))) else w);
          (e, w) = sys_unlink os FP_UNIT_PATH w;
          (left, w) = (if e \<noteq> None \<and> e \<noteq> Some ENOENT then sys_access os FP_UNIT_PATH w else (False, w)) in
      if left then (fail, w)
      else (ok, if systemctl_available os then snd (reload_systemd os w) else w))"

end
