(* ===== verification/Operations.thy ===== *)
theory Operations
  imports Daemon Systemd
begin

text \<open>
  What the commands do (\<open>src/operations.c\<close>): each operation
  takes the lock, changes the stored configuration, the daemon and the firewall in order, and
  takes back what it did when a later step fails.
\<close>

section \<open>Operations\<close>

text \<open>\<open>&&\<close> of two steps that return 0 for success, and the unconditional cleanup.\<close>

definition activate_proxy_locked :: "'k os \<Rightarrow> fp_config \<Rightarrow> 'k world \<Rightarrow> (int \<times> 'k world) option" where
  "activate_proxy_locked os config w =
     (let (matches, w) = fp_daemon_matches_config os config w;
          (enabled, w) = (if matches then fp_firewall_is_enabled os config w else (False, w)) in
      if enabled then Some (ok, w)
      else
        let (pid, w) = fp_read_pid os w;
            (stopped, w) = (if pid > 1 then fp_stop_daemon os w else (ok, w)) in
        if stopped \<noteq> ok then Some (fail, w)
        else do {
          (r, w) \<leftarrow> fp_firewall_disable os w;
          (r, w) \<leftarrow> (if r \<noteq> ok then Some (fail, w) else fp_start_daemon os config w);
          if r \<noteq> ok then do { (_, w) \<leftarrow> fp_firewall_disable os w; Some (fail, w) }
          else Some (ok, w) })"

definition fp_enable_proxy :: "'k os \<Rightarrow> string \<Rightarrow> 'k world \<Rightarrow> (int \<times> 'k world) option" where
  "fp_enable_proxy os proxy w =
     (let (lock_fd, w) = fp_lock_acquire os w in
      if lock_fd < 0 then Some (fail, w)
      else (case fp_parse_proxy proxy empty_config of (r, config) \<Rightarrow>
        if r \<noteq> ok then Some (fail, w)
        else
          let ((r, previous), w) = fp_config_load os empty_config w;
              had_previous = (r = ok);
              config = (if had_previous then config\<lparr>bypass := bypass previous\<rparr> else config);
              (pid, w) = fp_read_pid os w; was_running = (pid > 1);
              (saved, w) = fp_config_save os config w in
          if saved \<noteq> ok then Some (fail, w)
          else do {
            (result, w) \<leftarrow> activate_proxy_locked os config w;
            if result \<noteq> ok \<and> had_previous then do {
              let w = snd (fp_config_save os previous w);
              (_, w) \<leftarrow> (if was_running then activate_proxy_locked os previous w else Some (ok, w));
              Some (result, w) }
            else Some (result, w) }))"

definition fp_enable_saved_proxy :: "'k os \<Rightarrow> 'k world \<Rightarrow> (int \<times> 'k world) option" where
  "fp_enable_saved_proxy os w =
     (let (lock_fd, w) = fp_lock_acquire os w in
      if lock_fd < 0 then Some (fail, w)
      else (case fp_config_load os empty_config w of ((r, config), w) \<Rightarrow>
        if r \<noteq> ok then Some (fail, w) else activate_proxy_locked os config w))"

definition fp_set_bypass :: "'k os \<Rightarrow> string \<Rightarrow> 'k world \<Rightarrow> (int \<times> 'k world) option" where
  "fp_set_bypass os bypass_list w =
     (let (lock_fd, w) = fp_lock_acquire os w in
      if lock_fd < 0 then Some (fail, w)
      else (case fp_config_load os empty_config w of ((r, previous), w) \<Rightarrow>
        if r \<noteq> ok then Some (fail, w)
        else (case fp_parse_bypass_list (Some bypass_list) previous of (r, config) \<Rightarrow>
          if r \<noteq> ok then Some (fail, w)
          else
            let (pid, w) = fp_read_pid os w; was_running = (pid > 1);
                (saved, w) = fp_config_save os config w in do {
              (applied, w) \<leftarrow> (if saved = ok \<and> was_running then fp_firewall_enable os config w
                                else Some (saved, w));
              if applied \<noteq> ok then do {
                let w = snd (fp_config_save os previous w);
                (_, w) \<leftarrow> (if was_running then fp_firewall_enable os previous w else Some (ok, w));
                Some (fail, w) }
              else Some (ok, w) })))"

definition fp_disable_proxy :: "'k os \<Rightarrow> 'k world \<Rightarrow> (int \<times> 'k world) option" where
  "fp_disable_proxy os w =
     (let (lock_fd, w) = fp_lock_acquire os w in
      if lock_fd < 0 then Some (fail, w)
      else let (daemon_result, w) = fp_stop_daemon os w in do {
        (firewall_result, w) \<leftarrow> fp_firewall_disable os w;
        Some (if firewall_result = ok \<and> daemon_result = ok then ok else fail, w) })"

definition fp_uninstall :: "'k os \<Rightarrow> 'k world \<Rightarrow> (int \<times> 'k world) option" where
  "fp_uninstall os w =
     (let (lock_fd, w) = fp_lock_acquire os w in
      if lock_fd < 0 then Some (fail, w)
      else
        let (service_result, w) = fp_autostart_remove os w;
            (stop_result, w) = fp_stop_daemon os w in do {
          (firewall_result, w) \<leftarrow> fp_firewall_disable os w;
          let (stop_result, w) = (if stop_result \<noteq> ok then fp_stop_daemon os w else (ok, w));
          (firewall_result, w) \<leftarrow>
            (if firewall_result \<noteq> ok then fp_firewall_disable os w else Some (ok, w));
          let w = fp_remove_pid os w;
          let w = snd (sys_unlink os FP_CONFIG_PATH w);
          let w = snd (sys_unlink os FP_UI_LANGUAGE_PATH w);
          let w = snd (sys_unlink os FP_LOCK_PATH w);
          let w = snd (sys_rmdir os FP_RUNTIME_DIR w);
          let w = snd (sys_rmdir os FP_CONFIG_DIR w);
          let (e, w) = sys_unlink os FP_INSTALLED_BINARY w;
          let (left, w) = (if e \<noteq> None then sys_access os FP_INSTALLED_BINARY w else (False, w));
          Some (if service_result = ok \<and> stop_result = ok \<and> firewall_result = ok \<and> \<not> left
                then ok else fail, w) })"

section \<open>Status\<close>

record fp_status =
  config_present :: bool
  config_valid :: bool
  daemon_running :: bool
  firewall_enabled :: bool
  autostart_enabled :: bool
  daemon_pid :: int
  proxy_text :: string
  bypass_shown :: string

text \<open>One pass of the loop that joins the direct list in the fixed buffer.\<close>

definition append_shown :: "bool \<Rightarrow> fp_bypass \<Rightarrow> string \<Rightarrow> string" where
  "append_shown first b shown =
     shown @ snprintf (FP_BYPASS_TEXT_SIZE - length shown) ((if first then '''' else '','') @ btext b)"

fun show_bypass :: "fp_bypass list \<Rightarrow> bool \<Rightarrow> string \<Rightarrow> string" where
  "show_bypass [] first shown = shown"
| "show_bypass (b # bs) first shown = show_bypass bs False (append_shown first b shown)"

definition fp_collect_status :: "'k os \<Rightarrow> 'k world \<Rightarrow> fp_status \<times> 'k world" where
  "fp_collect_status os w =
     (let (present, w) = fp_config_exists os w;
          (pid, w) = fp_read_pid os w;
          (running, w) = (if pid > 1 then (case sys_kill os pid 0 w of (e, w) \<Rightarrow> (e = None, w)) else (False, w));
          (autostart, w) = fp_autostart_is_enabled os w;
          status = \<lparr>config_present = present, config_valid = False, daemon_running = running,
            firewall_enabled = False, autostart_enabled = autostart, daemon_pid = pid,
            proxy_text = '''', bypass_shown = ''''\<rparr> in
      if \<not> present then (status, w)
      else (case fp_config_load os empty_config w of ((r, config), w) \<Rightarrow>
        if r \<noteq> ok then (status, w)
        else
          let address = inet_ntop (proxy_addr config);
              available = INET_ADDRSTRLEN + 7 - length address;
              printed = CHR '':'' # dec (unat (proxy_port config));
              (enabled, w) = fp_firewall_is_enabled os config w;
              shown = (if bypass config = [] then snprintf FP_BYPASS_TEXT_SIZE ''none''
                       else show_bypass (bypass config) True '''') in
          (status\<lparr>config_valid := length printed < available, firewall_enabled := enabled,
             proxy_text := address @ snprintf available printed, bypass_shown := shown\<rparr>, w)))"

end
