(* ===== verification/Operations_Correct.thy ===== *)
theory Operations_Correct
  imports Operations
begin

text \<open>
  What the operations promise. First their frames and the activation step, then the interface
  that joins the configuration store and the packet filter, then one theorem per operation: every
  one returns, enabling activates and a failed one restores, the direct list changes all or
  nothing, disabling and uninstalling leave no rules, start-up is all or nothing, and the status
  shows the configuration in full.
\<close>

section \<open>What the operations keep\<close>

lemma activate_kept:
  assumes "activate_proxy_locked os config w = Some (r, w')"
  shows "kept_files w' = kept_files w"
  using assms unfolding activate_proxy_locked_def
  by (auto simp: Let_def dest!: process_kept [THEN kept_files_kept] firewall_kept fp_start_daemon_kept
      split: prod.splits if_splits Option.bind_splits)

lemma fp_lock_acquire_same: "fp_lock_acquire os w = (fd, w') \<Longrightarrow> same_kernel w w' \<and> files w' FP_PID_PATH = files w FP_PID_PATH"
  by (auto simp: fp_lock_acquire_def ensure_runtime_dir_def sys_defs same_kernel_def Let_def
      FP_PID_PATH_def FP_LOCK_PATH_def split: prod.splits if_splits)

lemma stored_config_same: "kept w' = kept w \<Longrightarrow> stored_config w' = stored_config w"
  by (rule stored_config_kept) (rule kept_files_kept)

lemmas stored_kept = stored_config_same [OF fp_lock_acquire_kept] stored_config_same [OF fp_config_load_kept]
  stored_config_same [OF fp_read_pid_kept] stored_config_same [OF fp_stop_daemon_kept]
  stored_config_kept [OF activate_kept] stored_config_kept [OF firewall_kept(1)]
  stored_config_kept [OF firewall_kept(2)]

section \<open>The record on a machine where no call fails\<close>

lemma read_process_record_quiet:
  assumes "faults os = (\<lambda>_. False)"
  shows "fst (read_process_record os w) = Option.bind (files w FP_PID_PATH) parse_record"
  using assms by (simp add: read_process_record_def sys_open_read_def sys_fault_def split: option.split)

lemma fp_read_pid_quiet:
  assumes "faults os = (\<lambda>_. False)" and "files w' FP_PID_PATH = files w FP_PID_PATH"
  shows "fst (fp_read_pid os w') = fst (fp_read_pid os w)"
  using assms by (simp add: fp_read_pid_def read_process_record_def sys_open_read_def sys_fault_def split: option.split)

lemma FP_STATS_neq_PID [simp]: "FP_STATS_PATH \<noteq> FP_PID_PATH" "FP_PID_PATH \<noteq> FP_STATS_PATH"
  by (simp_all add: FP_STATS_PATH_def FP_PID_PATH_def)

lemma unlink_quiet: "faults os = (\<lambda>_. False) \<Longrightarrow> files (snd (sys_unlink os p w)) = (files w)(p := None)"
  by (auto simp: sys_unlink_def sys_fault_def)

lemma fp_stop_daemon_no_record:
  assumes "faults os = (\<lambda>_. False)" and "fp_stop_daemon os w = (ok, w')"
  shows "files w' FP_PID_PATH = None"
proof -
  obtain x where "w' = stats_unlink os (fp_remove_pid os x)"
    using assms(2) unfolding fp_stop_daemon_def by (auto simp: Let_def split: prod.splits if_splits)
  then show ?thesis by (simp add: stats_unlink_def fp_remove_pid_def unlink_quiet [OF assms(1)])
qed

section \<open>Activation\<close>

lemma ours_above_1:
  "sane_table (procs w) \<Longrightarrow> process_is_ours os pid start w = (True, w') \<Longrightarrow> pid > 1"
  using process_is_ours_True [of os pid start w w'] unfolding sane_table_def by (metis order_le_less)

text \<open>A record whose process id is not above 1 names no daemon, so a start does not stop at it.\<close>

lemma no_daemon_by_record:
  assumes q: "faults os = (\<lambda>_. False)" and s: "sane_table (procs w)"
    and p: "fst (fp_read_pid os w) \<le> 1" and r: "read_process_record os w = (Some rc, w1)"
  shows "process_is_ours os (rec_pid rc) start w1 \<noteq> (True, w2)"
proof
  assume o: "process_is_ours os (rec_pid rc) start w1 = (True, w2)"
  have "procs w1 = procs w" using read_process_record_same [OF r] by (simp add: same_kernel_def)
  with ours_above_1 [OF _ o] s have "rec_pid rc > 1" by simp
  with p r show False by (simp add: fp_read_pid_def)
qed

lemma fp_read_pid_same: "fp_read_pid os w = (pid, w') \<Longrightarrow> same_kernel w w' \<and> same_files w w'"
  by (auto simp: fp_read_pid_def read_process_record_def sys_open_read_def sys_fault_def same_kernel_def
      same_files_def split: prod.splits option.splits)

text \<open>After the old daemon has been stopped, or where there was none, a start finds no daemon.\<close>

lemma no_daemon_left:
  assumes q: "faults os = (\<lambda>_. False)" and t: "sane_table (procs w)"
    and 1: "fp_read_pid os w = (pid, w1)" and 2: "(if pid > 1 then fp_stop_daemon os w1 else (ok, w1)) = (ok, w2)"
    and k: "procs w3 = procs w2" "files w3 = files w2"
    and r: "read_process_record os w3 = (Some rc, w4)"
  shows "process_is_ours os (rec_pid rc) (rec_start rc) w4 \<noteq> (True, w5)"
proof (cases "pid > 1")
  case True
  with 2 fp_stop_daemon_no_record [OF q, of w1 w2] k have "files w3 FP_PID_PATH = None" by simp
  with read_process_record_quiet [OF q, of w3] r show ?thesis by simp
next
  case False
  with 2 k fp_read_pid_same [OF 1] have "procs w3 = procs w" "files w3 FP_PID_PATH = files w FP_PID_PATH"
    by (simp_all add: same_kernel_def same_files_def)
  with no_daemon_by_record [OF q _ _ r] fp_read_pid_quiet [OF q, of w3 w] 1 False t show ?thesis by simp
qed

lemma activate_on:
  assumes s: "ipt_sound os view" and q: "faults os = (\<lambda>_. False)" and t: "sane_table (procs w)"
    and c: "stored_config w = Some config"
    and a: "activate_proxy_locked os config w = Some (ok, w')"
  shows "firewall_on config (view (nat_tab w'))"
proof -
  obtain m w1 where 1: "fp_daemon_matches_config os config w = (m, w1)" by force
  obtain e w2 where 2: "(if m then fp_firewall_is_enabled os config w1 else (False, w1)) = (e, w2)" by force
  show ?thesis
  proof (cases e)
    case True
    then show ?thesis
      using a 1 2 filter.check_holds [OF s, of config w1 w2] by (auto simp: activate_proxy_locked_def split: if_splits)
  next
    case False
    obtain pid w3 where 3: "fp_read_pid os w2 = (pid, w3)" by force
    obtain r4 w4 where 4: "(if pid > 1 then fp_stop_daemon os w3 else (ok, w3)) = (r4, w4)" by force
    obtain w5 where 5: "fp_firewall_disable os w4 = Some (ok, w5)" "fp_start_daemon os config w5 = Some (ok, w')"
      using a 1 2 3 4 False
      by (auto simp: activate_proxy_locked_def Let_def split: Option.bind_splits if_splits)
    have r4: "r4 = ok" using a 1 2 3 4 False by (auto simp: activate_proxy_locked_def Let_def split: if_splits)
    have k1: "same_kernel w w1" using 1
      by (auto simp: fp_daemon_matches_config_def dest!: read_process_record_same process_is_ours_same
          intro: same_kernel_trans split: prod.splits option.splits)
    have k2: "procs w2 = procs w1" "files w2 = files w1"
      using 2 filter.check_rest [of os config w1 e w2] by (auto split: if_splits)
    have k5: "procs w5 = procs w4" "files w5 = files w4" using filter.disable_rest [OF 5(1)] by auto
    have t2: "sane_table (procs w2)" using t k1 k2 by (simp add: same_kernel_def)
    have "\<exists>c. stored_config w5 = Some c \<and> installed c (view (nat_tab w'))"
      by (rule fp_start_daemon_ready [OF s 5(2)])
        (rule no_daemon_left [OF q t2 3 4 [unfolded r4] k5])
    moreover have "stored_config w5 = stored_config w"
      using 1 2 3 4 5(1)
      by (auto dest!: fp_daemon_matches_config_kept [THEN stored_config_same] stored_kept
          firewall_kept(3) [THEN stored_config_kept] split: if_splits)
    ultimately show ?thesis using c installed_on by auto
  qed
qed

section \<open>The store and the filter together\<close>

text \<open>
  The pattern of \<open>fp_set_bypass\<close>, over the two interfaces: store the new content, apply it if the
  filter is in use, and on a failure store the old content again.
\<close>

locale managed_filter = config_store save stored good
  + packet_filter trusted enable disable check exact holds rest
  for save :: "'c \<Rightarrow> 'w \<Rightarrow> int \<times> 'w" and stored :: "'w \<Rightarrow> 'c option" and good :: "'c \<Rightarrow> bool"
    and trusted :: bool and enable :: "'c \<Rightarrow> 'w \<Rightarrow> (int \<times> 'w) option"
    and disable :: "'w \<Rightarrow> (int \<times> 'w) option" and check :: "'c \<Rightarrow> 'w \<Rightarrow> bool \<times> 'w"
    and exact :: "'c \<Rightarrow> 'w \<Rightarrow> bool" and holds :: "'c \<Rightarrow> 'w \<Rightarrow> bool" and rest :: "'w \<Rightarrow> 'r" +
  assumes stored_rest: "rest w' = rest w \<Longrightarrow> stored w' = stored w"
begin

lemma update_or_rollback:
  assumes t: "trusted" and g: "good c" "good c0" and p: "stored w = Some c0"
    and s1: "save c w = (s, w1)"
    and ap: "(if s = ok \<and> running then enable c w1 else Some (s, w1)) = Some (applied, w2)"
    and s2: "save c0 w2 = (s', w3)"
  shows "applied = ok \<Longrightarrow> stored w2 = Some c \<and> (running \<longrightarrow> exact c w2)"
    and "s' = ok \<Longrightarrow> stored w3 = Some c0"
proof -
  have k: "stored w2 = stored w1"
    using ap stored_rest [OF enable_rest [of c w1 applied w2]] by (auto split: if_splits)
  show "applied = ok \<Longrightarrow> stored w2 = Some c \<and> (running \<longrightarrow> exact c w2)"
    using ap k enable_exact [OF t, of c w1 w2] save_ok [OF g(1), of w w1] s1 by (auto split: if_splits)
  show "s' = ok \<Longrightarrow> stored w3 = Some c0"
    using save_ok [OF g(2), of w2 w3] s2 by auto
qed

end

interpretation managed: managed_filter "fp_config_save os" stored_config wf_config
  "ipt_sound os view" "fp_firewall_enable os" "fp_firewall_disable os" "fp_firewall_is_enabled os"
  "\<lambda>c w. installed c (view (nat_tab w))" "\<lambda>c w. firewall_on c (view (nat_tab w))"
  "\<lambda>w. (files w, dirs w, procs w, signals w)" for os view
  by unfold_locales (simp add: stored_config_def)

section \<open>Every operation returns\<close>

text \<open>A composition returns if its parts do.\<close>

lemma returns_intros:
  "Some x \<noteq> None"
  "m \<noteq> None \<Longrightarrow> (\<And>y. f y \<noteq> None) \<Longrightarrow> Option.bind m f \<noteq> None"
  "(\<And>y. f y \<noteq> None) \<Longrightarrow> Let v f \<noteq> None"
  "(\<And>a b. h a b \<noteq> None) \<Longrightarrow> case_prod h p \<noteq> None"
  "(\<And>a b. k a b z \<noteq> None) \<Longrightarrow> (case p of (a, b) \<Rightarrow> k a b) z \<noteq> None"
  "m \<noteq> None \<Longrightarrow> m' \<noteq> None \<Longrightarrow> (if c then m else m') \<noteq> None"
  by (simp_all add: bind_eq_None_conv split: prod.split)

lemma activate_returns: "ipt_sound os view \<Longrightarrow> activate_proxy_locked os config w \<noteq> None"
  unfolding activate_proxy_locked_def by (intro returns_intros disable_returns fp_start_daemon_returns)

lemma activate_result: "activate_proxy_locked os config w = Some (r, w') \<Longrightarrow> r = ok \<or> r = fail"
  by (auto simp: activate_proxy_locked_def Let_def split: prod.splits if_splits Option.bind_splits)

lemma operations_total:
  assumes s: "ipt_sound os view"
  shows "fp_enable_proxy os proxy w \<noteq> None" and "fp_enable_saved_proxy os w \<noteq> None"
    and "fp_set_bypass os list w \<noteq> None" and "fp_disable_proxy os w \<noteq> None" and "fp_uninstall os w \<noteq> None"
  unfolding fp_enable_proxy_def fp_enable_saved_proxy_def fp_set_bypass_def fp_disable_proxy_def fp_uninstall_def
  by (intro returns_intros disable_returns [OF s] enable_returns [OF s] activate_returns [OF s])+

lemma operations_result:
  "fp_enable_proxy os proxy w = Some (r, w') \<Longrightarrow> r \<in> {ok, fail}"
  "fp_enable_saved_proxy os w = Some (r, w') \<Longrightarrow> r \<in> {ok, fail}"
  "fp_set_bypass os list w = Some (r, w') \<Longrightarrow> r \<in> {ok, fail}"
  "fp_disable_proxy os w = Some (r, w') \<Longrightarrow> r \<in> {ok, fail}"
  "fp_uninstall os w = Some (r, w') \<Longrightarrow> r \<in> {ok, fail}"
      apply (auto simp: fp_enable_proxy_def Let_def dest: activate_result split: prod.splits if_splits Option.bind_splits)[1]
     apply (auto simp: fp_enable_saved_proxy_def Let_def dest: activate_result split: prod.splits if_splits)[1]
    apply (auto simp: fp_set_bypass_def Let_def split: prod.splits if_splits Option.bind_splits)[1]
   apply (auto simp: fp_disable_proxy_def Let_def split: prod.splits if_splits Option.bind_splits)[1]
  apply (auto simp: fp_uninstall_def Let_def split: prod.splits if_splits Option.bind_splits)[1]
  done

section \<open>What a call of each operation goes through\<close>

lemma load_quiet:
  assumes "faults os = (\<lambda>_. False)" and "fp_config_load os d w = ((r, c), w')"
  shows "r = ok \<longleftrightarrow> stored_config w = Some c" and "stored_config w \<noteq> None \<Longrightarrow> r = ok"
  using fp_config_load_stored(1) [OF assms(2)] fp_config_load_found [of w _ os d] assms by auto

lemma fp_lock_acquire_quiet: "faults os = (\<lambda>_. False) \<Longrightarrow> fst (fp_lock_acquire os w) = 3"
  by (simp add: fp_lock_acquire_def ensure_runtime_dir_def sys_mkdir_def sys_fault_def Let_def split: prod.split)

lemma PID_neq_config [simp]: "FP_PID_PATH \<noteq> FP_CONFIG_PATH" "FP_PID_PATH \<noteq> temporary_path os"
  by (simp_all add: FP_PID_PATH_def FP_RUNTIME_DIR_def temporary_path_def FP_CONFIG_PATH_def FP_CONFIG_DIR_def)

lemma parsed_config_wf:
  assumes "fp_parse_proxy proxy empty_config = (ok, config)" and "wf_bypass bs"
  shows "wf_config (config\<lparr>bypass := bs\<rparr>)"
  using assms(2) fp_parse_proxy_port [OF assms(1)] by (simp add: wf_config_def)

text \<open>The configuration \<open>fp_enable_proxy\<close> is to store.\<close>

definition requested_config :: "string \<Rightarrow> fp_config option \<Rightarrow> fp_config" where
  "requested_config proxy previous =
     (snd (fp_parse_proxy proxy empty_config))\<lparr>bypass := (case previous of None \<Rightarrow> [] | Some c \<Rightarrow> bypass c)\<rparr>"

lemma requested_config_wf:
  assumes "fp_parse_proxy proxy empty_config = (ok, config)"
  shows "wf_config (requested_config proxy (stored_config w))"
proof -
  have "wf_bypass (case stored_config w of None \<Rightarrow> [] | Some c \<Rightarrow> bypass c)"
    using stored_config_wf [of w] by (auto simp: wf_config_def wf_bypass_def split: option.split)
  from parsed_config_wf [OF assms this] assms show ?thesis by (simp add: requested_config_def)
qed

text \<open>What the steps up to the save leave: the new content stored, the processes and their record as they were.\<close>

lemma enable_prepared:
  assumes q: "faults os = (\<lambda>_. False)" and "self_pid os < 10 ^ 11" and c: "wf_config config"
    and 1: "fp_lock_acquire os w = (fd, w1)" and 2: "fp_config_load os d w1 = ((l, previous), w2)"
    and 3: "fp_read_pid os w2 = (pid, w3)" and 4: "fp_config_save os config w3 = (s, w4)"
  shows "stored_config w = (if l = ok then Some previous else None)"
    and "s = ok" and "stored_config w4 = Some config" and "procs w4 = procs w"
    and "files w4 FP_PID_PATH = files w FP_PID_PATH"
proof -
  have k1: "stored_config w1 = stored_config w" "procs w1 = procs w"
    using stored_kept(1) [OF 1] fp_lock_acquire_same [OF 1] by (auto simp: same_kernel_def)
  show "stored_config w = (if l = ok then Some previous else None)"
    using load_quiet [OF q 2] k1 by (cases "stored_config w") auto
  show s: "s = ok" using fp_config_save_quiet [OF q assms(2), of config w3] 4 by simp
  show "stored_config w4 = Some config" using store.save_ok [OF c 4 [unfolded s]] .
  show "procs w4 = procs w"
    using k1 fp_config_load_stored(2) [OF 2] fp_read_pid_same [OF 3] fp_config_save_effect(1) [OF 4]
    by (simp add: same_kernel_def)
  show "files w4 FP_PID_PATH = files w FP_PID_PATH"
    using fp_lock_acquire_same [OF 1] fp_config_load_stored(3) [OF 2] fp_read_pid_same [OF 3]
      fp_config_save_effect(4) [OF 4, of FP_PID_PATH] by (simp add: same_files_def)
qed

text \<open>
  A call of \<open>fp_enable_proxy\<close> that got past the lock, the parser and the save, on a machine on
  which the file calls work: what it stored, and the state in which it activates.
\<close>

lemma fp_enable_proxy_run:
  assumes q: "faults os = (\<lambda>_. False)" and "self_pid os < 10 ^ 11"
    and e: "fp_enable_proxy os proxy w = Some (r, w')"
  shows "(r = fail \<and> fst (fp_parse_proxy proxy empty_config) \<noteq> ok \<and> stored_config w' = stored_config w)
    \<or> (\<exists>w1 w2. fst (fp_parse_proxy proxy empty_config) = ok
         \<and> stored_config w1 = Some (requested_config proxy (stored_config w)) \<and> procs w1 = procs w
         \<and> files w1 FP_PID_PATH = files w FP_PID_PATH
         \<and> activate_proxy_locked os (requested_config proxy (stored_config w)) w1 = Some (r, w2)
         \<and> (r = ok \<or> stored_config w = None \<longrightarrow> w' = w2)
         \<and> (r \<noteq> ok \<and> stored_config w \<noteq> None \<longrightarrow> stored_config w' = stored_config w))"
proof -
  let ?parsed = "fp_parse_proxy proxy empty_config"
  let ?config = "requested_config proxy (stored_config w)"
  obtain fd w1 where 1: "fp_lock_acquire os w = (fd, w1)" by force
  have fd: "fd = 3" using 1 fp_lock_acquire_quiet [OF q, of w] by simp
  have k1: "stored_config w1 = stored_config w" "procs w1 = procs w"
    using stored_kept(1) [OF 1] fp_lock_acquire_same [OF 1] by (auto simp: same_kernel_def)
  obtain p config where p: "?parsed = (p, config)" by force
  show ?thesis
  proof (cases "p = ok")
    case False
    with e 1 fd p k1 show ?thesis by (simp add: fp_enable_proxy_def)
  next
    case True
    obtain l previous w2 where 2: "fp_config_load os empty_config w1 = ((l, previous), w2)" by (metis prod.collapse)
    obtain pid w3 where 3: "fp_read_pid os w2 = (pid, w3)" by force
    have c: "?config = (if l = ok then config\<lparr>bypass := bypass previous\<rparr> else config)"
      using p True load_quiet [OF q 2] k1 fp_parse_proxy_bypass [OF p]
      by (cases "stored_config w") (auto simp: requested_config_def empty_config_def)
    obtain s w4 where 4: "fp_config_save os ?config w3 = (s, w4)" by force
    note K = enable_prepared [OF q assms(2) requested_config_wf [OF p [unfolded True]] 1 2 3 4]
    obtain a w5 where 5: "activate_proxy_locked os ?config w4 = Some (a, w5)"
      using e 1 fd p True 2 3 4 K(2) c by (auto simp: fp_enable_proxy_def Let_def split: Option.bind_splits)
    obtain s6 w6 where 6: "fp_config_save os previous w5 = (s6, w6)" by force
    have s6: "s6 = ok" using fp_config_save_quiet [OF q assms(2), of previous w5] 6 by simp
    have k6: "l = ok \<Longrightarrow> stored_config w6 = stored_config w"
      using store.save_ok [OF _ 6 [unfolded s6]] stored_config_wf [of w previous] K(1) by simp
    have "r = a \<and> (if a \<noteq> ok \<and> l = ok
      then w' = w6 \<or> (\<exists>x. activate_proxy_locked os previous w6 = Some (x, w')) else w' = w5)"
      using e 1 fd p True 2 3 4 K(2) c 5 6
      by (auto simp: fp_enable_proxy_def Let_def split: Option.bind_splits if_splits)
    then have "r = a" and "a = ok \<or> l \<noteq> ok \<longrightarrow> w' = w5"
      and "a \<noteq> ok \<and> l = ok \<longrightarrow> stored_config w' = stored_config w"
      using k6 stored_config_kept [OF activate_kept] by (fastforce split: if_splits)+
    with K 5 p True show ?thesis by (intro disjI2 exI [of _ w4] exI [of _ w5]) auto
  qed
qed

section \<open>A machine on which starting works\<close>

text \<open>
  No call fails, the port is free, a started child reads its own start time and reports in time,
  and none of the processes is a daemon of this program.
\<close>

definition healthy :: "'k os \<Rightarrow> ptable \<Rightarrow> bool" where
  "healthy os ps \<longleftrightarrow> faults os = (\<lambda>_. False) \<and> spawn_faults os = (\<lambda>_. False)
     \<and> port_busy os = (\<lambda>_ _. False) \<and> self_exe os \<noteq> None \<and> self_pid os < 10 ^ 11
     \<and> (\<forall>n. \<exists>pid p. child os n = (InTime, pid, p) \<and> parse_start_time (p_stat p) \<noteq> None)
     \<and> (\<forall>q p. map_of ps q = Some p \<longrightarrow> \<not> daemon_like p)"

lemma legacy_same_files: "is_legacy_daemon os pid w = (b, w') \<Longrightarrow> same_files w w'"
  by (auto simp: is_legacy_daemon_def read_exe_def cmdline_is_run_def Let_def dest!: sys_same_files
      intro: same_files_trans split: prod.splits option.splits if_splits)

lemma stop_entries_none:
  assumes "\<And>q p. map_of (procs w) q = Some p \<Longrightarrow> \<not> daemon_like p"
  shows "\<exists>w'. stop_entries os names w = (ok, w') \<and> same_kernel w w' \<and> same_files w w'"
  using assms
proof (induction names arbitrary: w)
  case (Cons name names)
  show ?case
  proof (cases "entry_pid name")
    case None
    with Cons show ?thesis by simp
  next
    case (Some pid)
    obtain b w1 where 1: "is_legacy_daemon os pid w = (b, w1)" by force
    have b: "\<not> b" using is_legacy_daemon_True [of os pid w w1] 1 Cons.prems by (cases b) auto
    have k: "same_kernel w w1" "same_files w w1" by (rule is_legacy_daemon_same [OF 1], rule legacy_same_files [OF 1])
    obtain w2 where "stop_entries os names w1 = (ok, w2)" "same_kernel w1 w2" "same_files w1 w2"
      using Cons.IH [of w1] Cons.prems k(1) by (auto simp: same_kernel_def)
    with Some 1 b k same_kernel_trans same_files_trans show ?thesis by fastforce
  qed
qed simp

lemma stop_untracked_none:
  assumes "faults os = (\<lambda>_. False)" "\<And>q p. map_of (procs w) q = Some p \<Longrightarrow> \<not> daemon_like p"
  shows "\<exists>w'. stop_untracked_daemons os w = (ok, w') \<and> same_kernel w w' \<and> same_files w w'"
proof -
  let ?w = "w\<lparr>tick := Suc (tick w)\<rparr>"
  obtain w' where "stop_entries os (listing os (tick w) (procs w)) ?w = (ok, w')" "same_kernel ?w w'" "same_files ?w w'"
    using stop_entries_none [of ?w os "listing os (tick w) (procs w)"] assms(2) by auto
  then show ?thesis using assms(1)
    by (simp add: stop_untracked_daemons_def sys_fault_def same_kernel_def same_files_def)
qed

lemma stats_create_quiet:
  assumes "faults os = (\<lambda>_. False)"
  shows "\<exists>w'. stats_create os w = (ok, w') \<and> procs w' = procs w"
  using assms
  by (auto simp: stats_create_def ensure_runtime_dir_def stats_unlink_def sys_defs Let_def split: prod.splits if_splits)

lemma fp_write_pid_quiet:
  assumes "faults os = (\<lambda>_. False)" "map_of (procs w) (int (self_pid os)) = Some p" "parse_start_time (p_stat p) = Some start"
  shows "fst (fp_write_pid os config w) = ok"
  using assms
  by (auto simp: fp_write_pid_def ensure_runtime_dir_def process_start_time_def sys_proc_def sys_defs Let_def
      split: prod.splits if_splits)

lemma proxy_startup_quiet:
  assumes x: "ipt_exact os view" and "faults os = (\<lambda>_. False)" "port_busy os = (\<lambda>_ _. False)"
    and "map_of (procs w) (int (self_pid os)) = Some p" "parse_start_time (p_stat p) = Some start"
  shows "\<exists>w'. proxy_startup os config w = Some (True, w')"
proof -
  let ?w = "w\<lparr>tick := Suc (tick w)\<rparr>"
  obtain w1 where 1: "stats_create os ?w = (ok, w1)" "procs w1 = procs w"
    using stats_create_quiet [OF assms(2), of ?w] by auto
  obtain w2 where 2: "fp_write_pid os config w1 = (ok, w2)"
    using fp_write_pid_quiet [OF assms(2), of w1 p start config] assms(4,5) 1 by (metis prod.collapse)
  obtain w3 where 3: "fp_firewall_enable os config w2 = Some (ok, w3)" using fp_firewall_enable_exact [OF x] by blast
  from 1 2 3 assms(2,3) show ?thesis by (simp add: proxy_startup_def sys_fault_def)
qed

lemma run_main_quiet:
  assumes "ipt_exact os view" and q: "faults os = (\<lambda>_. False)" "port_busy os = (\<lambda>_ _. False)"
    and "map_of (procs w) (int (self_pid os)) = Some p" "parse_start_time (p_stat p) = Some start"
    and "stored_config w = Some config"
  shows "\<exists>w'. run_main os w = Some (True, w')"
proof -
  obtain w1 where 1: "fp_config_load os empty_config w = ((ok, config), w1)"
    using fp_config_load_found [OF assms(6), of os empty_config] q by (metis prod.collapse)
  have "procs w1 = procs w" using fp_config_load_stored(2) [OF 1] by (simp add: same_kernel_def)
  with proxy_startup_quiet [OF assms(1-3), of w1 p start config] assms(4,5) 1 show ?thesis
    by (auto simp: run_main_def)
qed

lemma fp_start_daemon_healthy:
  assumes x: "ipt_exact os view" and h: "healthy os (procs w)"
    and r: "files w FP_PID_PATH = None" and c: "stored_config w = Some config"
  shows "\<exists>w'. fp_start_daemon os config w = Some (ok, w')"
proof -
  have q: "faults os = (\<lambda>_. False)" using h by (simp add: healthy_def)
  let ?w1 = "w\<lparr>tick := Suc (tick w)\<rparr>"
  have 1: "read_process_record os w = (None, ?w1)"
    using q r by (simp add: read_process_record_def sys_open_read_def sys_fault_def)
  obtain w2 where 2: "stop_untracked_daemons os ?w1 = (ok, w2)" "same_kernel ?w1 w2" "same_files ?w1 w2"
    using stop_untracked_none [OF q, of ?w1] h by (auto simp: healthy_def)
  let ?w3 = "stats_unlink os (fp_remove_pid os w2)"
  let ?w4 = "?w3\<lparr>tick := Suc (Suc (Suc (tick ?w3)))\<rparr>"
  have k3: "stored_config ?w4 = stored_config w"
  proof -
    have "kept_files ?w4 = kept_files w"
      using 2(3) unlink_kept_files(1,2) [of os] by (simp add: kept_files_def same_files_def)
    then show ?thesis by (rule stored_config_kept)
  qed
  obtain pid p start where ch: "child os (tick ?w4) = (InTime, pid, p)" "parse_start_time (p_stat p) = Some start"
    using h unfolding healthy_def by blast
  obtain w5 where 5: "run_main (os\<lparr>self_pid := pid\<rparr>) (add_proc (int pid) p ?w4) = Some (True, w5)"
    using run_main_quiet [of "os\<lparr>self_pid := pid\<rparr>" view "add_proc (int pid) p ?w4" p start config] x h ch(2) c k3
    by (auto simp: healthy_def add_proc_def stored_config_def)
  have rc: "run_child os ?w4 = Some (True, w5)" using ch 5 by (simp add: run_child_def)
  show ?thesis
    using 1 2 rc q h
    by (auto simp: fp_start_daemon_def Let_def sys_fault_def sys_spawn_fault_def healthy_def)
qed

lemma activate_healthy:
  assumes x: "ipt_exact os view" and h: "healthy os (procs w)"
    and r: "files w FP_PID_PATH = None" and c: "stored_config w = Some config"
  shows "\<exists>w'. activate_proxy_locked os config w = Some (ok, w')"
proof -
  have q: "faults os = (\<lambda>_. False)" using h by (simp add: healthy_def)
  let ?w1 = "w\<lparr>tick := Suc (tick w)\<rparr>" and ?w2 = "w\<lparr>tick := Suc (Suc (tick w))\<rparr>"
  have 1: "fp_daemon_matches_config os config w = (False, ?w1)"
    using q r by (simp add: fp_daemon_matches_config_def read_process_record_def sys_open_read_def sys_fault_def)
  have 2: "fp_read_pid os ?w1 = (-1, ?w2)"
    using q r by (simp add: fp_read_pid_def read_process_record_def sys_open_read_def sys_fault_def)
  obtain w3 where 3: "fp_firewall_disable os ?w2 = Some (ok, w3)"
    using fp_firewall_disable_exact [OF x, of ?w2] by blast
  have k: "files w3 = files w" "procs w3 = procs w" using filter.disable_rest [OF 3] by auto
  obtain w4 where 4: "fp_start_daemon os config w3 = Some (ok, w4)"
    using fp_start_daemon_healthy [OF x, of w3 config] h r c k by (auto simp: stored_config_def)
  from 1 2 3 4 show ?thesis by (simp add: activate_proxy_locked_def)
qed

lemma fp_enable_proxy_healthy:
  assumes x: "ipt_exact os view" and h: "healthy os (procs w)"
    and r: "files w FP_PID_PATH = None" and p: "fst (fp_parse_proxy proxy empty_config) = ok"
  shows "\<exists>w'. fp_enable_proxy os proxy w = Some (ok, w')"
proof -
  obtain res w' where e: "fp_enable_proxy os proxy w = Some (res, w')"
    using operations_total(1) [OF exact_sound [OF x], of proxy w] by auto
  have q: "faults os = (\<lambda>_. False)" "self_pid os < 10 ^ 11" using h by (simp_all add: healthy_def)
  obtain w1 w2 where "stored_config w1 = Some (requested_config proxy (stored_config w))" "procs w1 = procs w"
      "files w1 FP_PID_PATH = None"
      "activate_proxy_locked os (requested_config proxy (stored_config w)) w1 = Some (res, w2)"
    using fp_enable_proxy_run [OF q e] p r by auto
  with activate_healthy [OF x, of w1 "requested_config proxy (stored_config w)"] h have "res = ok" by auto
  with e show ?thesis by auto
qed

section \<open>Changing the direct list\<close>

lemma parse_bypass_wf:
  assumes "wf_config c" and "fp_parse_bypass_list (Some list) c = (r, c')"
  shows "wf_config c'"
proof (cases "list = []")
  case True
  with assms show ?thesis by (auto simp: fp_parse_bypass_list_def wf_config_def wf_bypass_def)
next
  case False
  with assms(2) have a: "add_all (split_on CHR '','' list) (c\<lparr>bypass := []\<rparr>) = (r, c')"
    by (simp add: fp_parse_bypass_list_eq)
  have "wf_bypass (bypass (c\<lparr>bypass := []\<rparr>))" by (simp add: wf_bypass_def)
  from add_all_wf [OF this a] add_all_proxy [OF a] assms(1) show ?thesis by (simp add: wf_config_def)
qed

lemma fp_set_bypass_run:
  assumes q: "faults os = (\<lambda>_. False)" and "self_pid os < 10 ^ 11" and s: "ipt_sound os view"
    and c: "stored_config w = Some previous" and b: "fp_set_bypass os list w = Some (r, w')"
  shows "if r = ok
    then (\<exists>config. fp_parse_bypass_list (Some list) previous = (ok, config) \<and> stored_config w' = Some config
      \<and> (fst (fp_read_pid os w) > 1 \<longrightarrow> installed config (view (nat_tab w'))))
    else stored_config w' = Some previous"
proof -
  obtain fd w1 where 1: "fp_lock_acquire os w = (fd, w1)" by force
  have fd: "fd = 3" using 1 fp_lock_acquire_quiet [OF q, of w] by simp
  have k1: "stored_config w1 = stored_config w" "files w1 FP_PID_PATH = files w FP_PID_PATH"
    using stored_kept(1) [OF 1] fp_lock_acquire_same [OF 1] by auto
  obtain w2 where 2: "fp_config_load os empty_config w1 = ((ok, previous), w2)"
    using fp_config_load_found [of w1 previous os empty_config] k1 c q by (metis prod.collapse)
  have k2: "files w2 = files w1" using fp_config_load_stored(3) [OF 2] by (simp add: same_files_def)
  obtain p config where p: "fp_parse_bypass_list (Some list) previous = (p, config)" by force
  show ?thesis
  proof (cases "p = ok")
    case False
    with b 1 2 fd p have "w' = w2 \<and> r = fail" by (simp add: fp_set_bypass_def)
    with k1 k2 c show ?thesis by (simp add: stored_config_def)
  next
    case True
    obtain pid w3 where 3: "fp_read_pid os w2 = (pid, w3)" by force
    have pid: "pid = fst (fp_read_pid os w)" using fp_read_pid_quiet [OF q, of w2 w] k1 k2 3 by simp
    have k3: "stored_config w3 = Some previous"
      using k1 k2 c fp_read_pid_same [OF 3] by (simp add: stored_config_def same_files_def)
    have wf: "wf_config previous" by (rule stored_config_wf [OF c])
    have wc: "wf_config config" by (rule parse_bypass_wf [OF wf p])
    obtain sv w4 where 4: "fp_config_save os config w3 = (sv, w4)" by force
    obtain a w5 where 5: "(if sv = ok \<and> pid > 1 then fp_firewall_enable os config w4 else Some (sv, w4)) = Some (a, w5)"
      using enable_returns [OF s, of config w4] by (cases "sv = ok \<and> pid > 1") auto
    obtain s6 w6 where 6: "fp_config_save os previous w5 = (s6, w6)" by force
    have s6: "s6 = ok" using fp_config_save_quiet [OF q assms(2), of previous w5] 6 by simp
    note m = managed.update_or_rollback [OF s wc wf k3 4 5 6]
    have "if a = ok then r = ok \<and> w' = w5
      else r = fail \<and> (w' = w6 \<or> (\<exists>x. fp_firewall_enable os previous w6 = Some (x, w')))"
      using b 1 2 fd p True 3 4 5 6
      by (auto simp: fp_set_bypass_def Let_def split: Option.bind_splits if_splits)
    moreover have "fp_firewall_enable os previous w6 = Some (x, w') \<Longrightarrow> stored_config w' = stored_config w6" for x
      by (rule stored_kept(6))
    ultimately show ?thesis
      using m s6 p True pid by (auto split: if_splits)
  qed
qed

section \<open>Properties\<close>

text \<open>
  C26: Every command returns, with 0 or -1, whatever calls fail, whatever becomes of the processes
  and of a started child, as long as an \<open>iptables\<close> that reports success has done its step.
\<close>

theorem operations_return:
  assumes "ipt_sound os view"
  shows "(\<exists>r w'. fp_enable_proxy os proxy w = Some (r, w') \<and> r \<in> {ok, fail})
    \<and> (\<exists>r w'. fp_enable_saved_proxy os w = Some (r, w') \<and> r \<in> {ok, fail})
    \<and> (\<exists>r w'. fp_set_bypass os list w = Some (r, w') \<and> r \<in> {ok, fail})
    \<and> (\<exists>r w'. fp_disable_proxy os w = Some (r, w') \<and> r \<in> {ok, fail})
    \<and> (\<exists>r w'. fp_uninstall os w = Some (r, w') \<and> r \<in> {ok, fail})"
proof -
  have *: "\<exists>r w'. m = Some (r, w') \<and> r \<in> {ok, fail}"
    if "m \<noteq> None" "\<And>r w'. m = Some (r, w') \<Longrightarrow> r \<in> {ok, fail}" for m :: "(int \<times> 'a world) option"
    using that by (cases m) auto
  show ?thesis
    using operations_total [OF assms] operations_result by (intro conjI *) blast+
qed

definition working_os :: "nat_view os" where
  "working_os = reference_os\<lparr>child := (\<lambda>_. (InTime, 4242, sample_daemon))\<rparr>"

lemma working_os_exact: "ipt_exact working_os (\<lambda>v. v)"
  using reference_os_exact by (simp add: working_os_def ipt_exact_def ipt_sound_def)

lemma working_os_sel [simp]: "faults working_os = (\<lambda>_. False)" "self_pid working_os = 4242"
  by (simp_all add: working_os_def reference_os_def)

lemma working_os_healthy: "healthy working_os []"
  using sample_daemon_start
  by (simp add: healthy_def working_os_def reference_os_def quiet_os_def)

text \<open>The world in which \<open>sample_config\<close> is stored and nothing runs.\<close>

definition stored_world :: "nat_view world" where
  "stored_world = (empty_world no_rules)\<lparr>files := [FP_CONFIG_PATH \<mapsto> config_text sample_config]\<rparr>"

lemma stored_world_sel [simp]:
  "stored_config stored_world = Some sample_config" "procs stored_world = []" "files stored_world FP_PID_PATH = None"
  by (simp_all add: stored_world_def stored_config_def load_config_text [OF sample_config_wf] empty_world_def)

theorem operations_return_witness:
  "\<exists>r w'. fp_uninstall working_os stored_world = Some (r, w') \<and> r \<in> {ok, fail}"
  using operations_return [OF exact_sound [OF working_os_exact], of _ stored_world] by blast

text \<open>
  C1: If \<open>fp_enable_proxy\<close> reports success then the stored configuration is the given proxy with
  the direct list stored before, and the firewall is on for it: \<open>OUTPUT\<close> jumps to the chain and the
  chain has all its rules. This covers a daemon that already ran, one that had to be stopped and
  restarted, stale records, and failing \<open>fork\<close>s and commands.
\<close>

theorem enable_activates:
  assumes "ipt_sound os view" and "faults os = (\<lambda>_. False)" "self_pid os < 10 ^ 11"
    and "sane_table (procs w)" and "fp_enable_proxy os proxy w = Some (ok, w')"
  shows "fst (fp_parse_proxy proxy empty_config) = ok
    \<and> stored_config w' = Some (requested_config proxy (stored_config w))
    \<and> firewall_on (requested_config proxy (stored_config w)) (view (nat_tab w'))"
proof -
  obtain w1 where "fst (fp_parse_proxy proxy empty_config) = ok"
    "stored_config w1 = Some (requested_config proxy (stored_config w))" "procs w1 = procs w"
    "activate_proxy_locked os (requested_config proxy (stored_config w)) w1 = Some (ok, w')"
    using fp_enable_proxy_run [OF assms(2,3,5)] by auto
  with activate_on [OF assms(1,2), of w1] assms(4) stored_kept(5) [of os _ w1 ok w'] show ?thesis by auto
qed

lemma sample_proxy_parses: "fst (fp_parse_proxy ''192.168.3.2:1080'' empty_config) = ok"
proof -
  have "inet_ntop (ip_of_octets 192 168 3 2) @ '':'' @ dec 1080 = ''192.168.3.2:1080''" by (simp add: print_eval)
  then show ?thesis using fp_parse_proxy_print [of 1080 "ip_of_octets 192 168 3 2" empty_config] by simp
qed

theorem enable_activates_witness:
  "\<exists>w'. fp_enable_proxy working_os ''192.168.3.2:1080'' stored_world = Some (ok, w')
     \<and> stored_config w' = Some (requested_config ''192.168.3.2:1080'' (Some sample_config))
     \<and> firewall_on (requested_config ''192.168.3.2:1080'' (Some sample_config)) (nat_tab w')"
proof -
  obtain w' where e: "fp_enable_proxy working_os ''192.168.3.2:1080'' stored_world = Some (ok, w')"
    using fp_enable_proxy_healthy [OF working_os_exact _ _ sample_proxy_parses, of stored_world] working_os_healthy by auto
  from enable_activates [OF exact_sound [OF working_os_exact] _ _ _ e] e show ?thesis
    by (auto simp: sane_table_def)
qed

text \<open>
  C27: On a machine where no call fails and the commands work, with no daemon running and none on
  record, enabling any proxy that parses succeeds, whatever was stored before and whatever the
  table of rules holds.
\<close>

theorem enable_succeeds:
  assumes "ipt_exact os view" and "healthy os (procs w)" and "files w FP_PID_PATH = None"
    and "fst (fp_parse_proxy proxy empty_config) = ok"
  shows "\<exists>w'. fp_enable_proxy os proxy w = Some (ok, w')"
  by (rule fp_enable_proxy_healthy [OF assms])

theorem enable_succeeds_witness:
  "\<exists>w'. fp_enable_proxy working_os ''192.168.3.2:1080'' stored_world = Some (ok, w')"
  by (rule enable_succeeds [OF working_os_exact _ _ sample_proxy_parses]) (simp_all add: working_os_healthy)

text \<open>
  C2: If \<open>fp_enable_proxy\<close> fails, the configuration stored before the call is stored afterwards,
  whatever made it fail: the new one was already saved and is taken back.
\<close>

theorem enable_failure_restores:
  assumes "faults os = (\<lambda>_. False)" "self_pid os < 10 ^ 11" and "stored_config w = Some previous"
    and "fp_enable_proxy os proxy w = Some (r, w')" and "r \<noteq> ok"
  shows "stored_config w' = Some previous"
  using fp_enable_proxy_run [OF assms(1,2,4)] assms(3,5) by auto

text \<open>A machine on which every \<open>iptables\<close> command fails: nothing can be enabled there.\<close>

definition broken_os :: "nat_view os" where
  "broken_os = working_os\<lparr>iptables := (\<lambda>_ k. (False, k))\<rparr>"

theorem enable_failure_restores_witness:
  "\<exists>r w'. fp_enable_proxy broken_os ''192.168.3.2:1080'' stored_world = Some (r, w') \<and> r \<noteq> ok
     \<and> stored_config w' = Some sample_config"
proof -
  have s: "ipt_sound broken_os (\<lambda>_. no_rules)" by (simp add: ipt_sound_def broken_os_def)
  have q: "faults broken_os = (\<lambda>_. False)" "self_pid broken_os < 10 ^ 11" by (simp_all add: broken_os_def)
  obtain r w' where e: "fp_enable_proxy broken_os ''192.168.3.2:1080'' stored_world = Some (r, w')"
    using operations_total(1) [OF s] by fastforce
  obtain w1 where "stored_config w1 = Some (requested_config ''192.168.3.2:1080'' (Some sample_config))"
    "procs w1 = []" "r = ok \<Longrightarrow> activate_proxy_locked broken_os
      (requested_config ''192.168.3.2:1080'' (Some sample_config)) w1 = Some (ok, w')"
    using fp_enable_proxy_run [OF q e] sample_proxy_parses by auto
  then have "r \<noteq> ok"
    using activate_on [OF s q(1), of w1] by (auto simp: sane_table_def firewall_on_def no_rules_def)
  with enable_failure_restores [OF q _ e, of sample_config] e show ?thesis by auto
qed

text \<open>
  C3: Changing the direct list is all or nothing for the stored configuration. On success the parsed
  list is stored and, if a daemon is on record, the chain holds exactly the rules for it. On any
  failure (a bad list, a failed save, a failed command) the previous configuration is stored.
\<close>

theorem set_bypass_all_or_nothing:
  assumes "ipt_sound os view" and "faults os = (\<lambda>_. False)" "self_pid os < 10 ^ 11"
    and "stored_config w = Some previous" and "fp_set_bypass os list w = Some (r, w')"
  shows "if r = ok
    then (\<exists>config. fp_parse_bypass_list (Some list) previous = (ok, config) \<and> stored_config w' = Some config
      \<and> (fst (fp_read_pid os w) > 1 \<longrightarrow> installed config (view (nat_tab w'))))
    else stored_config w' = Some previous"
  by (rule fp_set_bypass_run [OF assms(2,3,1,4,5)])

text \<open>Clearing the list where commands fail but no daemon is on record: the firewall is not touched.\<close>

theorem set_bypass_all_or_nothing_witness:
  "\<exists>w'. fp_set_bypass broken_os '''' stored_world = Some (ok, w')
     \<and> stored_config w' = Some (sample_config\<lparr>bypass := []\<rparr>)"
proof -
  have s: "ipt_sound broken_os (\<lambda>_. no_rules)" by (simp add: ipt_sound_def broken_os_def)
  have q: "faults broken_os = (\<lambda>_. False)" "self_pid broken_os < 10 ^ 11" by (simp_all add: broken_os_def)
  obtain r w' where e: "fp_set_bypass broken_os '''' stored_world = Some (r, w')"
    using operations_total(3) [OF s] by fastforce
  note p = set_bypass_all_or_nothing [OF s q _ e, of sample_config]
  have "\<not> installed c no_rules" for c by (simp add: installed_def no_rules_def)
  have "r = ok"
  proof (rule ccontr)
    assume "r \<noteq> ok"
    have pid: "fst (fp_read_pid broken_os x) = -1" if "files x FP_PID_PATH = None" for x :: "nat_view world"
      using q(1) that by (simp add: fp_read_pid_def read_process_record_def sys_open_read_def sys_fault_def)
    obtain fd w1 where 1: "fp_lock_acquire broken_os stored_world = (fd, w1)" by force
    have k1: "fd = 3" "stored_config w1 = Some sample_config" "files w1 FP_PID_PATH = None"
      using fp_lock_acquire_quiet [OF q(1), of stored_world] stored_kept(1) [OF 1] fp_lock_acquire_same [OF 1] 1 by auto
    obtain w2 where 2: "fp_config_load broken_os empty_config w1 = ((ok, sample_config), w2)"
      using fp_config_load_found [OF k1(2), of broken_os empty_config] q(1) by (metis prod.collapse)
    have "files w2 FP_PID_PATH = None" using fp_config_load_stored(3) [OF 2] k1 by (simp add: same_files_def)
    then obtain w3 where 3: "fp_read_pid broken_os w2 = (-1, w3)" using pid by (metis prod.collapse)
    obtain w4 where 4: "fp_config_save broken_os (sample_config\<lparr>bypass := []\<rparr>) w3 = (ok, w4)"
      using fp_config_save_quiet [OF q] by (metis prod.collapse)
    from e 1 k1 2 3 4 \<open>r \<noteq> ok\<close> show False
      by (simp add: fp_set_bypass_def fp_parse_bypass_list_def)
  qed
  with p e show ?thesis by (auto simp: fp_parse_bypass_list_def)
qed

lemma fp_disable_proxy_exact:
  assumes "ipt_exact os view" and "fp_lock_acquire os w = (fd, w1)" and "fd \<ge> 0"
  shows "\<exists>r w'. fp_disable_proxy os w = Some (r, w') \<and> cleared (view (nat_tab w'))
    \<and> (r = ok \<longleftrightarrow> fst (fp_stop_daemon os w1) = ok) \<and> stored_config w' = stored_config w"
proof -
  obtain r2 w2 where 2: "fp_stop_daemon os w1 = (r2, w2)" by force
  obtain w3 where 3: "fp_firewall_disable os w2 = Some (ok, w3)" "cleared (view (nat_tab w3))"
    using fp_firewall_disable_exact [OF assms(1), of w2] by (auto simp: cleared_def)
  have "stored_config w3 = stored_config w"
    using stored_kept(1) [OF assms(2)] stored_kept(4) [OF 2] stored_kept(7) [OF 3(1)] by simp
  then show ?thesis using assms 2 3 by (simp add: fp_disable_proxy_def)
qed

text \<open>
  C4: When the commands work, \<open>fp_disable_proxy\<close> removes the chain and every jump to it, even if the
  daemon could not be stopped; it reports success exactly if the daemon was stopped, and the stored
  configuration stays.
\<close>

theorem disable_clears:
  assumes "ipt_exact os view" and "fp_lock_acquire os w = (fd, w1)" and "fd \<ge> 0"
  shows "\<exists>r w'. fp_disable_proxy os w = Some (r, w') \<and> cleared (view (nat_tab w'))
    \<and> (r = ok \<longleftrightarrow> fst (fp_stop_daemon os w1) = ok) \<and> stored_config w' = stored_config w"
  by (rule fp_disable_proxy_exact [OF assms])

theorem disable_clears_witness:
  "\<exists>r w'. fp_disable_proxy working_os (stored_world\<lparr>nat_tab := nat_tab after_enable\<rparr>) = Some (r, w')
     \<and> cleared (nat_tab w')"
proof -
  let ?w = "stored_world\<lparr>nat_tab := nat_tab after_enable\<rparr>"
  obtain w1 where "fp_lock_acquire working_os ?w = (3, w1)"
    using fp_lock_acquire_quiet [of working_os ?w] by (metis working_os_sel(1) prod.collapse)
  from disable_clears [OF working_os_exact this] show ?thesis by auto
qed

lemma rmdir_files [simp]: "files (snd (sys_rmdir os d w)) = files w"
  by (simp add: sys_rmdir_def sys_fault_def Let_def)

lemma unlink_dirs [simp]: "dirs (snd (sys_unlink os p w)) = dirs w" "dirs (fp_remove_pid os w) = dirs w"
  by (simp_all add: fp_remove_pid_def sys_unlink_def sys_fault_def Let_def)

lemma unlink_nat [simp]: "nat_tab (snd (sys_unlink os p w)) = nat_tab w" "nat_tab (snd (sys_rmdir os p w)) = nat_tab w"
  by (simp_all add: sys_unlink_def sys_rmdir_def sys_fault_def Let_def)

text \<open>The files of the program, and those among them that a stopped daemon has removed itself.\<close>

definition own_files :: "string set" where
  "own_files = run_paths \<union> {FP_CONFIG_PATH, FP_UI_LANGUAGE_PATH, FP_UNIT_PATH, FP_INSTALLED_BINARY}"

lemma own_files_eq: "own_files = {FP_PID_PATH, FP_LOCK_PATH, FP_STATS_PATH, FP_CONFIG_PATH, FP_UI_LANGUAGE_PATH,
    FP_UNIT_PATH, FP_INSTALLED_BINARY}"
  by (auto simp: own_files_def run_paths_def)

lemmas own_path_defs = FP_UNIT_PATH_def FP_PID_PATH_def FP_LOCK_PATH_def FP_STATS_PATH_def FP_CONFIG_PATH_def
  FP_UI_LANGUAGE_PATH_def FP_INSTALLED_BINARY_def FP_RUNTIME_DIR_def FP_CONFIG_DIR_def

lemma own_not_stats:
  "p \<in> {FP_CONFIG_PATH, FP_UI_LANGUAGE_PATH, FP_PID_PATH, FP_LOCK_PATH, FP_UNIT_PATH, FP_INSTALLED_BINARY}
   \<Longrightarrow> p \<in> own_files \<and> p \<noteq> FP_STATS_PATH"
  by (auto simp: own_files_eq) (simp_all add: own_path_defs)

text \<open>Outside its own files and the run directory, stopping and removing the service change nothing.\<close>

definition others :: "'k world \<Rightarrow> (string \<rightharpoonup> string) \<times> string set" where
  "others w = (files w |` (- own_files), dirs w - {FP_RUNTIME_DIR})"

lemma kept_others: "kept w' = kept w \<Longrightarrow> others w' = others w"
proof -
  have r: "files x |` (- own_files) = kept_files x |` (- own_files)" for x :: "'k world"
    by (rule ext) (auto simp: restrict_map_def kept_files_def own_files_def)
  assume "kept w' = kept w"
  then show "others w' = others w" by (simp add: kept_def others_def r)
qed

lemma same_others: "same_files w w' \<Longrightarrow> others w' = others w"
  by (simp add: same_files_def others_def)

lemma restrict_own_upd: "p \<in> own_files \<Longrightarrow> (m(p := x)) |` (- own_files) = m |` (- own_files)"
  by (rule ext) (auto simp: restrict_map_def)

lemma unlink_others: "p \<in> own_files \<Longrightarrow> others (snd (sys_unlink os p w)) = others w"
  by (auto simp: sys_unlink_def sys_fault_def Let_def others_def restrict_own_upd)

lemma fp_stop_daemon_stats:
  assumes "faults os = (\<lambda>_. False)" and "fp_stop_daemon os w = (ok, w')"
  shows "files w' FP_STATS_PATH = None"
  using assms unfolding fp_stop_daemon_def
  by (auto simp: Let_def stats_unlink_def unlink_quiet split: prod.splits if_splits)

lemma systemctl_same [simp]:
  "files (snd (spawn_systemctl os args w)) = files w" "dirs (snd (spawn_systemctl os args w)) = dirs w"
  "files (snd (run_systemctl os action w)) = files w" "dirs (snd (run_systemctl os action w)) = dirs w"
  "files (snd (reload_systemd os w)) = files w" "dirs (snd (reload_systemd os w)) = dirs w"
  by (auto simp: spawn_systemctl_def run_systemctl_def reload_systemd_def sys_spawn_fault_def Let_def split: prod.splits)

lemma access_same [simp]: "files (snd (sys_access os p w)) = files w" "dirs (snd (sys_access os p w)) = dirs w"
  by (simp_all add: sys_access_def sys_fault_def)

lemma fp_autostart_remove_unit:
  assumes "faults os = (\<lambda>_. False)"
  shows "files (snd (fp_autostart_remove os w)) = (files w)(FP_UNIT_PATH := None)"
    and "dirs (snd (fp_autostart_remove os w)) = dirs w"
proof -
  have "fst (sys_unlink os FP_UNIT_PATH x) \<in> {None, Some ENOENT}" for x
    using assms by (simp add: sys_unlink_def sys_fault_def)
  then show "files (snd (fp_autostart_remove os w)) = (files w)(FP_UNIT_PATH := None)"
    and "dirs (snd (fp_autostart_remove os w)) = dirs w"
    by (auto simp: fp_autostart_remove_def Let_def split_beta unlink_quiet [OF assms])
qed

text \<open>Removing the two directories, which goes through unless something lies in them.\<close>

lemma rmdir_quiet:
  assumes "faults os = (\<lambda>_. False)"
  shows "dirs (snd (sys_rmdir os d w)) = (if dir_in_use w d then dirs w else dirs w - {d})"
  using assms by (auto simp: sys_rmdir_def sys_fault_def dir_in_use_def)

lemma dir_in_use_less:
  assumes "dir_in_use w d" and "files w' = files w" and "dirs w - {e} \<subseteq> dirs w'" and "take (Suc (length d)) e \<noteq> d @ ''/''"
  shows "dir_in_use w' d"
  using assms by (auto simp: dir_in_use_def)

lemma rmdir_both:
  fixes os :: "'k os" and w :: "'k world"
  assumes q: "faults os = (\<lambda>_. False)"
  defines "w' \<equiv> snd (sys_rmdir os FP_CONFIG_DIR (snd (sys_rmdir os FP_RUNTIME_DIR w)))"
  shows "files w' = files w" and "dirs w' - {FP_RUNTIME_DIR, FP_CONFIG_DIR} = dirs w - {FP_RUNTIME_DIR, FP_CONFIG_DIR}"
    and "FP_RUNTIME_DIR \<in> dirs w' \<Longrightarrow> dir_in_use w' FP_RUNTIME_DIR"
    and "FP_CONFIG_DIR \<in> dirs w' \<Longrightarrow> dir_in_use w' FP_CONFIG_DIR"
proof -
  let ?v = "snd (sys_rmdir os FP_RUNTIME_DIR w)"
  have d: "dirs ?v = (if dir_in_use w FP_RUNTIME_DIR then dirs w else dirs w - {FP_RUNTIME_DIR})"
    "dirs w' = (if dir_in_use ?v FP_CONFIG_DIR then dirs ?v else dirs ?v - {FP_CONFIG_DIR})"
    by (simp_all add: w'_def rmdir_quiet [OF q])
  show f: "files w' = files w" by (simp add: w'_def)
  show "dirs w' - {FP_RUNTIME_DIR, FP_CONFIG_DIR} = dirs w - {FP_RUNTIME_DIR, FP_CONFIG_DIR}" using d by auto
  show "dir_in_use w' FP_RUNTIME_DIR" if "FP_RUNTIME_DIR \<in> dirs w'"
  proof (rule dir_in_use_less)
    show "dir_in_use w FP_RUNTIME_DIR" using that d by (auto split: if_splits)
    then show "dirs w - {FP_CONFIG_DIR} \<subseteq> dirs w'" using d by auto
  qed (simp_all add: f FP_RUNTIME_DIR_def FP_CONFIG_DIR_def)
  show "dir_in_use w' FP_CONFIG_DIR" if "FP_CONFIG_DIR \<in> dirs w'"
    using that d by (auto simp: dir_in_use_def w'_def split: if_splits)
qed

text \<open>What \<open>fp_uninstall\<close> leaves.\<close>

definition uninstalled :: "'k world \<Rightarrow> int \<Rightarrow> 'k world \<Rightarrow> bool" where
  "uninstalled w r w' \<longleftrightarrow>
     (\<forall>p \<in> own_files. p \<noteq> FP_STATS_PATH \<or> r = ok \<longrightarrow> files w' p = None)
     \<and> (\<forall>p. p \<notin> own_files \<longrightarrow> files w' p = files w p)
     \<and> (\<forall>d \<in> {FP_RUNTIME_DIR, FP_CONFIG_DIR}. d \<in> dirs w' \<longrightarrow> dir_in_use w' d)
     \<and> dirs w' - {FP_RUNTIME_DIR, FP_CONFIG_DIR} = dirs w - {FP_RUNTIME_DIR, FP_CONFIG_DIR}"

text \<open>Its last part, from the removal of the process record on.\<close>

lemma uninstall_files:
  fixes os :: "'k os" and w :: "'k world"
  assumes q: "faults os = (\<lambda>_. False)"
  defines "w' \<equiv> snd (sys_unlink os FP_INSTALLED_BINARY (snd (sys_rmdir os FP_CONFIG_DIR (snd (sys_rmdir os FP_RUNTIME_DIR
    (snd (sys_unlink os FP_LOCK_PATH (snd (sys_unlink os FP_UI_LANGUAGE_PATH
      (snd (sys_unlink os FP_CONFIG_PATH (fp_remove_pid os w))))))))))))"
  assumes u: "files w FP_UNIT_PATH = None" and o: "others w = others w0"
    and st: "r = ok \<Longrightarrow> files w FP_STATS_PATH = None"
  shows "uninstalled w0 r w'" and "nat_tab w' = nat_tab w"
proof -
  let ?x = "snd (sys_unlink os FP_LOCK_PATH (snd (sys_unlink os FP_UI_LANGUAGE_PATH
      (snd (sys_unlink os FP_CONFIG_PATH (fp_remove_pid os w))))))"
  let ?y = "snd (sys_rmdir os FP_CONFIG_DIR (snd (sys_rmdir os FP_RUNTIME_DIR ?x)))"
  note y = rmdir_both [OF q, of ?x]
  have fx: "files ?x = (files w)(FP_PID_PATH := None, FP_CONFIG_PATH := None, FP_UI_LANGUAGE_PATH := None, FP_LOCK_PATH := None)"
    by (simp add: unlink_quiet [OF q] fp_remove_pid_def)
  then have f: "files w' = (files w)(FP_PID_PATH := None, FP_CONFIG_PATH := None, FP_UI_LANGUAGE_PATH := None,
      FP_LOCK_PATH := None, FP_INSTALLED_BINARY := None)"
    by (simp add: w'_def unlink_quiet [OF q] y(1))
  have d: "dirs w' = dirs ?y" "dirs ?x = dirs w" by (simp_all add: w'_def)
  have in_use: "dir_in_use w' e" if "e \<in> {FP_RUNTIME_DIR, FP_CONFIG_DIR}" "dir_in_use ?y e" for e
  proof -
    from that(2) obtain p where p: "p \<in> dom (files ?y) \<union> dirs ?y" "take (Suc (length e)) p = e @ ''/''"
      by (auto simp: dir_in_use_def)
    then have "p \<noteq> FP_INSTALLED_BINARY" using that(1) by (auto simp: own_path_defs)
    moreover have "files w' = (files ?y)(FP_INSTALLED_BINARY := None)" by (simp add: w'_def unlink_quiet [OF q])
    ultimately have "p \<in> dom (files w') \<union> dirs w'" using p(1) d(1) by auto
    with p(2) show ?thesis by (auto simp: dir_in_use_def)
  qed
  have "files w p = files w0 p" if "p \<notin> own_files" for p
  proof -
    from o have "(files w |` (- own_files)) p = (files w0 |` (- own_files)) p" by (simp add: others_def)
    with that show ?thesis by simp
  qed
  then have "\<forall>p. p \<notin> own_files \<longrightarrow> files w' p = files w0 p" by (auto simp: f own_files_eq)
  moreover have "\<forall>p \<in> own_files. p \<noteq> FP_STATS_PATH \<or> r = ok \<longrightarrow> files w' p = None"
    using u st by (auto simp: f own_files_eq)
  moreover have "dirs w - {FP_RUNTIME_DIR} = dirs w0 - {FP_RUNTIME_DIR}" using o by (simp add: others_def)
  then have "dirs w' - {FP_RUNTIME_DIR, FP_CONFIG_DIR} = dirs w0 - {FP_RUNTIME_DIR, FP_CONFIG_DIR}"
    unfolding d(1) y(2) d(2) by blast
  moreover have "\<forall>d \<in> {FP_RUNTIME_DIR, FP_CONFIG_DIR}. d \<in> dirs w' \<longrightarrow> dir_in_use w' d"
    using in_use y(3,4) d(1) by auto
  ultimately show "uninstalled w0 r w'" by (simp add: uninstalled_def)
  show "nat_tab w' = nat_tab w" by (simp add: w'_def fp_remove_pid_def)
qed

text \<open>Its first part: the service, the daemon, the rules, and the daemon again if it had not stopped.\<close>

lemma fp_uninstall_run:
  assumes x: "ipt_exact os view" and q: "faults os = (\<lambda>_. False)" and u: "fp_uninstall os w = Some (r, w')"
  shows "cleared (view (nat_tab w')) \<and> uninstalled w r w'"
proof -
  obtain fd w1 where 1: "fp_lock_acquire os w = (fd, w1)" by force
  have fd: "fd = 3" using 1 fp_lock_acquire_quiet [OF q, of w] by simp
  obtain r2 w2 where 2: "fp_autostart_remove os w1 = (r2, w2)" by force
  have f2: "files w2 = (files w1)(FP_UNIT_PATH := None)" "dirs w2 = dirs w1"
    using fp_autostart_remove_unit [OF q, of w1] 2 by simp_all
  have o2: "others w2 = others w"
    using kept_others [OF fp_lock_acquire_kept [OF 1]] f2 restrict_own_upd [of FP_UNIT_PATH]
    by (simp add: others_def own_files_eq)
  obtain r3 w3 where 3: "fp_stop_daemon os w2 = (r3, w3)" by force
  obtain w4 where 4: "fp_firewall_disable os w3 = Some (ok, w4)" "cleared (view (nat_tab w4))"
    using fp_firewall_disable_exact [OF x, of w3] by (auto simp: cleared_def)
  have s4: "same_files w3 w4" using filter.disable_rest [OF 4(1)] by (simp add: same_files_def)
  obtain r5 w5 where 5: "(if r3 \<noteq> ok then fp_stop_daemon os w4 else (ok, w4)) = (r5, w5)" by force
  have k5: "kept w5 = kept w4" using 5 fp_stop_daemon_kept [of os w4 r5 w5] by (auto split: if_splits)
  have unit: "kept b = kept a \<Longrightarrow> files b FP_UNIT_PATH = files a FP_UNIT_PATH" for a b :: "'a world"
    by (drule kept_files_kept, unfold kept_files_def, drule fun_cong [of _ _ FP_UNIT_PATH])
      (simp add: run_paths_def own_path_defs)
  have o5: "others w5 = others w" "files w5 FP_UNIT_PATH = None" "nat_tab w5 = nat_tab w4"
    using o2 kept_others [OF fp_stop_daemon_kept [OF 3]] same_others [OF s4] kept_others [OF k5]
      unit [OF fp_stop_daemon_kept [OF 3]] s4 unit [OF k5] f2 k5 by (simp_all add: same_files_def kept_def)
  have "r5 = ok \<Longrightarrow> files w5 FP_STATS_PATH = None"
    using 5 fp_stop_daemon_stats [OF q, of w2 w3] fp_stop_daemon_stats [OF q, of w4 w5] 3 s4
    by (auto simp: same_files_def split: if_splits)
  then have s5: "r = ok \<Longrightarrow> files w5 FP_STATS_PATH = None"
    using u 1 fd 2 3 4 5 by (auto simp: fp_uninstall_def Let_def split: prod.splits if_splits)
  let ?w6 = "snd (sys_rmdir os FP_CONFIG_DIR (snd (sys_rmdir os FP_RUNTIME_DIR
    (snd (sys_unlink os FP_LOCK_PATH (snd (sys_unlink os FP_UI_LANGUAGE_PATH
      (snd (sys_unlink os FP_CONFIG_PATH (fp_remove_pid os w5))))))))))"
  obtain e w7 where 7: "sys_unlink os FP_INSTALLED_BINARY ?w6 = (e, w7)" by force
  have "same_files w7 w' \<and> nat_tab w' = nat_tab w7"
    using u 1 fd 2 3 4 5 7
    by (auto simp: fp_uninstall_def Let_def sys_access_def sys_fault_def same_files_def split: if_splits)
  moreover note uninstall_files [OF q o5(2,1) s5]
  ultimately show ?thesis using 4(2) o5(3) 7
    by (simp add: same_files_def uninstalled_def dir_in_use_def)
qed

text \<open>
  C28: When no file call fails and the commands work, \<open>fp_uninstall\<close> leaves no chain and no jump to
  it, and of its own files (configuration, language, process record, lock, statistics, unit file, installed
  binary) none but possibly the statistics file, which stays only if the daemon could not be stopped; the
  call then reports the failure. Either of its two directories stays only if there is still a file or a directory in
  it, and no other file or directory is touched, so a directory that stays holds the statistics file or something
  that was not put there under one of these names.
\<close>

theorem uninstall_removes_everything:
  assumes "ipt_exact os view" and "faults os = (\<lambda>_. False)" and "fp_uninstall os w = Some (r, w')"
  shows "cleared (view (nat_tab w'))
    \<and> (\<forall>p \<in> {FP_CONFIG_PATH, FP_UI_LANGUAGE_PATH, FP_PID_PATH, FP_LOCK_PATH, FP_UNIT_PATH, FP_INSTALLED_BINARY}.
         files w' p = None)
    \<and> (r = ok \<longrightarrow> files w' FP_STATS_PATH = None)
    \<and> (\<forall>p. p \<notin> own_files \<longrightarrow> files w' p = files w p)
    \<and> (\<forall>d \<in> {FP_RUNTIME_DIR, FP_CONFIG_DIR}. d \<in> dirs w' \<longrightarrow> dir_in_use w' d)
    \<and> dirs w' - {FP_RUNTIME_DIR, FP_CONFIG_DIR} = dirs w - {FP_RUNTIME_DIR, FP_CONFIG_DIR}"
proof -
  have u: "cleared (view (nat_tab w'))" "uninstalled w r w'" using fp_uninstall_run [OF assms] by simp_all
  moreover have "FP_STATS_PATH \<in> own_files" by (simp add: own_files_eq)
  ultimately show ?thesis unfolding uninstalled_def by (metis own_not_stats)
qed

text \<open>The machine of the examples: nothing else lies in the configuration directory, so it goes too.\<close>

theorem uninstall_removes_everything_witness:
  "\<exists>r w'. fp_uninstall working_os (stored_world\<lparr>dirs := {FP_CONFIG_DIR}\<rparr>) = Some (r, w')
     \<and> stored_config w' = None \<and> FP_CONFIG_DIR \<notin> dirs w'"
proof -
  let ?w = "stored_world\<lparr>dirs := {FP_CONFIG_DIR}\<rparr>"
  obtain r w' where u: "fp_uninstall working_os ?w = Some (r, w')"
    using operations_total(5) [OF exact_sound [OF working_os_exact], of ?w] by auto
  note t = uninstall_removes_everything [OF working_os_exact _ u, simplified]
  have "files w' p = None" if "take (Suc (length FP_CONFIG_DIR)) p = FP_CONFIG_DIR @ ''/''" for p
  proof (cases "p \<in> own_files")
    case True
    moreover have "p \<noteq> FP_STATS_PATH" using that by (auto simp: own_path_defs)
    ultimately show ?thesis using t by (auto simp: own_files_eq)
  next
    case False
    then have "p \<noteq> FP_CONFIG_PATH" by (auto simp: own_files_eq)
    with False t show ?thesis by (simp add: stored_world_def empty_world_def)
  qed
  moreover have "dirs w' \<subseteq> {FP_RUNTIME_DIR, FP_CONFIG_DIR}" using t by auto
  ultimately have "\<not> dir_in_use w' FP_CONFIG_DIR" by (auto simp: dir_in_use_def own_path_defs)
  with t u show ?thesis by (auto simp: stored_config_def)
qed

section \<open>Starting\<close>

lemma startup_outcome:
  assumes "ipt_exact os view" and "faults os = (\<lambda>_. False)"
    and "proxy_startup os config w = Some (ready, w')"
  shows "if ready then installed config (view (nat_tab w')) \<and> files w' FP_PID_PATH \<noteq> None
    else (port_busy os (tick w) (procs w) \<and> files w' = files w \<and> nat_tab w' = nat_tab w)
      \<or> (cleared (view (nat_tab w')) \<and> files w' FP_PID_PATH = None \<and> files w' FP_STATS_PATH = None)"
proof (cases "port_busy os (tick w) (procs w)")
  case True
  with assms(2,3) show ?thesis by (auto simp: proxy_startup_def sys_fault_def)
next
  case False
  let ?w = "w\<lparr>tick := Suc (tick w)\<rparr>"
  obtain w1 where 1: "stats_create os ?w = (ok, w1)" using stats_create_quiet [OF assms(2), of ?w] by auto
  obtain r2 w2 where 2: "fp_write_pid os config w1 = (r2, w2)" by force
  obtain r3 w3 where 3: "(if r2 = ok then fp_firewall_enable os config w2 else Some (fail, w2)) = Some (r3, w3)"
    using enable_returns [OF exact_sound [OF assms(1)], of config w2] by (cases "r2 = ok") auto
  let ?w4 = "stats_close os True (fp_remove_pid os w3)"
  obtain w5 where 5: "fp_firewall_disable os ?w4 = Some (ok, w5)" "cleared (view (nat_tab w5))"
    using fp_firewall_disable_exact [OF assms(1), of ?w4] by (auto simp: cleared_def)
  have f5: "files w5 FP_PID_PATH = None" "files w5 FP_STATS_PATH = None"
    using filter.disable_rest [OF 5(1)]
    by (auto simp: stats_close_def stats_unlink_def fp_remove_pid_def unlink_quiet [OF assms(2)])
  have d: "ready = (r3 = ok) \<and> w' = (if r3 = ok then w3 else w5)"
    using assms(2,3) False 1 2 3 5 by (auto simp: proxy_startup_def sys_fault_def split: if_splits)
  show ?thesis
  proof (cases "r3 = ok")
    case True
    then have e: "r2 = ok" "fp_firewall_enable os config w2 = Some (ok, w3)"
      using 3 by (auto split: if_splits)
    have "files w3 FP_PID_PATH \<noteq> None"
      using fp_write_pid_ok [of os config w1 w2] 2 e filter.enable_rest [OF e(2)] by auto
    with d True enable_installed [OF exact_sound [OF assms(1)] e(2)] show ?thesis by simp
  next
    case False
    with d 5 f5 show ?thesis by simp
  qed
qed

text \<open>
  C5: Starting up is all or nothing. The daemon reports ready only with exactly the rules for its
  configuration installed and its record written. If it reports an error, then either the port was
  taken and nothing was touched, or there is no chain, no jump, no record and no statistics file.
\<close>

theorem startup_all_or_nothing:
  assumes "ipt_exact os view" and "faults os = (\<lambda>_. False)"
    and "proxy_startup os config w = Some (ready, w')"
  shows "if ready then installed config (view (nat_tab w')) \<and> files w' FP_PID_PATH \<noteq> None
    else (port_busy os (tick w) (procs w) \<and> files w' = files w \<and> nat_tab w' = nat_tab w)
      \<or> (cleared (view (nat_tab w')) \<and> files w' FP_PID_PATH = None \<and> files w' FP_STATS_PATH = None)"
  using assms by (rule startup_outcome)

theorem startup_all_or_nothing_witness:
  "\<exists>w'. proxy_startup working_os sample_config ((empty_world no_rules)\<lparr>procs := [(4242, sample_daemon)]\<rparr>) = Some (True, w')
     \<and> installed sample_config (nat_tab w')"
proof -
  let ?w = "(empty_world no_rules)\<lparr>procs := [(4242, sample_daemon)]\<rparr>"
  obtain w' where p: "proxy_startup working_os sample_config ?w = Some (True, w')"
    using proxy_startup_quiet [OF working_os_exact _ _ _ sample_daemon_start, of ?w]
    by (auto simp: working_os_def reference_os_def)
  from startup_all_or_nothing [OF working_os_exact _ p] p show ?thesis by simp
qed

section \<open>The status text\<close>

lemma show_bypass_rest:
  "length shown + sum_list (map (\<lambda>b. Suc (length (btext b))) bs) < FP_BYPASS_TEXT_SIZE \<Longrightarrow>
   show_bypass bs False shown = shown @ concat (map (\<lambda>b. CHR '','' # btext b) bs)"
  by (induction bs arbitrary: shown) (simp_all add: append_shown_def)

lemma join_with_concat: "join_with c (t # ts) = t @ concat (map (\<lambda>s. c # s) ts)"
  by (induction ts arbitrary: t) auto

lemma entries_size:
  "\<forall>b \<in> set bs. wf_entry b \<Longrightarrow> sum_list (map (\<lambda>b. Suc (length (btext b))) bs) \<le> 19 * length bs"
  by (induction bs) (auto dest: wf_btext(4))

lemma show_bypass_all:
  assumes "wf_bypass bs" and "bs \<noteq> []"
  shows "show_bypass bs True '''' = join_with CHR '','' (map btext bs)"
proof -
  obtain b bs' where bs: "bs = b # bs'" using assms(2) by (cases bs) auto
  have "\<forall>b \<in> set bs. wf_entry b" "length bs \<le> 32" using assms(1) by (simp_all add: wf_bypass_def FP_MAX_BYPASS_def)
  then have l: "sum_list (map (\<lambda>b. Suc (length (btext b))) bs) \<le> 608" using entries_size [of bs] by linarith
  then have 1: "append_shown True b '''' = btext b"
    by (simp add: append_shown_def bs FP_BYPASS_TEXT_SIZE_def FP_MAX_BYPASS_def)
  have "show_bypass bs' False (btext b) = btext b @ concat (map (\<lambda>b. CHR '','' # btext b) bs')"
    by (rule show_bypass_rest) (use l in \<open>simp add: bs FP_BYPASS_TEXT_SIZE_def FP_MAX_BYPASS_def\<close>)
  with 1 show ?thesis by (simp add: bs join_with_concat comp_def)
qed

lemma word_port: "word_of_nat (unat (p :: port)) = p"
  by simp

lemma port_ge_1: "(p :: port) \<noteq> 0 \<Longrightarrow> 1 \<le> unat p"
  by (simp add: Suc_le_eq unat_gt_0)

lemma status_of_config:
  assumes "faults os = (\<lambda>_. False)" and "stored_config w = Some config"
    and "fp_collect_status os w = (status, w')"
  shows "config_present status \<and> config_valid status
    \<and> fp_parse_proxy (proxy_text status) cfg
        = (ok, cfg\<lparr>proxy_addr := proxy_addr config, proxy_port := proxy_port config\<rparr>)
    \<and> (if bypass config = [] then bypass_shown status = ''none''
       else fp_parse_bypass_list (Some (bypass_shown status)) cfg = (ok, cfg\<lparr>bypass := bypass config\<rparr>))
    \<and> bypass_shown status = (if bypass config = [] then ''none'' else join_with CHR '','' (map btext (bypass config)))"
proof -
  have wf: "wf_config config" by (rule stored_config_wf [OF assms(2)])
  obtain e w1 where 1: "fp_config_exists os w = (e, w1)" by force
  have e: "e" "files w1 = files w"
    using 1 assms(1,2) by (auto simp: fp_config_exists_def sys_access_def sys_fault_def stored_config_def split: option.splits)
  obtain pid w2 where 2: "fp_read_pid os w1 = (pid, w2)" by force
  obtain run w3 where 3: "(if pid > 1 then (case sys_kill os pid 0 w2 of (e, w) \<Rightarrow> (e = None, w)) else (False, w2)) = (run, w3)"
    by force
  obtain auto w4 where 4: "fp_autostart_is_enabled os w3 = (auto, w4)" by force
  have f4: "files w4 = files w"
    using e fp_read_pid_same [OF 2] 3 4 sys_same_files(6) [of os pid 0 w2]
    by (auto simp: same_files_def fp_autostart_is_enabled_def sys_access_def sys_fault_def spawn_systemctl_def
        sys_spawn_fault_def Let_def split: prod.splits if_splits)
  obtain w5 where 5: "fp_config_load os empty_config w4 = ((ok, config), w5)"
    using fp_config_load_found [of w4 config os empty_config] f4 assms(1,2)
    by (metis prod.collapse stored_config_def)
  obtain en w6 where 6: "fp_firewall_is_enabled os config w5 = (en, w6)" by force
  have l: "length (inet_ntop (proxy_addr config)) \<le> 15" by (rule length_inet_ntop)
  let ?port = "CHR '':'' # dec (unat (proxy_port config))"
  have a: "length ?port < INET_ADDRSTRLEN + 7 - length (inet_ntop (proxy_addr config))"
    using l length_dec_port [of "proxy_port config"] by (simp add: INET_ADDRSTRLEN_def)
  have st: "config_present status" "config_valid status"
    "proxy_text status = inet_ntop (proxy_addr config) @ '':'' @ dec (unat (proxy_port config))"
    "bypass_shown status = (if bypass config = [] then ''none'' else show_bypass (bypass config) True '''')"
    using assms(3) 1 e 2 3 4 5 6 a
    by (auto simp: fp_collect_status_def Let_def FP_BYPASS_TEXT_SIZE_def FP_MAX_BYPASS_def)
  have "1 \<le> unat (proxy_port config)" "unat (proxy_port config) \<le> 65535"
    using wf port_ge_1 unat_port_bound [of "proxy_port config"] by (auto simp: wf_config_def)
  note fp_parse_proxy_print [OF this, of "proxy_addr config" cfg, unfolded word_port]
  with st wf show ?thesis
    by (auto simp: wf_config_def show_bypass_all parse_bypass_texts)
qed

text \<open>
  C29: The status shows the stored configuration in full. On a machine where no file call fails it is
  present and valid, the shown proxy parses back to the stored address and port, and the shown
  direct list, if there is one, parses back to the stored list: neither buffer cuts anything off.
\<close>

theorem status_shows_config:
  assumes "faults os = (\<lambda>_. False)" and "stored_config w = Some config"
    and "fp_collect_status os w = (status, w')"
  shows "config_present status \<and> config_valid status
    \<and> fp_parse_proxy (proxy_text status) cfg
        = (ok, cfg\<lparr>proxy_addr := proxy_addr config, proxy_port := proxy_port config\<rparr>)
    \<and> (if bypass config = [] then bypass_shown status = ''none''
       else fp_parse_bypass_list (Some (bypass_shown status)) cfg = (ok, cfg\<lparr>bypass := bypass config\<rparr>))"
  using status_of_config [OF assms, of cfg] by argo

theorem status_shows_config_witness:
  "\<exists>status. fst (fp_collect_status working_os stored_world) = status \<and> config_valid status
     \<and> fp_parse_bypass_list (Some (bypass_shown status)) empty_config
         = (ok, empty_config\<lparr>bypass := bypass sample_config\<rparr>)"
proof -
  obtain status w' where c: "fp_collect_status working_os stored_world = (status, w')" by force
  have "bypass sample_config \<noteq> []" by (simp add: sample_config_def)
  with status_shows_config [OF _ _ c, of sample_config empty_config] c show ?thesis by simp
qed

end
