(* ===== verification/Sockets.thy ===== *)
theory Sockets
  imports Prelude
begin

text \<open>
  Stream sockets as the program's loops see them, and the loops that read or write exactly \<open>n\<close>
  bytes. The peer and the network are a script: what the successive \<open>recv\<close> calls deliver, in
  chunks of any size and with any interruptions, and how much the successive \<open>send\<close> calls
  take. A theorem for all sockets holds for every such script. The socket has receive and send
  timeouts (\<open>set_socket_timeouts\<close>), so a \<open>recv\<close> for which nothing arrives ends with
  \<open>EAGAIN\<close>: that is the answer of the empty script.
\<close>

datatype sock_errno = E_INTR | E_AGAIN | E_OTHER

datatype recv_event = Chunk "byte list" | RIntr | RAgain | RFail | REof

datatype send_event = Take nat | SIntr | SFail

record sock =
  rx :: "recv_event list"
  plan :: "send_event list"
  tx :: "byte list"
  shut_wr :: bool

text \<open>A call of \<open>recv\<close>: received bytes (none is the end of the stream) or an error.\<close>

datatype recv_result = Received "byte list" | RecvErr sock_errno

definition sys_recv :: "nat \<Rightarrow> sock \<Rightarrow> recv_result \<times> sock" where
  "sys_recv n s =
     (case rx s of
        [] \<Rightarrow> (RecvErr E_AGAIN, s)
      | Chunk bs # es \<Rightarrow>
          (Received (take n bs), s\<lparr>rx := (if n < length bs then Chunk (drop n bs) # es else es)\<rparr>)
      | RIntr # es \<Rightarrow> (RecvErr E_INTR, s\<lparr>rx := es\<rparr>)
      | RAgain # es \<Rightarrow> (RecvErr E_AGAIN, s\<lparr>rx := es\<rparr>)
      | RFail # es \<Rightarrow> (RecvErr E_OTHER, s\<lparr>rx := es\<rparr>)
      | REof # es \<Rightarrow> (Received [], s))"

datatype send_result = Sent nat | SendErr sock_errno

definition sys_send :: "byte list \<Rightarrow> sock \<Rightarrow> send_result \<times> sock" where
  "sys_send bs s =
     (case plan s of
        [] \<Rightarrow> (Sent (length bs), s\<lparr>tx := tx s @ bs\<rparr>)
      | Take n # es \<Rightarrow> (Sent (min n (length bs)), s\<lparr>plan := es, tx := tx s @ take n bs\<rparr>)
      | SIntr # es \<Rightarrow> (SendErr E_INTR, s\<lparr>plan := es\<rparr>)
      | SFail # es \<Rightarrow> (SendErr E_OTHER, s\<lparr>plan := es\<rparr>))"

text \<open>The bytes a reader gets before it meets the end, a timeout or an error.\<close>

fun wire :: "recv_event list \<Rightarrow> byte list" where
  "wire [] = []"
| "wire (Chunk bs # es) = (if bs = [] then [] else bs @ wire es)"
| "wire (RIntr # es) = wire es"
| "wire (e # es) = []"

definition same_out :: "sock \<Rightarrow> sock \<Rightarrow> bool" where
  "same_out s s' \<longleftrightarrow> (\<exists>es. s' = s\<lparr>rx := es\<rparr>)"

lemma same_out_refl [simp]: "same_out s s"
  unfolding same_out_def by (rule exI [of _ "rx s"]) simp

lemma same_out_trans [trans]: "same_out a b \<Longrightarrow> same_out b c \<Longrightarrow> same_out a c"
  by (auto simp: same_out_def)

lemma same_out_sel [frame]: "same_out s s' \<Longrightarrow> tx s' = tx s \<and> plan s' = plan s \<and> shut_wr s' = shut_wr s"
  by (auto simp: same_out_def)

lemma sys_recv_same_out: "sys_recv n s = (r, s') \<Longrightarrow> same_out s s'"
  by (auto simp: sys_recv_def same_out_def split: list.splits recv_event.splits intro: exI [of _ "rx s"])

lemma sys_recv_data:
  assumes "sys_recv n s = (Received bs, s')" "bs \<noteq> []"
  shows "wire (rx s) = bs @ wire (rx s')" and "length bs \<le> n"
  using assms by (auto simp: sys_recv_def split: list.splits recv_event.splits if_splits)

lemma sys_recv_intr: "sys_recv n s = (RecvErr E_INTR, s') \<Longrightarrow> wire (rx s) = wire (rx s')"
  by (auto simp: sys_recv_def split: list.splits recv_event.splits)

lemma sys_recv_end:
  assumes "sys_recv n s = (r, s')" "r = Received [] \<or> r = RecvErr E_AGAIN \<or> r = RecvErr E_OTHER" "0 < n"
  shows "wire (rx s) = []"
  using assms by (auto simp: sys_recv_def split: list.splits recv_event.splits if_splits)

text \<open>The three things a reading loop can see, with what each leaves of the stream.\<close>

lemma recv_cases:
  assumes "sys_recv n s = (r, s')" "0 < n"
  obtains (intr) "r = RecvErr E_INTR" "wire (rx s') = wire (rx s)" "length (rx s') < length (rx s)"
  | (ended) "r = Received [] \<or> (\<exists>e. r = RecvErr e \<and> e \<noteq> E_INTR)" "wire (rx s) = []"
  | (got) bs where "r = Received bs" "bs \<noteq> []" "length bs \<le> n" "wire (rx s) = bs @ wire (rx s')"
      "length (rx s') \<le> length (rx s)"
proof (cases r)
  case (RecvErr e)
  with assms intr ended show thesis
    by (cases "e = E_INTR") (auto simp: sys_recv_def split: list.splits recv_event.splits if_splits)
next
  case (Received bs)
  show thesis
  proof (cases "bs = []")
    case True
    with Received sys_recv_end [OF assms(1) _ assms(2)] ended show thesis by simp
  next
    case False
    moreover have "length (rx s') \<le> length (rx s)"
      using assms Received by (auto simp: sys_recv_def split: list.splits recv_event.splits if_splits)
    ultimately show thesis using Received sys_recv_data [of n s bs s'] assms(1) got by simp
  qed
qed

section \<open>Reading exactly n bytes\<close>

text \<open>
  The kernel may fill all the memory a \<open>recv\<close> names: a call that names memory outside the
  buffer is \<^const>\<open>None\<close>, behaviour the program must never have.
\<close>

definition put_bytes :: "byte list \<Rightarrow> nat \<Rightarrow> byte list \<Rightarrow> byte list" where
  "put_bytes buf off bs = take off buf @ bs @ drop (off + length bs) buf"

lemma sys_recv_smaller:
  assumes "sys_recv n s = (r, s')" and "0 < n" and "r = RecvErr E_INTR \<or> (\<exists>bs. bs \<noteq> [] \<and> r = Received bs)"
  shows "length (rx s') < length (rx s) \<or> (\<exists>bs. r = Received bs \<and> length bs = n \<and> length (rx s') = length (rx s))"
  using assms by (auto simp: sys_recv_def split: list.splits recv_event.splits if_splits)

function read_loop :: "byte list \<Rightarrow> nat \<Rightarrow> nat \<Rightarrow> sock \<Rightarrow> (int \<times> byte list \<times> sock) option" where
  "read_loop buf cursor len s =
     (if len = 0 then Some (ok, buf, s)
      else if length buf < cursor + len then None
      else case sys_recv len s of
          (RecvErr e, s') \<Rightarrow> if e = E_INTR then read_loop buf cursor len s' else Some (fail, buf, s')
        | (Received bs, s') \<Rightarrow>
            if bs = [] then Some (fail, buf, s')
            else read_loop (put_bytes buf cursor bs) (cursor + length bs) (len - length bs) s')"
  by pat_completeness auto
termination
  by (relation "measures [\<lambda>(buf, cursor, len, s). length (rx s), \<lambda>(buf, cursor, len, s). len]")
    (auto dest!: sym [of _ "sys_recv _ _"] dest: sys_recv_smaller)

declare read_loop.simps [simp del]

lemma put_bytes_put [simp]:
  assumes "cursor + length bs + n \<le> length buf"
  shows "take (cursor + length bs) (put_bytes buf cursor bs) = take cursor buf @ bs"
    and "drop (cursor + length bs + n) (put_bytes buf cursor bs) = drop (cursor + length bs + n) buf"
    and "length (put_bytes buf cursor bs) = length buf"
proof -
  have "cursor \<le> length buf" using assms by simp
  then show "take (cursor + length bs) (put_bytes buf cursor bs) = take cursor buf @ bs"
    "drop (cursor + length bs + n) (put_bytes buf cursor bs) = drop (cursor + length bs + n) buf"
    "length (put_bytes buf cursor bs) = length buf"
    using assms by (simp_all add: put_bytes_def add.commute)
qed

lemma read_loop_got:
  assumes "cursor + len \<le> length buf" "length bs \<le> len" "wire (rx s) = bs @ wire (rx s')" "same_out s s'"
    and "\<exists>r buf' s''. read_loop (put_bytes buf cursor bs) (cursor + length bs) (len - length bs) s' = Some (r, buf', s'')
      \<and> same_out s' s'' \<and> length buf' = length (put_bytes buf cursor bs)
      \<and> (if len - length bs \<le> length (wire (rx s'))
         then r = ok \<and> buf' = take (cursor + length bs) (put_bytes buf cursor bs)
             @ take (len - length bs) (wire (rx s'))
             @ drop (cursor + length bs + (len - length bs)) (put_bytes buf cursor bs)
           \<and> wire (rx s'') = drop (len - length bs) (wire (rx s'))
         else r = fail)"
  shows "\<exists>r buf' s''. read_loop (put_bytes buf cursor bs) (cursor + length bs) (len - length bs) s' = Some (r, buf', s'')
      \<and> same_out s s'' \<and> length buf' = length buf
      \<and> (if len \<le> length (wire (rx s))
         then r = ok \<and> buf' = take cursor buf @ take len (wire (rx s)) @ drop (cursor + len) buf
           \<and> wire (rx s'') = drop len (wire (rx s))
         else r = fail)"
proof -
  have "cursor + length bs + (len - length bs) \<le> length buf" using assms(1,2) by simp
  note p = put_bytes_put [OF this]
  from assms(5) obtain r buf' s'' where
    "read_loop (put_bytes buf cursor bs) (cursor + length bs) (len - length bs) s' = Some (r, buf', s'')"
    "same_out s' s''" "length buf' = length (put_bytes buf cursor bs)"
    "if len - length bs \<le> length (wire (rx s'))
     then r = ok \<and> buf' = take cursor buf @ bs @ take (len - length bs) (wire (rx s')) @ drop (cursor + len) buf
       \<and> wire (rx s'') = drop (len - length bs) (wire (rx s'))
     else r = fail"
    using p assms(2) by (auto split: if_splits)
  then show ?thesis using assms(2,3) p(3) same_out_trans [OF assms(4)] by (auto split: if_splits)
qed

text \<open>
  The loop reads exactly \<open>len\<close> bytes if they come before the end of the stream, however they are
  split and whatever interrupts it, and fails otherwise; it always ends and stays in its buffer.
\<close>

lemma read_loop_result:
  assumes "cursor + len \<le> length buf"
  shows "\<exists>r buf' s'. read_loop buf cursor len s = Some (r, buf', s') \<and> same_out s s'
    \<and> length buf' = length buf
    \<and> (if len \<le> length (wire (rx s))
       then r = ok \<and> buf' = take cursor buf @ take len (wire (rx s)) @ drop (cursor + len) buf
         \<and> wire (rx s') = drop len (wire (rx s))
       else r = fail)"
  using assms
proof (induction buf cursor len s rule: read_loop.induct)
  case (1 buf cursor len s)
  obtain r s' where r: "sys_recv len s = (r, s')" by force
  note o = sys_recv_same_out [OF r]
  have fit: "\<not> length buf < cursor + len" using "1.prems" by simp
  show ?case
  proof (cases "len = 0")
    case False
    then have "0 < len" by simp
    with r show ?thesis
    proof (cases rule: recv_cases)
      case intr
      then have n: "read_loop buf cursor len s = read_loop buf cursor len s'"
        using r False fit by (subst read_loop.simps) simp
      from "1.IH"(2) [OF False fit r [symmetric] intr(1) refl "1.prems"] same_out_trans [OF o]
      show ?thesis unfolding n intr(2) by blast
    next
      case ended
      with r False fit o show ?thesis by (subst read_loop.simps) (auto split: recv_result.split)
    next
      case (got bs)
      have n: "read_loop buf cursor len s
          = read_loop (put_bytes buf cursor bs) (cursor + length bs) (len - length bs) s'"
        using got r False fit by (subst read_loop.simps) simp
      have "cursor + length bs + (len - length bs) \<le> length (put_bytes buf cursor bs)"
        using put_bytes_put(3) [of cursor bs "len - length bs" buf] got(3) "1.prems" by simp
      from read_loop_got [OF "1.prems" got(3,4) o "1.IH"(1) [OF False fit r [symmetric] got(1,2) this]]
      show ?thesis unfolding n .
    qed
  qed (simp add: read_loop.simps)
qed

section \<open>The interface of an exact reader\<close>

text \<open>
  The clients of the three copies of \<open>read_all\<close> in the sources rest on this contract only:
  \<open>n\<close> bytes into the start of a buffer that has room for them, or failure if the stream ends
  first. It says nothing of chunks, interruptions or the loop.
\<close>

locale exact_reader =
  fixes reader :: "byte list \<Rightarrow> nat \<Rightarrow> sock \<Rightarrow> (int \<times> byte list \<times> sock) option"
  assumes read_enough: "n \<le> length buf \<Longrightarrow> n \<le> length (wire (rx s)) \<Longrightarrow>
      \<exists>s'. reader buf n s = Some (ok, take n (wire (rx s)) @ drop n buf, s')
        \<and> wire (rx s') = drop n (wire (rx s)) \<and> same_out s s'"
    and read_short: "n \<le> length buf \<Longrightarrow> length (wire (rx s)) < n \<Longrightarrow>
      \<exists>buf' s'. reader buf n s = Some (fail, buf', s') \<and> length buf' = length buf \<and> same_out s s'"
begin

lemma read_cases:
  assumes "n \<le> length buf"
  obtains (got) s' where "n \<le> length (wire (rx s))"
      "reader buf n s = Some (ok, take n (wire (rx s)) @ drop n buf, s')"
      "wire (rx s') = drop n (wire (rx s))" "same_out s s'"
  | (short) buf' s' where "length (wire (rx s)) < n" "reader buf n s = Some (fail, buf', s')"
      "length buf' = length buf" "same_out s s'"
  using read_enough [OF assms, of s] read_short [OF assms, of s] by (meson not_le)

text \<open>A reader never leaves its buffer and reports 0 or -1.\<close>

lemma read_total:
  assumes "n \<le> length buf"
  shows "\<exists>r buf' s'. reader buf n s = Some (r, buf', s') \<and> (r = ok \<or> r = fail)
    \<and> length buf' = length buf \<and> same_out s s'"
proof (cases rule: read_cases [OF assms, of s])
  case (1 s')
  with assms show ?thesis by auto
next
  case (2 buf' s')
  then show ?thesis by auto
qed

text \<open>Two bytes, the shape of every SOCKS5 header.\<close>

lemma read_two:
  assumes "length buf = 2"
  shows "\<exists>r buf' s'. reader buf 2 s = Some (r, buf', s') \<and> same_out s s' \<and> length buf' = 2
    \<and> (case wire (rx s) of
         a # b # ws \<Rightarrow> r = ok \<and> buf' = [a, b] \<and> wire (rx s') = ws
       | _ \<Rightarrow> r = fail)"
proof -
  have l: "2 \<le> length buf" using assms by simp
  show ?thesis
  proof (cases rule: read_cases [OF l, of s])
  case (1 s')
  then obtain a b ws where "wire (rx s) = a # b # ws"
    by (auto simp: numeral_2_eq_2 Suc_le_length_iff)
  with 1 assms show ?thesis by (auto simp: numeral_2_eq_2)
next
  case (2 buf' s')
  then have "length (wire (rx s)) < Suc (Suc 0)" by simp
  then show ?thesis using 2 assms by (auto split: list.splits)
qed
qed

end

lemma read_loop_exact: "exact_reader (\<lambda>buf n s. read_loop buf 0 n s)"
proof unfold_locales
  fix n and buf :: "byte list" and s :: sock
  assume "n \<le> length buf"
  then have l: "0 + n \<le> length buf" by simp
  note r = read_loop_result [OF l, of s]
  show "n \<le> length (wire (rx s)) \<Longrightarrow>
      \<exists>s'. read_loop buf 0 n s = Some (ok, take n (wire (rx s)) @ drop n buf, s')
        \<and> wire (rx s') = drop n (wire (rx s)) \<and> same_out s s'"
    using r by auto
  show "length (wire (rx s)) < n \<Longrightarrow>
      \<exists>buf' s'. read_loop buf 0 n s = Some (fail, buf', s') \<and> length buf' = length buf \<and> same_out s s'"
    using r by auto
qed

section \<open>Writing all bytes\<close>

function write_all :: "byte list \<Rightarrow> sock \<Rightarrow> int \<times> sock" where
  "write_all bs s =
     (if bs = [] then (ok, s)
      else case sys_send bs s of
          (SendErr e, s') \<Rightarrow> if e = E_INTR then write_all bs s' else (fail, s')
        | (Sent n, s') \<Rightarrow> if n = 0 then (fail, s') else write_all (drop n bs) s')"
  by pat_completeness auto
termination
  by (relation "measure (\<lambda>(bs, s). length bs + length (plan s))")
    (auto simp: sys_send_def split: list.splits send_event.splits)

declare write_all.simps [simp del]

definition same_in :: "sock \<Rightarrow> sock \<Rightarrow> bool" where
  "same_in s s' \<longleftrightarrow> rx s' = rx s \<and> shut_wr s' = shut_wr s"

lemma same_in_refl [simp]: "same_in s s"
  by (simp add: same_in_def)

lemma same_in_trans [trans]: "same_in a b \<Longrightarrow> same_in b c \<Longrightarrow> same_in a c"
  by (simp add: same_in_def)

lemma sys_send_effect:
  assumes "sys_send bs s = (r, s')"
  shows "same_in s s'"
    and "r = Sent n \<Longrightarrow> n \<le> length bs \<and> tx s' = tx s @ take n bs"
    and "r = SendErr e \<Longrightarrow> tx s' = tx s"
  using assms by (auto simp: sys_send_def same_in_def min_def split: list.splits send_event.splits)

text \<open>
  On success all the bytes have been handed over in order, after those already sent; on failure
  a proper prefix has been.
\<close>

lemma write_all_result:
  assumes "write_all bs s = (r, s')"
  shows "same_in s s' \<and> (if r = ok then tx s' = tx s @ bs
     else r = fail \<and> (\<exists>n < length bs. tx s' = tx s @ take n bs))"
  using assms
proof (induction bs s arbitrary: r s' rule: write_all.induct)
  case (1 bs s)
  show ?case
  proof (cases "bs = []")
    case True
    with "1.prems" show ?thesis by (simp add: write_all.simps)
  next
    case False
    obtain q s1 where q: "sys_send bs s = (q, s1)" by force
    note e = sys_send_effect [OF q]
    show ?thesis
    proof (cases q)
      case (SendErr x)
      with "1.IH"(2) [OF False q [symmetric] SendErr, of r s'] "1.prems" e False q show ?thesis
        by (subst (asm) (2) write_all.simps) (auto intro: same_in_trans split: if_splits)
    next
      case (Sent n)
      show ?thesis
      proof (cases "n = 0")
        case True
        with "1.prems" e Sent q False show ?thesis
          by (subst (asm) write_all.simps) auto
      next
        case n: False
        have w: "write_all (drop n bs) s1 = (r, s')"
          using "1.prems" q Sent False n by (subst (asm) write_all.simps) simp
        have t: "n \<le> length bs" "tx s1 = tx s @ take n bs" using e Sent by auto
        from "1.IH"(1) [OF False q [symmetric] Sent n w] e(1) t show ?thesis
          by (auto simp: take_add [symmetric] intro: same_in_trans split: if_splits
              intro!: exI [of _ "n + m" for m])
      qed
    qed
  qed
qed

end
