(* ===== verification/Socks5.thy ===== *)
theory Socks5
  imports Sockets
begin

text \<open>
  Reading away the bound address of a SOCKS5 reply (\<open>src/socks5.c\<close>). The version and status
  bytes have been read by the caller; what is left is a reserved zero, the address type, the
  address and the port.
\<close>

definition read_all :: "byte list \<Rightarrow> nat \<Rightarrow> sock \<Rightarrow> (int \<times> byte list \<times> sock) option" where
  "read_all buffer n s = read_loop buffer 0 n s"

definition fp_socks5_drain_bind :: "sock \<Rightarrow> (int \<times> sock) option" where
  "fp_socks5_drain_bind s =
     (let header = replicate 2 0; discard = replicate 257 0 in do {
        (r, header, s) \<leftarrow> read_all header (length header) s;
        if r \<noteq> ok \<or> header ! 0 \<noteq> 0 then Some (fail, s)
        else if header ! 1 = 1 then do { (r, _, s) \<leftarrow> read_all discard 6 s; Some (r, s) }
        else if header ! 1 = 4 then do { (r, _, s) \<leftarrow> read_all discard 18 s; Some (r, s) }
        else if header ! 1 = 3 then do {
          (r, discard, s) \<leftarrow> read_all discard 1 s;
          if r \<noteq> ok then Some (fail, s)
          else do { (r, _, s) \<leftarrow> read_all discard (unat (discard ! 0) + 2) s; Some (r, s) } }
        else Some (fail, s) })"

interpretation socks: exact_reader read_all
  unfolding read_all_def by (rule read_loop_exact)

text \<open>How many bytes the bound address takes, from its reserved byte on, by the protocol.\<close>

definition bind_length :: "byte list \<Rightarrow> nat option" where
  "bind_length ws =
     (case ws of
        rsv # atyp # rest \<Rightarrow>
          if rsv \<noteq> 0 then None
          else if atyp = 1 then Some (2 + 4 + 2)
          else if atyp = 4 then Some (2 + 16 + 2)
          else if atyp = 3 then (case rest of [] \<Rightarrow> None | n # _ \<Rightarrow> Some (2 + 1 + unat n + 2))
          else None
      | _ \<Rightarrow> None)"

definition after_bind :: "byte list \<Rightarrow> byte list option" where
  "after_bind ws =
     (case bind_length ws of
        None \<Rightarrow> None
      | Some n \<Rightarrow> if n \<le> length ws then Some (drop n ws) else None)"

lemma after_bind_short: "length ws < 2 \<Longrightarrow> after_bind ws = None"
  by (auto simp: after_bind_def bind_length_def split: list.splits)

lemma discard_rest:
  assumes "length buf = 257" "n \<le> 257"
  shows "\<exists>r s'. (do { (r, _, s) \<leftarrow> read_all buf n s; Some (r, s) }) = Some (r, s') \<and> same_out s s'
    \<and> (if n \<le> length (wire (rx s)) then r = ok \<and> wire (rx s') = drop n (wire (rx s)) else r = fail)"
proof -
  have l: "n \<le> length buf" using assms by simp
  show ?thesis by (cases rule: socks.read_cases [OF l, of s]) auto
qed

lemma unat_byte_bound: "unat (b :: byte) + 2 \<le> 257"
  using unsigned_less [of b, where ?'a = nat] by simp

text \<open>A domain name: its length, then that many bytes and the port.\<close>

lemma discard_domain:
  "\<exists>r s'. (do { (r, discard, s) \<leftarrow> read_all (replicate 257 0) 1 s;
        if r \<noteq> ok then Some (fail, s)
        else do { (r, _, s) \<leftarrow> read_all discard (unat (discard ! 0) + 2) s; Some (r, s) } }) = Some (r, s')
    \<and> same_out s s'
    \<and> (case wire (rx s) of
         n # rest \<Rightarrow> if unat n + 2 \<le> length rest then r = ok \<and> wire (rx s') = drop (unat n + 2) rest else r = fail
       | [] \<Rightarrow> r = fail)"
proof -
  have l: "1 \<le> length (replicate 257 (0 :: byte))" by simp
  show ?thesis
  proof (cases rule: socks.read_cases [OF l, of s])
    case (1 s2)
    then obtain n rest where n: "wire (rx s) = n # rest" by (cases "wire (rx s)") auto
    have b: "length (n # drop 1 (replicate 257 (0 :: byte))) = 257" by simp
    from 1 n discard_rest [OF b unat_byte_bound [of n], of s2] show ?thesis
      by (auto split: if_splits intro: same_out_trans)
  next
    case (2 buf s2)
    then show ?thesis by auto
  qed
qed

text \<open>The outcome for every script.\<close>

lemma drain_bind_result:
  "\<exists>r s'. fp_socks5_drain_bind s = Some (r, s') \<and> same_out s s'
     \<and> (case after_bind (wire (rx s)) of
          Some ws \<Rightarrow> r = ok \<and> wire (rx s') = ws
        | None \<Rightarrow> r = fail)"
proof -
  obtain r1 h s1 where 1: "read_all (replicate 2 0) 2 s = Some (r1, h, s1)" "same_out s s1" "length h = 2"
    "case wire (rx s) of a # b # ws \<Rightarrow> r1 = ok \<and> h = [a, b] \<and> wire (rx s1) = ws | _ \<Rightarrow> r1 = fail"
    using socks.read_two [of "replicate 2 0" s] by auto
  show ?thesis
  proof (cases "\<exists>a b ws. wire (rx s) = a # b # ws")
    case False
    then have "length (wire (rx s)) < 2" by (metis not_less numeral_2_eq_2 Suc_le_length_iff)
    moreover have "r1 = fail" using 1(4) False by (auto split: list.splits)
    ultimately show ?thesis
      using 1 by (simp add: fp_socks5_drain_bind_def numeral_2_eq_2 after_bind_short)
  next
    case True
    then obtain a b ws where w: "wire (rx s) = a # b # ws" by blast
    with 1(4) have v: "r1 = ok" "h = [a, b]" "wire (rx s1) = ws" by auto
    have d: "fp_socks5_drain_bind s =
      (if a \<noteq> 0 then Some (fail, s1)
       else if b = 1 then do { (r, _, s) \<leftarrow> read_all (replicate 257 0) 6 s1; Some (r, s) }
       else if b = 4 then do { (r, _, s) \<leftarrow> read_all (replicate 257 0) 18 s1; Some (r, s) }
       else if b = 3 then do {
          (r, discard, s) \<leftarrow> read_all (replicate 257 0) 1 s1;
          if r \<noteq> ok then Some (fail, s)
          else do { (r, _, s) \<leftarrow> read_all discard (unat (discard ! 0) + 2) s; Some (r, s) } }
       else Some (fail, s1))"
      using 1(1) v by (simp add: fp_socks5_drain_bind_def Let_def)
    note frame = same_out_trans [OF 1(2)]
    consider "a \<noteq> 0" | "a = 0" "b = 1" | "a = 0" "b = 4" | "a = 0" "b = 3"
      | "a = 0" "b \<noteq> 1" "b \<noteq> 4" "b \<noteq> 3" by blast
    then show ?thesis
    proof cases
      case 4
      from discard_domain [of s1] v 4 d w frame show ?thesis
        by (cases ws) (auto simp: after_bind_def bind_length_def eval_nat_numeral split: if_splits)
    qed (use discard_rest [of "replicate 257 0" 6 s1] discard_rest [of "replicate 257 0" 18 s1] v d w 1(2) frame in
        \<open>auto simp: after_bind_def bind_length_def split: if_splits\<close>)
  qed
qed

section \<open>Property\<close>

text \<open>
  \<open>fp_socks5_drain_bind\<close> always returns and never writes outside its buffers, and it succeeds
  exactly if the stream holds a complete bound address (IPv4, IPv6 or a domain name of any
  length); then it has consumed that address and not one byte of what follows, however the bytes
  are split and whatever interrupts the reads.
\<close>

theorem socks5_drain_exact:
  "\<exists>r s'. fp_socks5_drain_bind s = Some (r, s')
     \<and> tx s' = tx s \<and> plan s' = plan s \<and> shut_wr s' = shut_wr s
     \<and> (case after_bind (wire (rx s)) of
          Some ws \<Rightarrow> r = ok \<and> wire (rx s') = ws
        | None \<Rightarrow> r = fail)"
  using drain_bind_result [of s] by (auto dest: same_out_sel)

end
