(* ===== verification/Stats.thy ===== *)
theory Stats
  imports Prelude
begin

text \<open>
  The shared connection table (\<open>src/stats.c\<close>): a file the daemon creates and maps, its worker
  processes write and the monitor maps read-only. This theory has the operations as each process
  runs them; \<open>Stats_Sharing\<close> has their interleaving.
\<close>

section \<open>The map\<close>

type_synonym u32 = "32 word"
type_synonym u64 = "64 word"

definition FP_MAX_CLIENTS :: nat where "FP_MAX_CLIENTS = 128"
definition FP_STATS_MAGIC :: u32 where "FP_STATS_MAGIC = 0x46505354"
definition FP_STATS_VERSION :: u32 where "FP_STATS_VERSION = 1"

record fp_stats_conn =
  active :: u32
  dest_addr :: ip
  dest_port :: port
  slot_pid :: int
  bytes_up :: u64
  bytes_down :: u64
  start_ms :: u64

record fp_stats_map =
  magic :: u32
  version :: u32
  slot_count :: u32
  started_ms :: u64
  total_up :: u64
  total_down :: u64
  slots :: "fp_stats_conn list"

definition zero_conn :: fp_stats_conn where
  "zero_conn = \<lparr>active = 0, dest_addr = 0, dest_port = 0, slot_pid = 0, bytes_up = 0, bytes_down = 0,
     start_ms = 0\<rparr>"

text \<open>\<open>memset\<close> of the mapped structure.\<close>

definition zero_map :: fp_stats_map where
  "zero_map = \<lparr>magic = 0, version = 0, slot_count = 0, started_ms = 0, total_up = 0, total_down = 0,
     slots = replicate FP_MAX_CLIENTS zero_conn\<rparr>"

definition update_slot :: "nat \<Rightarrow> (fp_stats_conn \<Rightarrow> fp_stats_conn) \<Rightarrow> fp_stats_map \<Rightarrow> fp_stats_map" where
  "update_slot i f m = m\<lparr>slots := (slots m)[i := f (slots m ! i)]\<rparr>"

text \<open>The clock: seconds and nanoseconds, or a failed \<open>clock_gettime\<close>.\<close>

definition monotonic_ms :: "(u64 \<times> u64) option \<Rightarrow> u64" where
  "monotonic_ms clock = (case clock of None \<Rightarrow> 0 | Some (sec, nsec) \<Rightarrow> sec * 1000 + nsec div 1000000)"

text \<open>What the code assumes of a map it may write: at most as many slots as the array has.\<close>

definition map_ok :: "fp_stats_map \<Rightarrow> bool" where
  "map_ok m \<longleftrightarrow> length (slots m) = FP_MAX_CLIENTS \<and> unat (slot_count m) \<le> FP_MAX_CLIENTS"

section \<open>Workers\<close>

text \<open>
  Writing a slot takes one store per field. \<open>claim_field k\<close> is the \<open>k\<close>-th store of
  \<open>fp_stats_claim\<close> after the compare-and-swap, \<open>release_field k\<close> the \<open>k\<close>-th store of
  \<open>fp_stats_release\<close> and \<open>fp_stats_clear_pid\<close>; the last of these frees the slot.
\<close>

definition claim_field :: "ip \<Rightarrow> port \<Rightarrow> int \<Rightarrow> u64 \<Rightarrow> nat \<Rightarrow> fp_stats_conn \<Rightarrow> fp_stats_conn" where
  "claim_field addr port pid now k s =
     (if k = 0 then s\<lparr>dest_addr := addr\<rparr>
      else if k = 1 then s\<lparr>dest_port := port\<rparr>
      else if k = 2 then s\<lparr>slot_pid := pid\<rparr>
      else if k = 3 then s\<lparr>bytes_up := 0\<rparr>
      else if k = 4 then s\<lparr>bytes_down := 0\<rparr>
      else s\<lparr>start_ms := now\<rparr>)"

definition release_field :: "nat \<Rightarrow> fp_stats_conn \<Rightarrow> fp_stats_conn" where
  "release_field k s =
     (if k = 0 then s\<lparr>bytes_up := 0\<rparr>
      else if k = 1 then s\<lparr>bytes_down := 0\<rparr>
      else if k = 2 then s\<lparr>dest_addr := 0\<rparr>
      else if k = 3 then s\<lparr>dest_port := 0\<rparr>
      else if k = 4 then s\<lparr>slot_pid := 0\<rparr>
      else if k = 5 then s\<lparr>start_ms := 0\<rparr>
      else s\<lparr>active := 0\<rparr>)"

definition claim_slot :: "ip \<Rightarrow> port \<Rightarrow> int \<Rightarrow> u64 \<Rightarrow> fp_stats_conn \<Rightarrow> fp_stats_conn" where
  "claim_slot addr port pid now s = fold (claim_field addr port pid now) [0..<6] (s\<lparr>active := 1\<rparr>)"

definition release_slot :: "fp_stats_conn \<Rightarrow> fp_stats_conn" where
  "release_slot s = fold release_field [0..<7] s"

function claim_loop :: "ip \<Rightarrow> port \<Rightarrow> int \<Rightarrow> u64 \<Rightarrow> nat \<Rightarrow> fp_stats_map \<Rightarrow> int \<times> fp_stats_map" where
  "claim_loop addr port pid now index m =
     (if index < unat (slot_count m) \<and> index < FP_MAX_CLIENTS then
        if active (slots m ! index) = 0
        then (int index, update_slot index (claim_slot addr port pid now) m)
        else claim_loop addr port pid now (Suc index) m
      else (-1, m))"
  by pat_completeness auto
termination
  by (relation "measure (\<lambda>(_, _, _, _, index, _). FP_MAX_CLIENTS - index)") auto

declare claim_loop.simps [simp del]

text \<open>A process without a map (\<open>stats_map == NULL\<close>) does nothing.\<close>

definition fp_stats_claim ::
  "int \<Rightarrow> u64 \<Rightarrow> (ip \<times> port) option \<Rightarrow> fp_stats_map option \<Rightarrow> int \<times> fp_stats_map option" where
  "fp_stats_claim pid now destination mapped =
     (case (mapped, destination) of
        (Some m, Some (addr, port)) \<Rightarrow> (case claim_loop addr port pid now 0 m of (i, m) \<Rightarrow> (i, Some m))
      | _ \<Rightarrow> (-1, mapped))"

text \<open>The guard of \<open>fp_stats_add\<close> and the two counters, the slot's and the total.\<close>

definition fp_stats_add :: "int \<Rightarrow> int \<Rightarrow> u64 \<Rightarrow> u64 \<Rightarrow> fp_stats_map option \<Rightarrow> fp_stats_map option" where
  "fp_stats_add pid slot_index up down mapped =
     (case mapped of
        None \<Rightarrow> None
      | Some m \<Rightarrow>
          if slot_index < 0 \<or> nat slot_index \<ge> unat (slot_count m) then Some m
          else
            let i = nat slot_index; slot = slots m ! i in
            if active slot = 0 \<or> slot_pid slot \<noteq> pid then Some m
            else
              let m = (if up > 0 then (update_slot i (\<lambda>s. s\<lparr>bytes_up := bytes_up s + up\<rparr>) m)
                         \<lparr>total_up := total_up m + up\<rparr> else m);
                  m = (if down > 0 then (update_slot i (\<lambda>s. s\<lparr>bytes_down := bytes_down s + down\<rparr>) m)
                         \<lparr>total_down := total_down m + down\<rparr> else m)
              in Some m)"

definition fp_stats_release :: "int \<Rightarrow> int \<Rightarrow> fp_stats_map option \<Rightarrow> fp_stats_map option" where
  "fp_stats_release pid slot_index mapped =
     (case mapped of
        None \<Rightarrow> None
      | Some m \<Rightarrow>
          if slot_index < 0 \<or> nat slot_index \<ge> unat (slot_count m) then Some m
          else if slot_pid (slots m ! nat slot_index) \<noteq> pid then Some m
          else Some (update_slot (nat slot_index) release_slot m))"

text \<open>The daemon clears after a worker it has waited for.\<close>

fun clear_loop :: "int \<Rightarrow> nat list \<Rightarrow> fp_stats_map \<Rightarrow> fp_stats_map" where
  "clear_loop pid [] m = m"
| "clear_loop pid (i # is) m =
     clear_loop pid is
       (if active (slots m ! i) \<noteq> 0 \<and> slot_pid (slots m ! i) = pid
        then update_slot i release_slot m else m)"

definition fp_stats_clear_pid :: "int \<Rightarrow> fp_stats_map option \<Rightarrow> fp_stats_map option" where
  "fp_stats_clear_pid pid mapped =
     (case mapped of
        None \<Rightarrow> None
      | Some m \<Rightarrow>
          if pid \<le> 1 then Some m
          else Some (clear_loop pid [0..<min (unat (slot_count m)) FP_MAX_CLIENTS] m))"

section \<open>The monitor\<close>

record fp_stats_conn_view =
  view_addr :: ip
  view_port :: port
  view_pid :: int
  view_up :: u64
  view_down :: u64
  age_ms :: u64

record fp_stats_snapshot =
  available :: bool
  snap_started_ms :: u64
  uptime_ms :: u64
  snap_total_up :: u64
  snap_total_down :: u64
  connections :: "fp_stats_conn_view list"

definition empty_snapshot :: fp_stats_snapshot where
  "empty_snapshot = \<lparr>available = False, snap_started_ms = 0, uptime_ms = 0, snap_total_up = 0,
     snap_total_down = 0, connections = []\<rparr>"

text \<open>\<open>kill(pid, 0)\<close> with \<open>ESRCH\<close> says the process is gone: \<open>gone\<close>.\<close>

fun snapshot_loop :: "(int \<Rightarrow> bool) \<Rightarrow> u64 \<Rightarrow> fp_stats_conn list \<Rightarrow> fp_stats_conn_view list
    \<Rightarrow> fp_stats_conn_view list" where
  "snapshot_loop gone now [] views = views"
| "snapshot_loop gone now (s # ss) views =
     (if active s = 0 \<or> slot_pid s \<le> 1 then snapshot_loop gone now ss views
      else if gone (slot_pid s) then snapshot_loop gone now ss views
      else if length views \<ge> FP_MAX_CLIENTS then views
      else snapshot_loop gone now ss (views @
        [\<lparr>view_addr = dest_addr s, view_port = dest_port s, view_pid = slot_pid s,
          view_up = bytes_up s, view_down = bytes_down s,
          age_ms = (if now > start_ms s then now - start_ms s else 0)\<rparr>]))"

definition take_snapshot :: "(int \<Rightarrow> bool) \<Rightarrow> u64 \<Rightarrow> fp_stats_map option \<Rightarrow> int \<times> fp_stats_snapshot" where
  "take_snapshot gone now mapped =
     (case mapped of
        None \<Rightarrow> (-1, empty_snapshot)
      | Some m \<Rightarrow>
          if magic m \<noteq> FP_STATS_MAGIC \<or> version m \<noteq> FP_STATS_VERSION then (-1, empty_snapshot)
          else (0, \<lparr>available = True, snap_started_ms = started_ms m,
            uptime_ms = (if now > started_ms m then now - started_ms m else 0),
            snap_total_up = total_up m, snap_total_down = total_down m,
            connections = snapshot_loop gone now
              (take (min (unat (slot_count m)) FP_MAX_CLIENTS) (slots m)) []\<rparr>))"

section \<open>The file and its mappings\<close>

text \<open>
  The path names at most one file; a mapping keeps the file it was made from, also after the
  path has been unlinked or names another file.
\<close>

record stats_files =
  objects :: "nat \<Rightarrow> fp_stats_map"
  linked :: "nat option"
  fresh :: nat

record stats_proc =
  stats_map :: "nat option"
  stats_fd :: "nat option"
  stats_owner :: bool

text \<open>What the system calls of one operation answer.\<close>

record stats_env =
  mkdir_ok :: bool
  unlink_ok :: bool
  open_ok :: bool
  truncate_ok :: bool
  mmap_ok :: bool
  fstat_ok :: bool
  clock :: "(u64 \<times> u64) option"

definition unlink_stats :: "stats_env \<Rightarrow> stats_files \<Rightarrow> stats_files" where
  "unlink_stats e f = (if unlink_ok e then f\<lparr>linked := None\<rparr> else f)"

definition map_stats :: "stats_env \<Rightarrow> nat \<Rightarrow> stats_proc \<Rightarrow> int \<times> stats_proc" where
  "map_stats e fd p =
     (if \<not> mmap_ok e then (fail, p) else (ok, p\<lparr>stats_map := Some fd, stats_fd := Some fd\<rparr>))"

definition fp_stats_create :: "stats_env \<Rightarrow> stats_proc \<times> stats_files \<Rightarrow> int \<times> stats_proc \<times> stats_files" where
  "fp_stats_create e st =
     (case st of (p, f) \<Rightarrow>
      if stats_map p \<noteq> None then (ok, p, f)
      else if \<not> mkdir_ok e then (fail, p, f)
      else
        let f = unlink_stats e f in
        if \<not> open_ok e \<or> linked f \<noteq> None then (fail, p, f)
        else
          let fd = fresh f;
              f = f\<lparr>objects := (objects f)(fd := zero_map), linked := Some fd, fresh := Suc fd\<rparr>
          in
          if \<not> truncate_ok e then (fail, p, unlink_stats e f)
          else (case map_stats e fd p of (r, p) \<Rightarrow>
            if r \<noteq> ok then (fail, p, unlink_stats e f)
            else (ok, p\<lparr>stats_owner := True\<rparr>, f\<lparr>objects := (objects f)(fd := zero_map
                \<lparr>magic := FP_STATS_MAGIC, version := FP_STATS_VERSION,
                 slot_count := word_of_nat FP_MAX_CLIENTS, started_ms := monotonic_ms (clock e)\<rparr>)\<rparr>)))"

definition header_ok :: "fp_stats_map \<Rightarrow> bool" where
  "header_ok m \<longleftrightarrow> magic m = FP_STATS_MAGIC \<and> version m = FP_STATS_VERSION"

definition fp_stats_open_readonly ::
  "stats_env \<Rightarrow> stats_proc \<times> stats_files \<Rightarrow> int \<times> stats_proc \<times> stats_files" where
  "fp_stats_open_readonly e st =
     (case st of (p, f) \<Rightarrow>
      if stats_map p \<noteq> None then (ok, p, f)
      else (case linked f of
          None \<Rightarrow> (fail, p, f)
        | Some fd \<Rightarrow>
            if \<not> open_ok e then (fail, p, f)
            else (case map_stats e fd p of (r, p) \<Rightarrow>
              if r \<noteq> ok then (fail, p, f)
              else
                let m = objects f fd in
                if \<not> header_ok m \<or> unat (slot_count m) > FP_MAX_CLIENTS
                then (fail, p\<lparr>stats_map := None, stats_fd := None\<rparr>, f)
                else (ok, p\<lparr>stats_owner := False\<rparr>, f))))"

definition fp_stats_close :: "stats_env \<Rightarrow> stats_proc \<times> stats_files \<Rightarrow> stats_proc \<times> stats_files" where
  "fp_stats_close e st =
     (case st of (p, f) \<Rightarrow>
      (p\<lparr>stats_map := None, stats_fd := None, stats_owner := False\<rparr>,
       if stats_owner p then unlink_stats e f else f))"

definition fp_stats_reopen_readonly ::
  "stats_env \<Rightarrow> stats_proc \<times> stats_files \<Rightarrow> stats_proc \<times> stats_files" where
  "fp_stats_reopen_readonly e st =
     (case st of (p, f) \<Rightarrow>
      if stats_owner p then (p, f)
      else
        let fresh_map = (case (stats_map p, stats_fd p) of
             (Some i, Some fd) \<Rightarrow> fstat_ok e \<and> linked f = Some fd \<and> header_ok (objects f i)
           | _ \<Rightarrow> False)
        in if fresh_map then (p, f)
           else snd (fp_stats_open_readonly e (p\<lparr>stats_map := None, stats_fd := None\<rparr>, f)))"

definition fp_stats_unlink :: "stats_env \<Rightarrow> stats_files \<Rightarrow> stats_files" where
  "fp_stats_unlink e f = unlink_stats e f"

text \<open>The snapshot opens the file if the process has not.\<close>

definition fp_stats_snapshot :: "stats_env \<Rightarrow> (int \<Rightarrow> bool) \<Rightarrow> stats_proc \<times> stats_files
    \<Rightarrow> (int \<times> fp_stats_snapshot) \<times> stats_proc \<times> stats_files" where
  "fp_stats_snapshot e gone st =
     (case (if stats_map (fst st) = None then fp_stats_open_readonly e st else (ok, st)) of (r, p, f) \<Rightarrow>
      if r \<noteq> ok then ((fail, empty_snapshot), p, f)
      else (take_snapshot gone (monotonic_ms (clock e)) (map_option (objects f) (stats_map p)), p, f))"

section \<open>Single operations\<close>

lemma unat_max_clients [simp]: "unat (word_of_nat FP_MAX_CLIENTS :: u32) = FP_MAX_CLIENTS"
  by (simp add: FP_MAX_CLIENTS_def)

lemma claim_slot_eq: "claim_slot addr port pid now s = \<lparr>active = 1, dest_addr = addr, dest_port = port,
    slot_pid = pid, bytes_up = 0, bytes_down = 0, start_ms = now\<rparr>"
  by (cases s) (simp add: claim_slot_def claim_field_def eval_nat_numeral)

lemma release_slot_eq [simp]: "release_slot s = zero_conn"
  by (cases s) (simp add: release_slot_def release_field_def zero_conn_def eval_nat_numeral)

lemma update_slot_sel [simp]:
  "slots (update_slot i f m) = (slots m)[i := f (slots m ! i)]"
  "slot_count (update_slot i f m) = slot_count m" "magic (update_slot i f m) = magic m"
  "version (update_slot i f m) = version m" "started_ms (update_slot i f m) = started_ms m"
  "total_up (update_slot i f m) = total_up m" "total_down (update_slot i f m) = total_down m"
  by (simp_all add: update_slot_def)

text \<open>The first free slot at or after \<open>index\<close> is taken; if there is none the map is unchanged.\<close>

lemma claim_loop_result:
  assumes "map_ok m" and "claim_loop addr port pid now index m = (r, m')"
  shows "(r = -1 \<and> m' = m \<and> (\<forall>j. index \<le> j \<and> j < unat (slot_count m) \<longrightarrow> active (slots m ! j) \<noteq> 0))
    \<or> (\<exists>i. r = int i \<and> index \<le> i \<and> i < unat (slot_count m) \<and> active (slots m ! i) = 0
        \<and> (\<forall>j. index \<le> j \<and> j < i \<longrightarrow> active (slots m ! j) \<noteq> 0)
        \<and> m' = update_slot i (claim_slot addr port pid now) m)"
  using assms
proof (induction addr port pid now index m rule: claim_loop.induct)
  case (1 addr port pid now index m)
  consider "index < unat (slot_count m) \<and> index < FP_MAX_CLIENTS" "active (slots m ! index) = 0"
    | "index < unat (slot_count m) \<and> index < FP_MAX_CLIENTS" "active (slots m ! index) \<noteq> 0"
    | "\<not> (index < unat (slot_count m) \<and> index < FP_MAX_CLIENTS)" by blast
  then show ?case
  proof cases
    case 1
    with "1.prems"(2) show ?thesis by (subst (asm) claim_loop.simps) auto
  next
    case 2
    with "1.prems"(2) have "claim_loop addr port pid now (Suc index) m = (r, m')"
      by (subst (asm) claim_loop.simps) simp
    with "1.IH" [OF 2 "1.prems"(1)] 2(2) show ?thesis
      by (metis Suc_leD Suc_leI le_neq_implies_less)
  next
    case 3
    with "1.prems" show ?thesis
      by (subst (asm) claim_loop.simps) (auto simp: map_ok_def)
  qed
qed

lemma zero_conn_sel [simp]: "active zero_conn = 0" "slot_pid zero_conn = 0"
  by (simp_all add: zero_conn_def)

lemma clear_loop_sel [simp]:
  "slot_count (clear_loop pid is m) = slot_count m" "total_up (clear_loop pid is m) = total_up m"
  "total_down (clear_loop pid is m) = total_down m" "length (slots (clear_loop pid is m)) = length (slots m)"
  "magic (clear_loop pid is m) = magic m" "version (clear_loop pid is m) = version m"
  "started_ms (clear_loop pid is m) = started_ms m"
  by (induction "is" arbitrary: m) auto

lemma nth_list_update': "(xs[a := v]) ! i = (if a = i \<and> i < length xs then v else xs ! i)"
  by (cases "a = i"; cases "i < length xs"; simp add: not_less list_update_beyond)

lemma clear_loop_slot:
  assumes "i < length (slots m)" and "distinct is"
  shows "slots (clear_loop pid is m) ! i =
    (if i \<in> set is \<and> active (slots m ! i) \<noteq> 0 \<and> slot_pid (slots m ! i) = pid
     then zero_conn else slots m ! i)"
  using assms by (induction "is" arbitrary: m) (auto simp: nth_list_update')

definition listed :: "(int \<Rightarrow> bool) \<Rightarrow> fp_stats_conn \<Rightarrow> bool" where
  "listed gone s \<longleftrightarrow> active s \<noteq> 0 \<and> slot_pid s > 1 \<and> \<not> gone (slot_pid s)"

definition conn_view :: "u64 \<Rightarrow> fp_stats_conn \<Rightarrow> fp_stats_conn_view" where
  "conn_view now s = \<lparr>view_addr = dest_addr s, view_port = dest_port s, view_pid = slot_pid s,
     view_up = bytes_up s, view_down = bytes_down s,
     age_ms = (if now > start_ms s then now - start_ms s else 0)\<rparr>"

lemma snapshot_loop_eq:
  assumes "length views + length ss \<le> FP_MAX_CLIENTS"
  shows "snapshot_loop gone now ss views = views @ map (conn_view now) (filter (listed gone) ss)"
  using assms
  by (induction ss arbitrary: views) (auto simp: listed_def conn_view_def)

section \<open>Properties of the table\<close>

definition sample_map :: fp_stats_map where
  "sample_map = zero_map\<lparr>magic := FP_STATS_MAGIC, version := FP_STATS_VERSION,
     slot_count := word_of_nat FP_MAX_CLIENTS, started_ms := 500\<rparr>"

lemma sample_map_ok: "map_ok sample_map"
  by (simp add: sample_map_def map_ok_def zero_map_def)

text \<open>
  Claiming takes the first free slot, fills it completely for this process and leaves every
  other slot and counter alone; it reports -1 exactly when no slot is free.
\<close>

theorem stats_claim_first_free:
  assumes "map_ok m" and "fp_stats_claim pid now (Some (addr, port)) (Some m) = (r, m')"
  shows "(case find (\<lambda>i. active (slots m ! i) = 0) [0..<unat (slot_count m)] of
       None \<Rightarrow> r = -1 \<and> m' = Some m
     | Some i \<Rightarrow> r = int i \<and> m' = Some (m\<lparr>slots := (slots m)[i :=
         \<lparr>active = 1, dest_addr = addr, dest_port = port, slot_pid = pid, bytes_up = 0,
          bytes_down = 0, start_ms = now\<rparr>]\<rparr>))"
proof -
  obtain m1 where c: "claim_loop addr port pid now 0 m = (r, m1)" and m': "m' = Some m1"
    using assms(2) by (auto simp: fp_stats_claim_def split: prod.splits)
  let ?F = "find (\<lambda>i. active (slots m ! i) = 0) [0..<unat (slot_count m)]"
  from claim_loop_result [OF assms(1) c] show ?thesis
  proof
    assume a: "r = -1 \<and> m1 = m \<and> (\<forall>j. 0 \<le> j \<and> j < unat (slot_count m) \<longrightarrow> active (slots m ! j) \<noteq> 0)"
    then have "?F = None" by (auto simp: find_None_iff)
    with a m' show ?thesis by simp
  next
    assume "\<exists>i. r = int i \<and> 0 \<le> i \<and> i < unat (slot_count m) \<and> active (slots m ! i) = 0
        \<and> (\<forall>j. 0 \<le> j \<and> j < i \<longrightarrow> active (slots m ! j) \<noteq> 0)
        \<and> m1 = update_slot i (claim_slot addr port pid now) m"
    then obtain i where i: "r = int i" "i < unat (slot_count m)" "active (slots m ! i) = 0"
      "\<forall>j < i. active (slots m ! j) \<noteq> 0" "m1 = update_slot i (claim_slot addr port pid now) m" by auto
    then have "?F = Some i" by (force simp: find_Some_iff)
    with i m' show ?thesis by (simp add: update_slot_def claim_slot_eq)
  qed
qed

theorem stats_claim_first_free_witness:
  "fst (fp_stats_claim 77 900 (Some (1, 443)) (Some sample_map)) = 0"
proof -
  obtain r m' where c: "fp_stats_claim 77 900 (Some (1, 443)) (Some sample_map) = (r, m')" by force
  have "find (\<lambda>i. active (slots sample_map ! i) = 0) [0..<unat (slot_count sample_map)] = Some 0"
    by (simp add: upt_conv_Cons sample_map_def zero_map_def FP_MAX_CLIENTS_def)
  with stats_claim_first_free [OF sample_map_ok c] c show ?thesis by simp
qed

text \<open>
  A process cannot touch a slot that carries another process's id: its additions and its
  release leave the map as it is, and clearing after a dead worker changes the slots that carry
  its id and no others.
\<close>

theorem stats_foreign_slot_safe:
  assumes "map_ok m" and "0 \<le> index" and "slot_pid (slots m ! nat index) \<noteq> pid"
  shows "fp_stats_add pid index up down (Some m) = Some m
    \<and> fp_stats_release pid index (Some m) = Some m
    \<and> slots (the (fp_stats_clear_pid pid (Some m))) ! nat index = slots m ! nat index"
proof -
  have "slots (clear_loop pid [0..<k] m) ! nat index = slots m ! nat index" for k
  proof (cases "nat index < length (slots m)")
    case True
    then show ?thesis using clear_loop_slot [OF True distinct_upt] assms(3) by simp
  next
    case False
    have "slots (clear_loop pid is m) ! i = slots m ! i" if "length (slots m) \<le> i" for "is" i and m :: fp_stats_map
      using that by (induction "is" arbitrary: m) (auto simp: nth_list_update')
    with False show ?thesis by simp
  qed
  with assms show ?thesis
    by (auto simp: fp_stats_add_def fp_stats_release_def fp_stats_clear_pid_def Let_def)
qed

theorem stats_foreign_slot_safe_witness:
  "fp_stats_add 77 0 10 0 (Some sample_map) = Some sample_map"
  using stats_foreign_slot_safe [OF sample_map_ok, of 0 77 10 0]
  by (simp add: sample_map_def zero_map_def zero_conn_def FP_MAX_CLIENTS_def)

text \<open>
  A snapshot lists, in slot order, exactly the used slots of processes that still exist, at
  most 128 of them, with ages and uptime that never go below 0.
\<close>

theorem stats_snapshot_exact:
  assumes "map_ok m" and "header_ok m"
  shows "\<exists>s. take_snapshot gone now (Some m) = (0, s)
    \<and> connections s = map (conn_view now) (filter (listed gone) (take (unat (slot_count m)) (slots m)))
    \<and> length (connections s) \<le> FP_MAX_CLIENTS
    \<and> unat (uptime_ms s) = unat now - unat (started_ms m)
    \<and> (\<forall>c \<in> set (connections s). view_pid c > 1 \<and> \<not> gone (view_pid c))
    \<and> snap_total_up s = total_up m \<and> snap_total_down s = total_down m"
proof -
  let ?ss = "take (unat (slot_count m)) (slots m)"
  have l: "length ?ss \<le> FP_MAX_CLIENTS" and n: "min (unat (slot_count m)) FP_MAX_CLIENTS = unat (slot_count m)"
    using assms(1) by (auto simp: map_ok_def)
  have "length (filter (listed gone) ?ss) \<le> FP_MAX_CLIENTS"
    using l length_filter_le [of "listed gone" ?ss] by linarith
  moreover have "unat (if now > started_ms m then now - started_ms m else 0) = unat now - unat (started_ms m)"
    by (auto simp: word_less_nat_alt word_le_nat_alt intro!: unat_sub)
  ultimately show ?thesis
    using assms(2) l n
    by (auto simp: take_snapshot_def header_ok_def snapshot_loop_eq conn_view_def listed_def)
qed

theorem stats_snapshot_exact_witness:
  "\<exists>s. take_snapshot (\<lambda>_. False) 400 (Some sample_map) = (0, s) \<and> unat (uptime_ms s) = 0"
proof -
  have "header_ok sample_map" by (simp add: header_ok_def sample_map_def)
  from stats_snapshot_exact [OF sample_map_ok this, of "\<lambda>_. False" 400] show ?thesis
    by (auto simp: sample_map_def)
qed

text \<open>
  A reader that refreshes its mapping never keeps one of a file that is no longer at the
  path: afterwards it has no mapping, or the mapping of the file linked there, whose header it
  has checked.
\<close>

theorem stats_reader_fresh:
  assumes "\<not> stats_owner p" and "stats_map p = stats_fd p"
    and "fp_stats_reopen_readonly e (p, f) = (p', f')"
  shows "f' = f \<and> stats_map p' = stats_fd p' \<and> \<not> stats_owner p'
    \<and> (\<forall>i. stats_map p' = Some i \<longrightarrow> linked f = Some i \<and> header_ok (objects f i))"
  using assms
  by (auto simp: fp_stats_reopen_readonly_def fp_stats_open_readonly_def map_stats_def Let_def
      split: option.splits if_splits)

definition stale_reader :: stats_proc where
  "stale_reader = \<lparr>stats_map = Some 0, stats_fd = Some 0, stats_owner = False\<rparr>"

definition two_files :: stats_files where
  "two_files = \<lparr>objects = (\<lambda>_. sample_map), linked = Some 1, fresh = 2\<rparr>"

definition good_env :: stats_env where
  "good_env = \<lparr>mkdir_ok = True, unlink_ok = True, open_ok = True, truncate_ok = True, mmap_ok = True,
     fstat_ok = True, clock = None\<rparr>"

theorem stats_reader_fresh_witness:
  "stats_map (fst (fp_stats_reopen_readonly good_env (stale_reader, two_files))) = Some 1"
proof -
  obtain p' f' where r: "fp_stats_reopen_readonly good_env (stale_reader, two_files) = (p', f')" by force
  from stats_reader_fresh [OF _ _ r] r show ?thesis
    by (auto simp: fp_stats_reopen_readonly_def fp_stats_open_readonly_def map_stats_def stale_reader_def
        two_files_def good_env_def header_ok_def sample_map_def Let_def)
qed

end
