(* ===== verification/Proxy.thy ===== *)
theory Proxy
  imports Config Socks5 Stats "HOL-Library.Sublist"
begin

text \<open>
  One proxied connection (\<open>src/proxy.c\<close>): opening the upstream SOCKS5 connection, relaying bytes
  both ways, and the life of the worker process that does it. Accepting connections is in
  \<open>Accept\<close>.
\<close>

section \<open>Connecting\<close>

definition read_all :: "byte list \<Rightarrow> nat \<Rightarrow> sock \<Rightarrow> (int \<times> byte list \<times> sock) option" where
  "read_all buffer n s = read_loop buffer 0 n s"

interpretation upstream: exact_reader read_all
  unfolding read_all_def by (rule read_loop_exact)

text \<open>
  What the system calls around one outgoing connection answer: \<open>connect\<close> succeeds at once, is in
  progress (then \<open>poll\<close> reports readiness or not, and \<open>SO_ERROR\<close> can be read or not), or fails.
\<close>

datatype connect_answer = Connected | InProgress bool "int option" | ConnectFailed

record dial =
  socket_ok :: bool
  getfl_ok :: bool
  setfl_ok :: bool
  connect_answer :: connect_answer
  restore_ok :: bool
  rcvtimeo_ok :: bool
  sndtimeo_ok :: bool
  is_open :: bool
  peer :: sock

definition set_socket_timeouts :: "dial \<Rightarrow> int" where
  "set_socket_timeouts d = (if rcvtimeo_ok d \<and> sndtimeo_ok d then ok else fail)"

definition connect_with_timeout :: "dial \<Rightarrow> int" where
  "connect_with_timeout d =
     (if \<not> getfl_ok d \<or> \<not> setfl_ok d then fail
      else
        let result = (case connect_answer d of
             Connected \<Rightarrow> ok
           | InProgress ready so_error \<Rightarrow> (if ready \<and> so_error = Some 0 then ok else fail)
           | ConnectFailed \<Rightarrow> fail)
        in if \<not> restore_ok d then fail else result)"

definition greeting :: "byte list" where "greeting = [5, 1, 0]"

definition close_dial :: "dial \<Rightarrow> dial" where
  "close_dial d = d\<lparr>is_open := False\<rparr>"

text \<open>The result is the descriptor or -1; only the connection to the proxy matters here.\<close>

definition open_socks :: "dial \<Rightarrow> (int \<times> dial) option" where
  "open_socks d =
     (if \<not> socket_ok d then Some (fail, d)
      else
        let d = d\<lparr>is_open := True\<rparr> in
        if connect_with_timeout d \<noteq> ok \<or> set_socket_timeouts d \<noteq> ok then Some (fail, close_dial d)
        else (case write_all greeting (peer d) of (r, s) \<Rightarrow>
          if r \<noteq> ok then Some (fail, close_dial (d\<lparr>peer := s\<rparr>))
          else do {
            (r, response, s) \<leftarrow> read_all (replicate 2 0) 2 s;
            if r \<noteq> ok \<or> response ! 0 \<noteq> 5 \<or> response ! 1 \<noteq> 0
            then Some (fail, close_dial (d\<lparr>peer := s\<rparr>))
            else Some (ok, d\<lparr>peer := s\<rparr>) }))"

definition connect_request :: "ip \<Rightarrow> port \<Rightarrow> byte list" where
  "connect_request addr port = [5, 1, 0, 1] @ ip_bytes addr @ port_bytes port"

definition connect_socks :: "ip \<Rightarrow> port \<Rightarrow> dial \<Rightarrow> (int \<times> dial) option" where
  "connect_socks addr port d = do {
     (r, d) \<leftarrow> open_socks d;
     if r \<noteq> ok then Some (fail, d)
     else (case write_all (connect_request addr port) (peer d) of (r, s) \<Rightarrow>
       if r \<noteq> ok then Some (fail, close_dial (d\<lparr>peer := s\<rparr>))
       else do {
         (r, response, s) \<leftarrow> read_all (replicate 2 0) 2 s;
         if r \<noteq> ok \<or> response ! 0 \<noteq> 5 \<or> response ! 1 \<noteq> 0
         then Some (fail, close_dial (d\<lparr>peer := s\<rparr>))
         else do {
           (r, s) \<leftarrow> fp_socks5_drain_bind s;
           if r \<noteq> ok then Some (fail, close_dial (d\<lparr>peer := s\<rparr>))
           else Some (ok, d\<lparr>peer := s\<rparr>) } }) }"

section \<open>Relaying\<close>

text \<open>
  The two sockets, whether each is still polled (\<open>descriptors[i].fd >= 0\<close>), and the shared
  table as this process maps it.
\<close>

record relay_state =
  client :: sock
  remote :: sock
  client_polled :: bool
  remote_polled :: bool
  table :: "fp_stats_map option"

datatype poll_answer = PTimeout | PIntr | PFail | PReady bool bool

definition RELAY_BUFFER :: nat where "RELAY_BUFFER = 16384"

text \<open>One pass of the inner loop: from the client to the remote (\<open>up\<close>) or back.\<close>

definition relay_source :: "bool \<Rightarrow> relay_state \<Rightarrow> sock" where
  "relay_source up st = (if up then client st else remote st)"

definition set_sockets :: "bool \<Rightarrow> sock \<Rightarrow> sock \<Rightarrow> relay_state \<Rightarrow> relay_state" where
  "set_sockets up source target st =
     (if up then st\<lparr>client := source, remote := target\<rparr> else st\<lparr>client := target, remote := source\<rparr>)"

definition stop_polling :: "bool \<Rightarrow> relay_state \<Rightarrow> relay_state" where
  "stop_polling up st = (if up then st\<lparr>client_polled := False\<rparr> else st\<lparr>remote_polled := False\<rparr>)"

definition relay_one :: "int \<Rightarrow> int \<Rightarrow> bool \<Rightarrow> bool \<Rightarrow> relay_state \<Rightarrow> bool \<times> relay_state" where
  "relay_one pid slot up ready st =
     (let source = relay_source up st; target = relay_source (\<not> up) st in
      if \<not> (if up then client_polled st else remote_polled st) \<or> \<not> ready then (False, st)
      else
        let (received, source) = sys_recv RELAY_BUFFER source in
        if received = RecvErr E_INTR \<or> received = RecvErr E_AGAIN
        then (False, set_sockets up source target st)
        else (case received of
            RecvErr _ \<Rightarrow> (False, stop_polling up (set_sockets up source (target\<lparr>shut_wr := True\<rparr>) st))
          | Received bs \<Rightarrow>
              if bs = [] then (False, stop_polling up (set_sockets up source (target\<lparr>shut_wr := True\<rparr>) st))
              else
                let (r, target) = write_all bs target; st = set_sockets up source target st in
                if r \<noteq> ok then (True, st)
                else (False, st\<lparr>table := fp_stats_add pid slot
                       (if up then word_of_nat (length bs) else 0)
                       (if up then 0 else word_of_nat (length bs)) (table st)\<rparr>)))"

text \<open>
  The outer loop over what the successive \<open>poll\<close> calls answer. Each waits at most the idle
  timeout, so a script that has run out is a timeout.
\<close>

fun relay :: "int \<Rightarrow> int \<Rightarrow> poll_answer list \<Rightarrow> relay_state \<Rightarrow> relay_state" where
  "relay pid slot [] st = st"
| "relay pid slot (PTimeout # es) st = st"
| "relay pid slot (PFail # es) st = st"
| "relay pid slot (PIntr # es) st = relay pid slot es st"
| "relay pid slot (PReady a b # es) st =
     (let (stop, st) = relay_one pid slot True a st in
      if stop then st
      else let (stop, st) = relay_one pid slot False b st in
      if stop then st
      else if \<not> client_polled st \<and> \<not> remote_polled st then st
      else relay pid slot es st)"

section \<open>A worker\<close>

record worker_env =
  client_timeouts_ok :: bool
  original_dst :: "(ip \<times> port) option"
  euid_root :: bool
  setgroups_ok :: bool
  setgid_ok :: bool
  setuid_ok :: bool
  claim_clock :: u64
  upstream_dial :: dial
  polls :: "poll_answer list"

definition drop_client_privileges :: "worker_env \<Rightarrow> int" where
  "drop_client_privileges e =
     (if \<not> euid_root e then ok
      else if setgroups_ok e \<and> setgid_ok e \<and> setuid_ok e then ok else fail)"

text \<open>What is left when the worker is done: the sockets, which of them are open, the table.\<close>

record worker_end =
  end_client :: sock
  client_open :: bool
  end_dial :: dial
  end_table :: "fp_stats_map option"

definition handle_client ::
  "worker_env \<Rightarrow> int \<Rightarrow> sock \<Rightarrow> fp_stats_map option \<Rightarrow> worker_end option" where
  "handle_client e pid c tab =
     (if \<not> client_timeouts_ok e \<or> original_dst e = None
      then Some \<lparr>end_client = c, client_open = False, end_dial = upstream_dial e, end_table = tab\<rparr>
      else
        let (addr, port) = the (original_dst e);
            (slot, tab) = fp_stats_claim pid (claim_clock e) (Some (addr, port)) tab in
        if drop_client_privileges e \<noteq> ok
        then Some \<lparr>end_client = c, client_open = False, end_dial = upstream_dial e,
               end_table = fp_stats_release pid slot tab\<rparr>
        else do {
          (r, d) \<leftarrow> connect_socks addr port (upstream_dial e);
          let (c, d, tab) =
            (if r \<ge> 0 then
               let st = relay pid slot (polls e) \<lparr>client = c, remote = peer d, client_polled = True,
                    remote_polled = True, table = tab\<rparr>
               in (client st, close_dial (d\<lparr>peer := remote st\<rparr>), table st)
             else (c, d, tab));
          Some \<lparr>end_client = c, client_open = False, end_dial = d,
            end_table = fp_stats_release pid slot tab\<rparr> })"

section \<open>The SOCKS5 dialogue\<close>

lemma write_all_plain: "plan s = [] \<Longrightarrow> write_all bs s = (ok, s\<lparr>tx := tx s @ bs\<rparr>)"
  by (cases "bs = []") (simp_all add: write_all.simps sys_send_def)

definition dial_ready :: "dial \<Rightarrow> bool" where
  "dial_ready d \<longleftrightarrow> socket_ok d \<and> connect_with_timeout d = ok \<and> set_socket_timeouts d = ok"

text \<open>
  The proxy's side of a successful dialogue: no authentication, request granted, a bound address;
  what follows is the destination's data.
\<close>

definition socks_granted :: "byte list \<Rightarrow> byte list option" where
  "socks_granted ws =
     (case ws of
        v # m # v' # reply # rest \<Rightarrow>
          if v = 5 \<and> m = 0 \<and> v' = 5 \<and> reply = 0 then after_bind rest else None
      | _ \<Rightarrow> None)"

text \<open>Both replies start with version 5 and a zero: one step of the dialogue.\<close>

lemma reply_step:
  "\<exists>r buf s'. read_all (replicate 2 0) 2 s = Some (r, buf, s') \<and> same_out s s'
    \<and> (r = ok \<and> buf ! 0 = 5 \<and> buf ! 1 = 0 \<longleftrightarrow> (\<exists>ws. wire (rx s) = 5 # 0 # ws))
    \<and> (r = ok \<and> buf ! 0 = 5 \<and> buf ! 1 = 0 \<longrightarrow> wire (rx s) = 5 # 0 # wire (rx s'))"
proof -
  obtain r buf s' where r: "read_all (replicate 2 0) 2 s = Some (r, buf, s')" "same_out s s'"
    "case wire (rx s) of a # b # ws \<Rightarrow> r = ok \<and> buf = [a, b] \<and> wire (rx s') = ws | _ \<Rightarrow> r = fail"
    using upstream.read_two [of "replicate 2 0" s] by auto
  then show ?thesis by (auto split: list.splits)
qed

lemma dial_open_sel [simp]:
  "connect_with_timeout (d\<lparr>is_open := b\<rparr>) = connect_with_timeout d"
  "set_socket_timeouts (d\<lparr>is_open := b\<rparr>) = set_socket_timeouts d"
  by (simp_all add: connect_with_timeout_def set_socket_timeouts_def)

lemma open_socks_result:
  assumes "\<not> is_open d"
  shows "\<exists>r d'. open_socks d = Some (r, d') \<and> (r = ok \<or> r = fail) \<and> (is_open d' \<longleftrightarrow> r = ok)
    \<and> (r = ok \<longrightarrow> dial_ready d \<and> tx (peer d') = tx (peer d) @ greeting
         \<and> wire (rx (peer d)) = 5 # 0 # wire (rx (peer d')))
    \<and> (dial_ready d \<and> plan (peer d) = [] \<and> (\<exists>ws. wire (rx (peer d)) = 5 # 0 # ws)
         \<longrightarrow> r = ok \<and> plan (peer d') = [])"
proof (cases "dial_ready d")
  case False
  then show ?thesis using assms
    by (auto simp: open_socks_def dial_ready_def close_dial_def Let_def)
next
  case True
  obtain q s where q: "write_all greeting (peer d) = (q, s)" by force
  note w = write_all_result [OF q]
  obtain r buf s' where r: "read_all (replicate 2 0) 2 s = Some (r, buf, s')" "same_out s s'"
    "r = ok \<and> buf ! 0 = 5 \<and> buf ! 1 = 0 \<longleftrightarrow> (\<exists>ws. wire (rx s) = 5 # 0 # ws)"
    "r = ok \<and> buf ! 0 = 5 \<and> buf ! 1 = 0 \<longrightarrow> wire (rx s) = 5 # 0 # wire (rx s')"
    using reply_step [of s] by blast
  have p: "plan (peer d) = [] \<Longrightarrow> q = ok \<and> plan s = []"
    using q write_all_plain [of "peer d" greeting] by auto
  have e: "open_socks d = (if q \<noteq> ok then Some (fail, close_dial (d\<lparr>is_open := True, peer := s\<rparr>))
     else if r \<noteq> ok \<or> buf ! 0 \<noteq> 5 \<or> buf ! 1 \<noteq> 0 then Some (fail, close_dial (d\<lparr>is_open := True, peer := s'\<rparr>))
     else Some (ok, d\<lparr>is_open := True, peer := s'\<rparr>))"
    using True q r(1)
    by (simp add: open_socks_def dial_ready_def)
  have x: "tx s' = tx s" "plan s' = plan s" using same_out_sel [OF r(2)] by auto
  have y: "rx s = rx (peer d)" using w by (simp add: same_in_def)
  show ?thesis
    using True p w x y r(3,4) unfolding e
    by (cases "q = ok"; cases "r = ok \<and> buf ! 0 = 5 \<and> buf ! 1 = 0") (auto simp: close_dial_def)
qed

text \<open>The reply to the request: read, checked, and its bound address drained.\<close>

definition reply_granted :: "byte list \<Rightarrow> byte list option" where
  "reply_granted ws =
     (case ws of v # reply # rest \<Rightarrow> if v = 5 \<and> reply = 0 then after_bind rest else None | _ \<Rightarrow> None)"

lemma socks_granted_reply: "socks_granted (5 # 0 # ws) = reply_granted ws"
  by (auto simp: socks_granted_def reply_granted_def split: list.split)

lemma socks_granted_greeting: "socks_granted ws \<noteq> None \<Longrightarrow> \<exists>rest. ws = 5 # 0 # rest"
  by (auto simp: socks_granted_def split: list.splits if_splits)

lemma reply_result:
  obtains r buf s' r3 s3 where "read_all (replicate 2 0) 2 s = Some (r, buf, s')"
    "fp_socks5_drain_bind s' = Some (r3, s3)" "same_out s s3"
    "(r = ok \<and> buf ! 0 = 5 \<and> buf ! 1 = 0) \<and> r3 = ok \<longleftrightarrow> reply_granted (wire (rx s)) \<noteq> None"
    "(r = ok \<and> buf ! 0 = 5 \<and> buf ! 1 = 0) \<and> r3 = ok \<longrightarrow> reply_granted (wire (rx s)) = Some (wire (rx s3))"
proof -
  obtain r buf s' where r: "read_all (replicate 2 0) 2 s = Some (r, buf, s')" "same_out s s'"
    "r = ok \<and> buf ! 0 = 5 \<and> buf ! 1 = 0 \<longleftrightarrow> (\<exists>ws. wire (rx s) = 5 # 0 # ws)"
    "r = ok \<and> buf ! 0 = 5 \<and> buf ! 1 = 0 \<longrightarrow> wire (rx s) = 5 # 0 # wire (rx s')"
    using reply_step [of s] by blast
  obtain r3 s3 where d: "fp_socks5_drain_bind s' = Some (r3, s3)" "same_out s' s3"
    "case after_bind (wire (rx s')) of Some ws \<Rightarrow> r3 = ok \<and> wire (rx s3) = ws | None \<Rightarrow> r3 = fail"
    using drain_bind_result [of s'] by blast
  let ?head = "r = ok \<and> buf ! 0 = 5 \<and> buf ! 1 = 0"
  have yes: "reply_granted (wire (rx s)) = after_bind (wire (rx s'))" if ?head
    using r(4) that by (simp add: reply_granted_def)
  have no: "reply_granted (wire (rx s)) = None" if "\<not> ?head"
    using r(3) that by (auto simp: reply_granted_def split: list.split)
  have "?head \<and> r3 = ok \<longleftrightarrow> reply_granted (wire (rx s)) \<noteq> None"
    using yes no d(3) by (cases ?head) (auto split: option.splits)
  moreover have "?head \<and> r3 = ok \<longrightarrow> reply_granted (wire (rx s)) = Some (wire (rx s3))"
    using yes d(3) by (auto split: option.splits)
  ultimately show thesis by (rule that [OF r(1) d(1) same_out_trans [OF r(2) d(2)]])
qed

lemma request_result:
  assumes "open_socks d = Some (ok, d1)" and "is_open d1"
  shows "\<exists>r d'. connect_socks addr port d = Some (r, d') \<and> (r = ok \<or> r = fail) \<and> (is_open d' \<longleftrightarrow> r = ok)
    \<and> (r = ok \<longrightarrow> tx (peer d') = tx (peer d1) @ connect_request addr port
         \<and> reply_granted (wire (rx (peer d1))) = Some (wire (rx (peer d'))))
    \<and> (plan (peer d1) = [] \<and> reply_granted (wire (rx (peer d1))) \<noteq> None \<longrightarrow> r = ok)"
proof -
  obtain q s where q: "write_all (connect_request addr port) (peer d1) = (q, s)" by force
  note w = write_all_result [OF q]
  have p: "plan (peer d1) = [] \<Longrightarrow> q = ok" using q write_all_plain [of "peer d1"] by auto
  obtain r buf s' r3 s3 where r: "read_all (replicate 2 0) 2 s = Some (r, buf, s')"
    "fp_socks5_drain_bind s' = Some (r3, s3)" "same_out s s3"
    and head: "(r = ok \<and> buf ! 0 = 5 \<and> buf ! 1 = 0) \<and> r3 = ok \<longleftrightarrow> reply_granted (wire (rx s)) \<noteq> None"
    "(r = ok \<and> buf ! 0 = 5 \<and> buf ! 1 = 0) \<and> r3 = ok \<longrightarrow> reply_granted (wire (rx s)) = Some (wire (rx s3))"
    by (rule reply_result [of s])
  have e: "connect_socks addr port d = (if q \<noteq> ok then Some (fail, close_dial (d1\<lparr>peer := s\<rparr>))
     else if r \<noteq> ok \<or> buf ! 0 \<noteq> 5 \<or> buf ! 1 \<noteq> 0 then Some (fail, close_dial (d1\<lparr>peer := s'\<rparr>))
     else if r3 \<noteq> ok then Some (fail, close_dial (d1\<lparr>peer := s3\<rparr>)) else Some (ok, d1\<lparr>peer := s3\<rparr>))"
    using assms(1) q r(1,2) by (simp add: connect_socks_def)
  have y: "rx s = rx (peer d1)" using w by (simp add: same_in_def)
  show ?thesis
  proof (cases "q = ok \<and> reply_granted (wire (rx s)) \<noteq> None")
    case True
    then have good: "r = ok" "buf ! 0 = 5" "buf ! 1 = 0" "r3 = ok" using head(1) by blast+
    have "tx s3 = tx (peer d1) @ connect_request addr port" using same_out_sel [OF r(3)] w True by simp
    moreover have "reply_granted (wire (rx (peer d1))) = Some (wire (rx s3))" using head(2) good y by simp
    ultimately show ?thesis using True good assms(2) unfolding e by simp
  next
    case False
    then have bad: "\<not> (q = ok \<and> (r = ok \<and> buf ! 0 = 5 \<and> buf ! 1 = 0) \<and> r3 = ok)" using head(1) by blast
    then obtain s4 where "connect_socks addr port d = Some (fail, close_dial (d1\<lparr>peer := s4\<rparr>))"
      unfolding e by (cases "q = ok"; cases "r = ok \<and> buf ! 0 = 5 \<and> buf ! 1 = 0") auto
    with False p y show ?thesis by (auto simp: close_dial_def)
  qed
qed

lemma connect_socks_result:
  assumes "\<not> is_open d"
  shows "\<exists>r d'. connect_socks addr port d = Some (r, d') \<and> (r = ok \<or> r = fail) \<and> (is_open d' \<longleftrightarrow> r = ok)
    \<and> (r = ok \<longrightarrow> dial_ready d
         \<and> tx (peer d') = tx (peer d) @ greeting @ connect_request addr port
         \<and> socks_granted (wire (rx (peer d))) = Some (wire (rx (peer d'))))
    \<and> (dial_ready d \<and> plan (peer d) = [] \<and> socks_granted (wire (rx (peer d))) \<noteq> None \<longrightarrow> r = ok)"
proof -
  obtain r1 d1 where 1: "open_socks d = Some (r1, d1)" "r1 = ok \<or> r1 = fail" "is_open d1 \<longleftrightarrow> r1 = ok"
    "r1 = ok \<Longrightarrow> dial_ready d \<and> tx (peer d1) = tx (peer d) @ greeting
       \<and> wire (rx (peer d)) = 5 # 0 # wire (rx (peer d1))"
    "dial_ready d \<Longrightarrow> plan (peer d) = [] \<Longrightarrow> \<exists>ws. wire (rx (peer d)) = 5 # 0 # ws
       \<Longrightarrow> r1 = ok \<and> plan (peer d1) = []"
    using open_socks_result [OF assms] by blast
  have opened: "dial_ready d \<and> plan (peer d) = [] \<and> socks_granted (wire (rx (peer d))) \<noteq> None
      \<longrightarrow> r1 = ok \<and> plan (peer d1) = []"
    using 1(5) [OF _ _ socks_granted_greeting] by blast
  show ?thesis
  proof (cases "r1 = ok")
    case False
    with 1(1-3) opened show ?thesis by (auto simp: connect_socks_def)
  next
    case True
    with 1(1,3) have o: "open_socks d = Some (ok, d1)" "is_open d1" by auto
    have g: "socks_granted (wire (rx (peer d))) = reply_granted (wire (rx (peer d1)))"
      and t: "dial_ready d" "tx (peer d1) = tx (peer d) @ greeting"
      using 1(4) [OF True] by (simp_all add: socks_granted_reply)
    obtain r d' where c: "connect_socks addr port d = Some (r, d')" "r = ok \<or> r = fail" "is_open d' \<longleftrightarrow> r = ok"
      and got: "r = ok \<longrightarrow> tx (peer d') = tx (peer d1) @ connect_request addr port
         \<and> reply_granted (wire (rx (peer d1))) = Some (wire (rx (peer d')))"
      and fine: "plan (peer d1) = [] \<and> reply_granted (wire (rx (peer d1))) \<noteq> None \<longrightarrow> r = ok"
      using request_result [OF o, of addr port] by blast
    have "r = ok \<longrightarrow> dial_ready d \<and> tx (peer d') = tx (peer d) @ greeting @ connect_request addr port
         \<and> reply_granted (wire (rx (peer d1))) = Some (wire (rx (peer d')))"
      using got t by simp
    moreover have "dial_ready d \<and> plan (peer d) = [] \<and> reply_granted (wire (rx (peer d1))) \<noteq> None \<longrightarrow> r = ok"
      using opened fine unfolding g by blast
    ultimately show ?thesis using c unfolding g by blast
  qed
qed

section \<open>What the relay delivers\<close>

text \<open>All bytes a script will ever offer, in order.\<close>

fun chunk_bytes :: "recv_event list \<Rightarrow> byte list" where
  "chunk_bytes [] = []"
| "chunk_bytes (Chunk bs # es) = bs @ chunk_bytes es"
| "chunk_bytes (_ # es) = chunk_bytes es"

lemma sys_recv_chunks:
  assumes "sys_recv n s = (r, s')"
  shows "chunk_bytes (rx s) = (case r of Received bs \<Rightarrow> bs | RecvErr _ \<Rightarrow> []) @ chunk_bytes (rx s')"
  using assms by (auto simp: sys_recv_def split: list.splits recv_event.splits if_splits)

definition reliable :: "sock \<Rightarrow> bool" where
  "reliable s \<longleftrightarrow> SFail \<notin> set (plan s) \<and> Take 0 \<notin> set (plan s)"

lemma sys_send_reliable:
  assumes "sys_send bs s = (r, s')" "reliable s" "bs \<noteq> []"
  shows "reliable s'" and "r = SendErr E_INTR \<or> (\<exists>n. 0 < n \<and> r = Sent n)"
  using assms by (auto simp: sys_send_def reliable_def min_def split: list.splits send_event.splits if_splits)

lemma write_all_reliable:
  assumes "write_all bs s = (r, s')" "reliable s"
  shows "r = ok \<and> reliable s'"
  using assms
proof (induction bs s arbitrary: r s' rule: write_all.induct)
  case (1 bs s)
  show ?case
  proof (cases "bs = []")
    case True
    with "1.prems" show ?thesis by (simp add: write_all.simps)
  next
    case False
    obtain q s1 where q: "sys_send bs s = (q, s1)" by force
    note e = sys_send_reliable [OF q "1.prems"(2) False]
    show ?thesis
    proof (cases q)
      case (SendErr x)
      with e have "write_all bs s1 = (r, s')"
        using "1.prems"(1) q False by (subst (asm) write_all.simps) simp
      with "1.IH"(2) [OF False q [symmetric] SendErr] e SendErr show ?thesis by simp
    next
      case (Sent n)
      with e have "n \<noteq> 0" "write_all (drop n bs) s1 = (r, s')"
        using "1.prems"(1) q False by (auto simp: write_all.simps [of bs])
      with "1.IH"(1) [OF False q [symmetric] Sent] e show ?thesis by simp
    qed
  qed
qed

text \<open>
  In one direction: what the target has got followed by what the source has still to offer is
  the same before and after (nothing lost, duplicated, reordered or invented), possibly but for
  \<open>lost\<close> bytes that were read and could not be written.
\<close>

definition moves :: "bool \<Rightarrow> byte list \<Rightarrow> relay_state \<Rightarrow> relay_state \<Rightarrow> bool" where
  "moves up lost st st' \<longleftrightarrow>
     tx (relay_source (\<not> up) st') @ lost @ chunk_bytes (rx (relay_source up st'))
       = tx (relay_source (\<not> up) st) @ chunk_bytes (rx (relay_source up st))
   \<and> Sublist.prefix (tx (relay_source (\<not> up) st)) (tx (relay_source (\<not> up) st'))"

text \<open>The end of one stream is passed on exactly when it has been seen.\<close>

definition half_closed :: "relay_state \<Rightarrow> bool" where
  "half_closed st \<longleftrightarrow> shut_wr (remote st) = (\<not> client_polled st) \<and> shut_wr (client st) = (\<not> remote_polled st)"

definition reliable_state :: "relay_state \<Rightarrow> bool" where
  "reliable_state st \<longleftrightarrow> reliable (client st) \<and> reliable (remote st)"

definition add_counts :: "nat \<Rightarrow> nat \<Rightarrow> nat \<Rightarrow> fp_stats_map \<Rightarrow> fp_stats_map" where
  "add_counts i u d m =
     (update_slot i (\<lambda>s. s\<lparr>bytes_up := bytes_up s + word_of_nat u, bytes_down := bytes_down s + word_of_nat d\<rparr>) m)
       \<lparr>total_up := total_up m + word_of_nat u, total_down := total_down m + word_of_nat d\<rparr>"

definition owns :: "int \<Rightarrow> nat \<Rightarrow> fp_stats_map \<Rightarrow> bool" where
  "owns pid i m \<longleftrightarrow> i < unat (slot_count m) \<and> i < length (slots m) \<and> active (slots m ! i) \<noteq> 0
     \<and> slot_pid (slots m ! i) = pid"

definition grown :: "bool \<Rightarrow> relay_state \<Rightarrow> relay_state \<Rightarrow> nat" where
  "grown up st st' = length (tx (relay_source (\<not> up) st')) - length (tx (relay_source (\<not> up) st))"

definition counted :: "int \<Rightarrow> nat \<Rightarrow> relay_state \<Rightarrow> relay_state \<Rightarrow> bool" where
  "counted pid i st st' \<longleftrightarrow> (\<forall>m. table st = Some m \<longrightarrow> owns pid i m \<longrightarrow>
     table st' = Some (add_counts i (grown True st st') (grown False st st') m))"

lemma add_counts_owns: "owns pid i m \<Longrightarrow> owns pid i (add_counts i u d m)"
  by (simp add: owns_def add_counts_def)

lemma add_counts_add: "i < length (slots m) \<Longrightarrow>
  add_counts i u' d' (add_counts i u d m) = add_counts i (u + u') (d + d') m"
  by (simp add: add_counts_def update_slot_def add.assoc)

lemma add_counts_0: "add_counts i 0 0 m = m"
  by (simp add: add_counts_def update_slot_def)

lemma fp_stats_add_counts:
  assumes "owns pid i m"
  shows "fp_stats_add pid (int i) (word_of_nat u) 0 (Some m) = Some (add_counts i u 0 m)"
    and "fp_stats_add pid (int i) 0 (word_of_nat d) (Some m) = Some (add_counts i 0 d m)"
  using assms
  by (auto simp: fp_stats_add_def owns_def add_counts_def update_slot_def Let_def word_neq_0_conv [symmetric])

lemma moves_refl [simp]: "moves up [] st st"
  by (simp add: moves_def)

lemma moves_trans:
  assumes "moves up [] a b" "moves up lost b c"
  shows "moves up lost a c"
  using assms prefix_order.trans unfolding moves_def by (metis append_Nil)

lemma grown_trans:
  assumes "moves up l a b" "moves up l' b c"
  shows "grown up a c = grown up a b + grown up b c"
  using assms by (auto simp: moves_def grown_def Sublist.prefix_def)

lemma counted_trans:
  assumes "counted pid i a b" "counted pid i b c" "\<And>up. moves up [] a b" "\<And>up. moves up [] b c"
  shows "counted pid i a c"
  unfolding counted_def
proof (intro allI impI)
  fix m
  assume m: "table a = Some m" "owns pid i m"
  then have "i < length (slots m)" by (simp add: owns_def)
  with m assms(1,2) add_counts_owns [OF m(2)] show
    "table c = Some (add_counts i (grown True a c) (grown False a c) m)"
    by (simp add: counted_def grown_trans [OF assms(3,4)] add_counts_add)
qed

text \<open>One pass of the inner loop that does not end the relay.\<close>

lemma sockets_sel [simp]:
  "relay_source d (set_sockets d a b st) = a" "relay_source (\<not> d) (set_sockets d a b st) = b"
  "relay_source d (set_sockets (\<not> d) a b st) = b"
  "table (set_sockets d a b st) = table st"
  "client_polled (set_sockets d a b st) = client_polled st" "remote_polled (set_sockets d a b st) = remote_polled st"
  "relay_source d' (stop_polling d st) = relay_source d' st" "table (stop_polling d st) = table st"
  "relay_source d' (st\<lparr>table := t\<rparr>) = relay_source d' st"
  by (cases d; auto simp: relay_source_def set_sockets_def stop_polling_def)+

lemma reliable_state_iff: "reliable_state st \<longleftrightarrow> reliable (relay_source up st) \<and> reliable (relay_source (\<not> up) st)"
  by (cases up) (auto simp: reliable_state_def relay_source_def)

lemma half_closed_keep:
  assumes "half_closed st" and "shut_wr a = shut_wr (relay_source up st)" "shut_wr b = shut_wr (relay_source (\<not> up) st)"
  shows "half_closed (set_sockets up a b st)"
  using assms by (cases up) (auto simp: half_closed_def relay_source_def set_sockets_def)

lemma half_closed_end:
  assumes "half_closed st" and "shut_wr a = shut_wr (relay_source up st)" "shut_wr b"
  shows "half_closed (stop_polling up (set_sockets up a b st))"
  using assms by (cases up) (auto simp: half_closed_def relay_source_def set_sockets_def stop_polling_def)

lemma movesI:
  assumes "tx (relay_source (\<not> up) st') = tx (relay_source (\<not> up) st) @ d"
    and "chunk_bytes (rx (relay_source up st)) = d @ lost @ chunk_bytes (rx (relay_source up st'))"
  shows "moves up lost st st'"
  using assms by (simp add: moves_def)

lemma moves_both:
  assumes "moves up l st st'" "moves (\<not> up) l' st st'"
  shows "moves d (if d = up then l else l') st st'"
  using assms by (cases d; cases up) auto

lemma grown_set:
  "tx (relay_source (\<not> up) st') = tx (relay_source (\<not> up) st) @ d \<Longrightarrow> grown up st st' = length d"
  by (simp add: grown_def)

definition relayed :: "int \<Rightarrow> nat \<Rightarrow> relay_state \<Rightarrow> relay_state \<Rightarrow> bool" where
  "relayed pid i st st' \<longleftrightarrow> (\<forall>up. moves up [] st st') \<and> (half_closed st \<longrightarrow> half_closed st')
     \<and> (reliable_state st \<longrightarrow> reliable_state st') \<and> counted pid i st st'"

lemma relayed_refl [simp]: "relayed pid i st st"
  by (simp add: relayed_def counted_def grown_def add_counts_0)

lemma relayed_trans: "relayed pid i a b \<Longrightarrow> relayed pid i b c \<Longrightarrow> relayed pid i a c"
  unfolding relayed_def by (meson counted_trans moves_trans)

text \<open>
  What such a pass is: nothing to do, a read that will be tried again, the end of the stream passed on,
  or bytes moved and counted.
\<close>

lemma relay_one_cases:
  assumes "relay_one pid slot up ready st = (False, st')" and "sys_recv RELAY_BUFFER (relay_source up st) = (r, s)"
  obtains (idle) "st' = st"
  | (retry) "r = RecvErr E_INTR \<or> r = RecvErr E_AGAIN" "st' = set_sockets up s (relay_source (\<not> up) st) st"
  | (ended) "r = RecvErr E_OTHER \<or> r = Received []"
      "st' = stop_polling up (set_sockets up s (relay_source (\<not> up) st\<lparr>shut_wr := True\<rparr>) st)"
  | (data) bs t where "r = Received bs" "bs \<noteq> []" "write_all bs (relay_source (\<not> up) st) = (ok, t)"
      "st' = (set_sockets up s t st)\<lparr>table := fp_stats_add pid slot
         (if up then word_of_nat (length bs) else 0) (if up then 0 else word_of_nat (length bs)) (table st)\<rparr>"
proof (cases "(if up then client_polled st else remote_polled st) \<and> ready")
  case False
  with assms that(1) show thesis by (auto simp: relay_one_def Let_def)
next
  case True
  show thesis
  proof (cases r)
    case (RecvErr e)
    with True assms that(2,3) show thesis by (cases up; cases e) (auto simp: relay_one_def Let_def)
  next
    case (Received bs)
    with True assms that(3,4) show thesis
      by (cases up; cases "bs = []") (auto simp: relay_one_def Let_def split: prod.splits if_splits)
  qed
qed

text \<open>A pass that hands no byte over: nothing is sent on either side.\<close>

lemma relayed_quiet:
  assumes "tx (relay_source up st') = tx (relay_source up st)"
    and "tx (relay_source (\<not> up) st') = tx (relay_source (\<not> up) st)"
    and "chunk_bytes (rx (relay_source up st')) = chunk_bytes (rx (relay_source up st))"
    and "rx (relay_source (\<not> up) st') = rx (relay_source (\<not> up) st)"
    and "plan (relay_source up st') = plan (relay_source up st)"
    and "plan (relay_source (\<not> up) st') = plan (relay_source (\<not> up) st)"
    and "half_closed st \<Longrightarrow> half_closed st'" and "table st' = table st"
  shows "relayed pid i st st'"
proof -
  have t: "tx (relay_source d st') = tx (relay_source d st)" for d
    using assms(1,2) by (cases "d = up") auto
  have "chunk_bytes (rx (relay_source d st')) = chunk_bytes (rx (relay_source d st))" for d
    using assms(3,4) by (cases "d = up") auto
  then have "moves d [] st st'" for d by (intro movesI [where d = "[]"]) (use t in auto)
  moreover have "grown d st st' = 0" for d by (simp add: grown_def t)
  moreover have "reliable_state st' = reliable_state st"
    using assms(5,6) by (simp add: reliable_state_iff [of _ up] reliable_def)
  ultimately show ?thesis using assms(7,8) by (simp add: relayed_def counted_def add_counts_0)
qed

lemma relayed_data:
  assumes r: "sys_recv RELAY_BUFFER (relay_source up st) = (Received bs, s)"
    and w: "write_all bs (relay_source (\<not> up) st) = (ok, t)"
    and st': "st' = (set_sockets up s t st)\<lparr>table := fp_stats_add pid (int i)
         (if up then word_of_nat (length bs) else 0) (if up then 0 else word_of_nat (length bs)) (table st)\<rparr>"
  shows "relayed pid i st st'"
proof -
  note c = sys_recv_chunks [OF r] and so = same_out_sel [OF sys_recv_same_out [OF r]]
  have wt: "tx t = tx (relay_source (\<not> up) st) @ bs" "rx t = rx (relay_source (\<not> up) st)"
    "shut_wr t = shut_wr (relay_source (\<not> up) st)"
    using write_all_result [OF w] by (auto simp: same_in_def)
  have m1: "moves up [] st st'" by (rule movesI [where d = bs]) (use st' wt c in auto)
  have m2: "moves (\<not> up) [] st st'" by (rule movesI [where d = "[]"]) (use st' wt so in auto)
  have g: "grown up st st' = length bs" "grown (\<not> up) st st' = 0"
    by (rule grown_set) (use st' wt so in \<open>auto simp: grown_def\<close>)
  have cnt: "counted pid i st st'"
    using g fp_stats_add_counts [of pid i] st' by (cases up) (auto simp: counted_def)
  have rel: "reliable_state st'" if "reliable_state st"
    using that write_all_reliable [OF w] so st'
      reliable_state_iff [of st up] reliable_state_iff [of st' up] by (auto simp: reliable_def)
  have "half_closed st'" if "half_closed st"
    using half_closed_keep [OF that _ wt(3), of s] so st' by (simp add: half_closed_def)
  then show ?thesis using moves_both [OF m1 m2] cnt rel by (auto simp: relayed_def)
qed

lemma relay_one_continues:
  assumes "relay_one pid (int i) up ready st = (False, st')"
  shows "relayed pid i st st'"
proof -
  obtain r s where r: "sys_recv RELAY_BUFFER (relay_source up st) = (r, s)" by force
  note c = sys_recv_chunks [OF r] and so = same_out_sel [OF sys_recv_same_out [OF r]]
  from assms r show ?thesis
  proof (cases rule: relay_one_cases)
    case retry
    with so c half_closed_keep [of st s up] show ?thesis by (intro relayed_quiet [of up]) auto
  next
    case ended
    with so c half_closed_end [of st s up] show ?thesis by (intro relayed_quiet [of up]) auto
  next
    case (data bs t)
    with r show ?thesis by (intro relayed_data) auto
  qed simp
qed

text \<open>The pass that ends the relay: a write has failed, and with it part of what was read.\<close>

lemma relay_one_stops:
  assumes "relay_one pid slot up ready st = (True, st')"
  shows "(\<exists>lost. moves up lost st st') \<and> moves (\<not> up) [] st st' \<and> \<not> reliable_state st"
proof -
  let ?src = "relay_source up st" and ?tgt = "relay_source (\<not> up) st"
  obtain r s where r: "sys_recv RELAY_BUFFER ?src = (r, s)" by force
  note c = sys_recv_chunks [OF r]
  have so: "tx s = tx ?src" using same_out_sel [OF sys_recv_same_out [OF r]] by auto
  obtain bs q t where d: "r = Received bs" "write_all bs ?tgt = (q, t)" "q \<noteq> ok" "st' = set_sockets up s t st"
    using assms r by (cases up; cases r) (auto simp: relay_one_def Let_def split: prod.splits if_splits)
  note w = write_all_result [OF d(2)]
  from w d(3) obtain n where n: "tx t = tx ?tgt @ take n bs" "rx t = rx ?tgt" by (auto simp: same_in_def)
  have "moves up (drop n bs) st st'"
    by (rule movesI [where d = "take n bs"]) (use d n c in auto)
  moreover have "moves (\<not> up) [] st st'" by (rule movesI [where d = "[]"]) (use d n so in auto)
  moreover have "\<not> reliable ?tgt" using write_all_reliable [OF d(2)] d(3) by auto
  ultimately show ?thesis by (auto simp: reliable_state_iff [of st up])
qed

lemma relay_result:
  "(\<exists>l1 l2. moves True l1 st (relay pid (int i) es st) \<and> moves False l2 st (relay pid (int i) es st))
   \<and> (reliable_state st \<longrightarrow> relayed pid i st (relay pid (int i) es st))"
proof (induction pid "int i" es st rule: relay.induct)
  case (1 pid st)
  then show ?case by (auto intro: exI [of _ "[]"])
next
  case (2 pid es st)
  then show ?case by (auto intro: exI [of _ "[]"])
next
  case (3 pid es st)
  then show ?case by (auto intro: exI [of _ "[]"])
next
  case (4 pid es st)
  then show ?case by simp
next
  case (5 pid a b es st)
  obtain q1 s1 where 1: "relay_one pid (int i) True a st = (q1, s1)" by force
  show ?case
  proof (cases q1)
    case True
    with 1 relay_one_stops [of pid "int i" True a st s1] show ?thesis by auto
  next
    case q1: False
    with 1 have r1: "relayed pid i st s1" by (auto intro: relay_one_continues)
    obtain q2 s2 where 2: "relay_one pid (int i) False b s1 = (q2, s2)" by force
    have m1: "moves up [] st s1" for up using r1 by (simp add: relayed_def)
    show ?thesis
    proof (cases q2)
      case True
      with 1 2 q1 relay_one_stops [of pid "int i" False b s1 s2] r1 show ?thesis
        by (auto simp: relayed_def intro: moves_trans [OF m1])
    next
      case q2: False
      with 2 have "relayed pid i s1 s2" by (auto intro: relay_one_continues)
      with r1 have r2: "relayed pid i st s2" by (rule relayed_trans)
      have m2: "moves up [] st s2" for up using r2 by (simp add: relayed_def)
      show ?thesis
      proof (cases "\<not> client_polled s2 \<and> \<not> remote_polled s2")
        case True
        with 1 2 q1 q2 m2 r2 show ?thesis by auto
      next
        case False
        have "relay pid (int i) (PReady a b # es) st = relay pid (int i) es s2"
          using 1 2 q1 q2 False by auto
        with "5.hyps" [OF refl 1 [symmetric] _ refl 2 [symmetric]] q1 q2 False r2 show ?thesis
          using moves_trans [OF m2] relayed_trans [OF r2] by (auto simp: relayed_def)
      qed
    qed
  qed
qed

section \<open>The table during a worker's life\<close>

lemma relay_one_table:
  assumes "relay_one pid slot up ready st = (q, st')"
  shows "table st' = table st \<or> (\<exists>n. table st' = fp_stats_add pid slot
    (if up then word_of_nat n else 0) (if up then 0 else word_of_nat n) (table st))"
  using assms by (auto simp: relay_one_def Let_def split: prod.splits recv_result.splits if_splits)

text \<open>A property of tables that additions keep is kept by the relay.\<close>

lemma relay_table:
  assumes "\<And>t n. P t \<Longrightarrow> P (fp_stats_add pid slot (word_of_nat n) 0 t) \<and> P (fp_stats_add pid slot 0 (word_of_nat n) t)"
    and "P (table st)"
  shows "P (table (relay pid slot es st))"
  using assms
proof (induction pid slot es st rule: relay.induct)
  case (5 pid slot a b es st)
  obtain q1 s1 where 1: "relay_one pid slot True a st = (q1, s1)" by force
  obtain q2 s2 where 2: "relay_one pid slot False b s1 = (q2, s2)" by force
  have p1: "P (table s1)" using relay_one_table [OF 1] "5.prems" by auto
  have p2: "P (table s2)" using relay_one_table [OF 2] "5.prems"(1) [OF p1] p1 by auto
  show ?case
    using "5.IH" [OF 1 [symmetric] refl _ 2 [symmetric] refl _ _ "5.prems"(1) p2] 1 2 p1 p2 by auto
qed auto

definition tidy :: "fp_stats_map \<Rightarrow> bool" where
  "tidy m \<longleftrightarrow> map_ok m \<and> (\<forall>s \<in> set (slots m). active s = 0 \<longrightarrow> s = zero_conn)"

lemma fp_stats_release_counts:
  assumes "owns pid i (m\<lparr>slots := (slots m)[i := c]\<rparr>)" and "i < length (slots m)" "slots m ! i = zero_conn"
  shows "map_option slots (fp_stats_release pid (int i)
    (Some (add_counts i u d (m\<lparr>slots := (slots m)[i := c]\<rparr>)))) = Some (slots m)"
  using assms
  by (auto simp: fp_stats_release_def owns_def add_counts_def update_slot_def list_update_id [of "slots m" i, unfolded assms(3)])

lemma claim_outcome:
  assumes "tidy m" "fp_stats_claim pid now (Some (addr, port)) (Some m) = (r, t)"
  obtains (none) "r = -1" "t = Some m"
  | (slot) i c where "r = int i" "t = Some (m\<lparr>slots := (slots m)[i := c]\<rparr>)" "i < length (slots m)"
      "slots m ! i = zero_conn" "owns pid i (m\<lparr>slots := (slots m)[i := c]\<rparr>)"
proof -
  obtain m1 where c: "claim_loop addr port pid now 0 m = (r, m1)" and t: "t = Some m1"
    using assms(2) by (auto simp: fp_stats_claim_def split: prod.splits)
  have ok: "map_ok m" using assms(1) by (simp add: tidy_def)
  from claim_loop_result [OF ok c] show ?thesis
  proof
    assume "r = -1 \<and> m1 = m \<and> (\<forall>j. 0 \<le> j \<and> j < unat (slot_count m) \<longrightarrow> active (slots m ! j) \<noteq> 0)"
    with t show ?thesis by (intro none) auto
  next
    assume "\<exists>i. r = int i \<and> 0 \<le> i \<and> i < unat (slot_count m) \<and> active (slots m ! i) = 0
        \<and> (\<forall>j. 0 \<le> j \<and> j < i \<longrightarrow> active (slots m ! j) \<noteq> 0)
        \<and> m1 = update_slot i (claim_slot addr port pid now) m"
    then obtain i where i: "r = int i" "i < unat (slot_count m)" "active (slots m ! i) = 0"
      "m1 = update_slot i (claim_slot addr port pid now) m" by auto
    have l: "i < length (slots m)" using ok i(2) by (auto simp: map_ok_def)
    with i(3) assms(1) have z: "slots m ! i = zero_conn" by (auto simp: tidy_def)
    show ?thesis
      by (rule slot [where c = "claim_slot addr port pid now (slots m ! i)", OF i(1) _ l z])
        (use i l t in \<open>auto simp: update_slot_def owns_def claim_slot_eq\<close>)
  qed
qed

text \<open>
  Claiming, adding by this process any number of times and releasing leaves the slots as they
  were.
\<close>

lemma claim_relay_release:
  assumes "tidy m" "fp_stats_claim pid now (Some (addr, port)) (Some m) = (r, t)" "table st = t"
  shows "map_option slots (fp_stats_release pid r (table (relay pid r es st))) = Some (slots m)
    \<and> map_option slots (fp_stats_release pid r t) = Some (slots m)"
proof (cases rule: claim_outcome [OF assms(1,2)])
  case 1
  have "table (relay pid r es st) = Some m"
    by (rule relay_table [where P = "\<lambda>t. t = Some m"]) (use 1 assms(3) in \<open>auto simp: fp_stats_add_def\<close>)
  with 1 show ?thesis by (simp add: fp_stats_release_def)
next
  case (2 i c)
  let ?m = "m\<lparr>slots := (slots m)[i := c]\<rparr>"
  have "\<exists>u d. table (relay pid r es st) = Some (add_counts i u d ?m)"
  proof (rule relay_table [where P = "\<lambda>t. \<exists>u d. t = Some (add_counts i u d ?m)"])
    show "\<exists>u d. table st = Some (add_counts i u d ?m)"
      using 2(2) assms(3) add_counts_0 [of i ?m] by metis
    fix t n
    assume "\<exists>u d. t = Some (add_counts i u d ?m)"
    then obtain u d where t: "t = Some (add_counts i u d ?m)" by blast
    have a: "add_counts i u' d' (add_counts i u d ?m) = add_counts i (u + u') (d + d') ?m" for u' d'
      using 2(3) by (intro add_counts_add) simp
    show "(\<exists>u d. fp_stats_add pid r (word_of_nat n) 0 t = Some (add_counts i u d ?m))
        \<and> (\<exists>u d. fp_stats_add pid r 0 (word_of_nat n) t = Some (add_counts i u d ?m))"
      unfolding t 2(1) fp_stats_add_counts [OF add_counts_owns [OF 2(5)]] a by blast
  qed
  then show ?thesis
    using fp_stats_release_counts [OF 2(5,3,4)] fp_stats_release_counts [OF 2(5,3,4), of 0 0] 2(1,2)
    by (auto simp: add_counts_0)
qed

section \<open>Properties\<close>

text \<open>
  C23: \<open>connect_socks\<close> always returns, and its socket is open exactly if it succeeds. On success it
  has sent the greeting and the request for the original destination, byte for byte, the proxy has
  granted it, and the next byte to be read is the first of the destination's data. If the
  connection is made and the sends go through, it fails only if the proxy does not grant it.
\<close>

theorem connect_socks_exact:
  assumes "\<not> is_open d"
  shows "\<exists>r d'. connect_socks addr port d = Some (r, d') \<and> (r = ok \<or> r = fail)
    \<and> (is_open d' \<longleftrightarrow> r = ok)
    \<and> (r = ok \<longrightarrow> tx (peer d') = tx (peer d) @ [5, 1, 0] @ [5, 1, 0, 1] @ ip_bytes addr @ port_bytes port
         \<and> socks_granted (wire (rx (peer d))) = Some (wire (rx (peer d'))))
    \<and> (dial_ready d \<and> plan (peer d) = [] \<and> r \<noteq> ok \<longrightarrow> socks_granted (wire (rx (peer d))) = None)"
proof -
  obtain r d' where c: "connect_socks addr port d = Some (r, d')" "r = ok \<or> r = fail" "is_open d' \<longleftrightarrow> r = ok"
    "r = ok \<Longrightarrow> tx (peer d') = tx (peer d) @ greeting @ connect_request addr port
       \<and> socks_granted (wire (rx (peer d))) = Some (wire (rx (peer d')))"
    "dial_ready d \<and> plan (peer d) = [] \<and> socks_granted (wire (rx (peer d))) \<noteq> None \<longrightarrow> r = ok"
    using connect_socks_result [OF assms, of addr port] by blast
  have "dial_ready d \<and> plan (peer d) = [] \<and> r \<noteq> ok \<longrightarrow> socks_granted (wire (rx (peer d))) = None"
    using c(5) by blast
  with c(1-4) show ?thesis by (auto simp: greeting_def connect_request_def)
qed

text \<open>A proxy that answers in odd chunks, with a domain name as bound address.\<close>

definition sample_dial :: dial where
  "sample_dial = \<lparr>socket_ok = True, getfl_ok = True, setfl_ok = True,
     connect_answer = InProgress True (Some 0), restore_ok = True, rcvtimeo_ok = True,
     sndtimeo_ok = True, is_open = False,
     peer = \<lparr>rx = [Chunk [5], RIntr, Chunk [0, 5, 0, 0], Chunk [3, 1, 97, 0, 80, 42, 43]],
       plan = [], tx = [], shut_wr = False\<rparr>\<rparr>"

theorem connect_socks_exact_witness:
  "\<exists>d'. connect_socks 1 443 sample_dial = Some (ok, d') \<and> wire (rx (peer d')) = [42, 43]"
proof -
  have a: "\<not> is_open sample_dial" by (simp add: sample_dial_def)
  have b: "dial_ready sample_dial \<and> plan (peer sample_dial) = []"
    by (simp add: dial_ready_def connect_with_timeout_def set_socket_timeouts_def sample_dial_def)
  have c: "socks_granted (wire (rx (peer sample_dial))) = Some [42, 43]"
    by (simp add: socks_granted_def after_bind_def bind_length_def sample_dial_def)
  from connect_socks_exact [OF a, of 1 443] b c show ?thesis by (auto simp del: One_nat_def)
qed

text \<open>
  C22: The relay loses, duplicates and reorders nothing. In each direction what the target has been
  sent, followed by what the source has yet to offer, never changes, except for bytes read when a
  send has failed. If no send fails there is no exception, the end of a stream is passed on exactly
  when it is seen, and the slot's counters and the totals grow by exactly the bytes relayed.
\<close>

theorem relay_conserves_streams:
  fixes st :: relay_state and i :: nat and pid :: int and es :: "poll_answer list"
  defines "st' \<equiv> relay pid (int i) es st"
  shows "(\<exists>lost. tx (remote st') @ lost @ chunk_bytes (rx (client st'))
         = tx (remote st) @ chunk_bytes (rx (client st))
         \<and> (lost = [] \<or> \<not> reliable_state st))
    \<and> (\<exists>lost. tx (client st') @ lost @ chunk_bytes (rx (remote st'))
         = tx (client st) @ chunk_bytes (rx (remote st))
         \<and> (lost = [] \<or> \<not> reliable_state st))
    \<and> (reliable_state st \<and> half_closed st \<longrightarrow> half_closed st')
    \<and> (reliable_state st \<longrightarrow> (\<forall>m. table st = Some m \<and> owns pid i m \<longrightarrow>
         table st' = Some (add_counts i (length (tx (remote st')) - length (tx (remote st)))
                            (length (tx (client st')) - length (tx (client st))) m)))"
proof -
  have s: "relay_source True st = client st" "relay_source False st = remote st" for st
    by (simp_all add: relay_source_def)
  obtain l1 l2 where l: "moves True l1 st st'" "moves False l2 st st'"
    using relay_result [of st pid i es] unfolding st'_def by blast
  have g: "relayed pid i st st'" if "reliable_state st"
    using relay_result [of st pid i es] that unfolding st'_def by blast
  show ?thesis
  proof (cases "reliable_state st")
    case True
    with g have "moves True [] st st'" "moves False [] st st'" "half_closed st \<longrightarrow> half_closed st'" "counted pid i st st'"
      by (auto simp: relayed_def)
    with True show ?thesis by (auto simp: moves_def s counted_def grown_def)
  next
    case False
    with l show ?thesis by (auto simp: moves_def s)
  qed
qed

definition sample_relay :: relay_state where
  "sample_relay = \<lparr>client = \<lparr>rx = [Chunk [71, 69, 84], RIntr, Chunk [10], REof], plan = [Take 2, SIntr],
       tx = [], shut_wr = False\<rparr>,
     remote = \<lparr>rx = [Chunk [79, 75], REof], plan = [SIntr, Take 1], tx = [], shut_wr = False\<rparr>,
     client_polled = True, remote_polled = True, table = None\<rparr>"

theorem relay_conserves_streams_witness:
  "tx (remote (relay 7 0 [PReady True False, PReady True True, PIntr, PReady True True] sample_relay))
     @ chunk_bytes (rx (client (relay 7 0 [PReady True False, PReady True True, PIntr, PReady True True] sample_relay)))
   = [71, 69, 84, 10]"
proof -
  have "reliable_state sample_relay" by (simp add: sample_relay_def reliable_state_def reliable_def)
  moreover have "tx (remote sample_relay) @ chunk_bytes (rx (client sample_relay)) = [71, 69, 84, 10]"
    by (simp add: sample_relay_def)
  ultimately show ?thesis
    using relay_conserves_streams [where i = 0 and st = sample_relay and pid = 7
        and es = "[PReady True False, PReady True True, PIntr, PReady True True]"] by auto
qed

text \<open>
  A worker always finishes with its sockets closed and, whatever failed on the way and
  whichever way its connection ended, it leaves the slots of the shared table as it found them.
\<close>

theorem worker_leaves_table:
  assumes "tidy m" and "\<not> is_open (upstream_dial e)"
  shows "\<exists>res. handle_client e pid c (Some m) = Some res \<and> \<not> client_open res
    \<and> \<not> is_open (end_dial res) \<and> map_option slots (end_table res) = Some (slots m)"
proof (cases "original_dst e")
  case None
  with assms show ?thesis by (simp add: handle_client_def)
next
  case (Some dst)
  obtain addr port where dst: "dst = (addr, port)" by force
  obtain r t where c: "fp_stats_claim pid (claim_clock e) (Some (addr, port)) (Some m) = (r, t)" by force
  obtain q d where q: "connect_socks addr port (upstream_dial e) = Some (q, d)" "q = ok \<or> q = fail"
    "is_open d \<longleftrightarrow> q = ok"
    using connect_socks_result [OF assms(2), of addr port] by blast
  let ?st = "\<lparr>client = c, remote = peer d, client_polled = True, remote_polled = True, table = t\<rparr>"
  note l = claim_relay_release [OF assms(1) c, of ?st "polls e"]
  show ?thesis
    using assms(2) Some dst c q l by (auto simp: handle_client_def Let_def close_dial_def)
qed

definition sample_worker :: worker_env where
  "sample_worker = \<lparr>client_timeouts_ok = True, original_dst = Some (1, 443), euid_root = True,
     setgroups_ok = True, setgid_ok = True, setuid_ok = True, claim_clock = 900,
     upstream_dial = sample_dial, polls = [PReady True True, PTimeout]\<rparr>"

theorem worker_leaves_table_witness:
  "\<exists>res. handle_client sample_worker 77 (client sample_relay) (Some sample_map) = Some res
     \<and> map_option slots (end_table res) = Some (slots sample_map)"
proof -
  have a: "tidy sample_map"
    using sample_map_ok by (auto simp: tidy_def sample_map_def zero_map_def)
  have b: "\<not> is_open (upstream_dial sample_worker)" by (simp add: sample_worker_def sample_dial_def)
  from worker_leaves_table [OF a b] show ?thesis by blast
qed

end
