(* ===== verification/Stats_Sharing.thy ===== *)
theory Stats_Sharing
  imports Stats
begin

text \<open>
  The connection table under concurrency. The daemon's worker processes and the daemon's own
  signal handler write the shared map without locks; here every single store, compare-and-swap
  and atomic addition of \<open>src/stats.c\<close> is one step, and the steps of all processes interleave
  freely. A worker can be killed between any two of its steps.
\<close>

section \<open>Processes\<close>

text \<open>
  Where a worker is: looking at slot \<open>i\<close> for the compare-and-swap; about to do the \<open>k\<close>-th
  store into the slot it took; relaying with slot \<open>i\<close>, or with none; between the slot's counter
  and the total for \<open>n\<close> more bytes; about to do the \<open>k\<close>-th store of the release; finished.
\<close>

datatype wpc = WScan nat | WFill nat nat | WRun nat | WNone | WTotal nat bool u64 | WFree nat nat | WDone

record worker =
  wpc :: wpc
  alive :: bool

text \<open>The handler: idle, looking at slot \<open>i\<close> after process \<open>p\<close> ended, or clearing it.\<close>

datatype reaper = RIdle | RScan int nat | RClear int nat nat

text \<open>
  Two auxiliary counters of the proof, for either direction (\<open>True\<close> is up) and without bound. \<open>counted\<close>: the
  bytes added to the counters of the connections' slots. \<open>missed\<close>: the bytes of workers killed
  after that addition and before the one to the total.
\<close>

record shared =
  smap :: fp_stats_map
  workers :: "int \<Rightarrow> worker option"
  reaper :: reaper
  counted :: "bool \<Rightarrow> nat"
  missed :: "bool \<Rightarrow> nat"

abbreviation slot :: "shared \<Rightarrow> nat \<Rightarrow> fp_stats_conn" where
  "slot s i \<equiv> slots (smap s) ! i"

definition goto :: "int \<Rightarrow> wpc \<Rightarrow> shared \<Rightarrow> shared" where
  "goto p pc s = s\<lparr>workers := (workers s)(p \<mapsto> \<lparr>wpc = pc, alive = True\<rparr>)\<rparr>"

definition write_slot :: "nat \<Rightarrow> (fp_stats_conn \<Rightarrow> fp_stats_conn) \<Rightarrow> shared \<Rightarrow> shared" where
  "write_slot i f s = s\<lparr>smap := update_slot i f (smap s)\<rparr>"

definition at :: "shared \<Rightarrow> int \<Rightarrow> wpc \<Rightarrow> bool" where
  "at s p pc \<longleftrightarrow> workers s p = Some \<lparr>wpc = pc, alive = True\<rparr>"

definition bump :: "bool \<Rightarrow> u64 \<Rightarrow> fp_stats_conn \<Rightarrow> fp_stats_conn" where
  "bump up n c = (if up then c\<lparr>bytes_up := bytes_up c + n\<rparr> else c\<lparr>bytes_down := bytes_down c + n\<rparr>)"

text \<open>\<open>__sync_fetch_and_add\<close> on the total.\<close>

definition add_total :: "bool \<Rightarrow> u64 \<Rightarrow> shared \<Rightarrow> shared" where
  "add_total up n s =
     (if up then s\<lparr>smap := (smap s)\<lparr>total_up := total_up (smap s) + n\<rparr>\<rparr>
      else s\<lparr>smap := (smap s)\<lparr>total_down := total_down (smap s) + n\<rparr>\<rparr>)"

text \<open>The bytes a worker that stands at this point has yet to add to a total.\<close>

fun due :: "bool \<Rightarrow> wpc \<Rightarrow> nat" where
  "due up (WTotal i u n) = (if u = up then unat n else 0)"
| "due up _ = 0"

definition count_bytes :: "bool \<Rightarrow> u64 \<Rightarrow> shared \<Rightarrow> shared" where
  "count_bytes up n s = s\<lparr>counted := (counted s)(up := counted s up + unat n)\<rparr>"

definition kill_worker :: "int \<Rightarrow> worker \<Rightarrow> shared \<Rightarrow> shared" where
  "kill_worker p w s = s\<lparr>workers := (workers s)(p \<mapsto> w\<lparr>alive := False\<rparr>),
     missed := (\<lambda>up. missed s up + (if alive w then due up (wpc w) else 0))\<rparr>"

definition slot_guard :: "shared \<Rightarrow> int \<Rightarrow> nat \<Rightarrow> bool" where
  "slot_guard s p i \<longleftrightarrow> i < unat (slot_count (smap s)) \<and> active (slot s i) \<noteq> 0 \<and> slot_pid (slot s i) = p"

inductive step :: "shared \<Rightarrow> shared \<Rightarrow> bool" where
  fork: "workers s p = None \<Longrightarrow> 1 < p \<Longrightarrow> step s (goto p (WScan 0) s)"
| scan_skip: "at s p (WScan i) \<Longrightarrow> i < unat (slot_count (smap s)) \<Longrightarrow> i < FP_MAX_CLIENTS
    \<Longrightarrow> active (slot s i) \<noteq> 0 \<Longrightarrow> step s (goto p (WScan (Suc i)) s)"
| scan_end: "at s p (WScan i) \<Longrightarrow> \<not> (i < unat (slot_count (smap s)) \<and> i < FP_MAX_CLIENTS)
    \<Longrightarrow> step s (goto p WNone s)"
| swap: "at s p (WScan i) \<Longrightarrow> i < unat (slot_count (smap s)) \<Longrightarrow> i < FP_MAX_CLIENTS
    \<Longrightarrow> active (slot s i) = 0 \<Longrightarrow> step s (goto p (WFill i 0) (write_slot i (\<lambda>c. c\<lparr>active := 1\<rparr>) s))"
| fill: "at s p (WFill i k) \<Longrightarrow> k < 6
    \<Longrightarrow> step s (goto p (if k = 5 then WRun i else WFill i (Suc k))
          (write_slot i (claim_field addr port p now k) s))"
| count: "at s p (WRun i) \<Longrightarrow> slot_guard s p i \<Longrightarrow> 0 < n
    \<Longrightarrow> step s (count_bytes up n (goto p (WTotal i up n) (write_slot i (bump up n) s)))"
| total: "at s p (WTotal i up n) \<Longrightarrow> step s (goto p (WRun i) (add_total up n s))"
| release: "at s p (WRun i) \<Longrightarrow> i < unat (slot_count (smap s))
    \<Longrightarrow> step s (goto p (if slot_pid (slot s i) = p then WFree i 0 else WDone) s)"
| release_none: "at s p WNone \<Longrightarrow> step s (goto p WDone s)"
| free: "at s p (WFree i k) \<Longrightarrow> k < 7
    \<Longrightarrow> step s (goto p (if k = 6 then WDone else WFree i (Suc k)) (write_slot i (release_field k) s))"
| killed: "workers s p = Some w \<Longrightarrow> step s (kill_worker p w s)"
| reap: "reaper s = RIdle \<Longrightarrow> workers s p = Some w \<Longrightarrow> \<not> alive w \<Longrightarrow> step s (s\<lparr>reaper := RScan p 0\<rparr>)"
| reap_skip: "reaper s = RScan p i \<Longrightarrow> i < unat (slot_count (smap s)) \<Longrightarrow> i < FP_MAX_CLIENTS
    \<Longrightarrow> \<not> (active (slot s i) \<noteq> 0 \<and> slot_pid (slot s i) = p) \<Longrightarrow> step s (s\<lparr>reaper := RScan p (Suc i)\<rparr>)"
| reap_found: "reaper s = RScan p i \<Longrightarrow> i < unat (slot_count (smap s)) \<Longrightarrow> i < FP_MAX_CLIENTS
    \<Longrightarrow> active (slot s i) \<noteq> 0 \<Longrightarrow> slot_pid (slot s i) = p \<Longrightarrow> step s (s\<lparr>reaper := RClear p i 0\<rparr>)"
| reap_clear: "reaper s = RClear p i k \<Longrightarrow> k < 6
    \<Longrightarrow> step s (write_slot i (release_field k) s\<lparr>reaper := RClear p i (Suc k)\<rparr>)"
| reap_freed: "reaper s = RClear p i 6
    \<Longrightarrow> step s ((write_slot i (release_field 6) s)
          \<lparr>reaper := RScan p (Suc i), workers := (workers s)(p \<mapsto> \<lparr>wpc = WDone, alive = False\<rparr>)\<rparr>)"
| reap_done: "reaper s = RScan p i \<Longrightarrow> \<not> (i < unat (slot_count (smap s)) \<and> i < FP_MAX_CLIENTS)
    \<Longrightarrow> step s (s\<lparr>reaper := RIdle, workers := (workers s)(p := None)\<rparr>)"

inductive_cases step_cases: "step s s'"

text \<open>The map as \<open>fp_stats_create\<close> leaves it, and no workers.\<close>

definition start :: "u64 \<Rightarrow> shared" where
  "start ms = \<lparr>smap = zero_map\<lparr>magic := FP_STATS_MAGIC, version := FP_STATS_VERSION,
       slot_count := word_of_nat FP_MAX_CLIENTS, started_ms := ms\<rparr>,
     workers = (\<lambda>_. None), reaper = RIdle, counted = (\<lambda>_. 0), missed = (\<lambda>_. 0)\<rparr>"

inductive reachable :: "shared \<Rightarrow> bool" where
  init: "reachable (start ms)"
| more: "reachable s \<Longrightarrow> step s s' \<Longrightarrow> reachable s'"

section \<open>The invariant\<close>

fun holds :: "wpc \<Rightarrow> nat \<Rightarrow> bool" where
  "holds (WFill j k) i \<longleftrightarrow> j = i"
| "holds (WRun j) i \<longleftrightarrow> j = i"
| "holds (WTotal j up n) i \<longleftrightarrow> j = i"
| "holds (WFree j k) i \<longleftrightarrow> j = i"
| "holds _ i \<longleftrightarrow> False"

text \<open>The worker's process id is in its slot, respectively is gone from it again.\<close>

fun signed :: "wpc \<Rightarrow> nat \<Rightarrow> bool" where
  "signed (WFill j k) i \<longleftrightarrow> j = i \<and> 3 \<le> k"
| "signed (WFree j k) i \<longleftrightarrow> j = i \<and> k \<le> 4"
| "signed (WRun j) i \<longleftrightarrow> j = i"
| "signed (WTotal j up n) i \<longleftrightarrow> j = i"
| "signed _ i \<longleftrightarrow> False"

fun erased :: "wpc \<Rightarrow> nat \<Rightarrow> bool" where
  "erased (WFree j k) i \<longleftrightarrow> j = i \<and> 5 \<le> k"
| "erased _ i \<longleftrightarrow> False"

definition slot_inv :: "shared \<Rightarrow> nat \<Rightarrow> bool" where
  "slot_inv s i \<longleftrightarrow>
     (slot_pid (slot s i) \<noteq> 0 \<longrightarrow>
        (\<exists>w. workers s (slot_pid (slot s i)) = Some w \<and> holds (wpc w) i))
   \<and> (active (slot s i) = 0 \<longrightarrow> slot_pid (slot s i) = 0
        \<and> (\<forall>p w. workers s p = Some w \<longrightarrow> \<not> holds (wpc w) i))"

definition worker_inv :: "shared \<Rightarrow> int \<Rightarrow> worker \<Rightarrow> bool" where
  "worker_inv s p w \<longleftrightarrow> 1 < p
     \<and> (\<forall>i. holds (wpc w) i \<longrightarrow> i < FP_MAX_CLIENTS)
     \<and> (alive w \<longrightarrow> (\<forall>i. (signed (wpc w) i \<longrightarrow> slot_pid (slot s i) = p)
                      \<and> (erased (wpc w) i \<longrightarrow> slot_pid (slot s i) = 0)))"

definition exclusive :: "shared \<Rightarrow> bool" where
  "exclusive s \<longleftrightarrow> (\<forall>p q w v i. workers s p = Some w \<longrightarrow> workers s q = Some v
     \<longrightarrow> holds (wpc w) i \<longrightarrow> holds (wpc v) i \<longrightarrow> p = q)"

fun reaper_inv :: "shared \<Rightarrow> reaper \<Rightarrow> bool" where
  "reaper_inv s RIdle \<longleftrightarrow> True"
| "reaper_inv s (RScan p i) \<longleftrightarrow>
     (\<exists>w. workers s p = Some w \<and> \<not> alive w) \<and> (\<forall>j < i. j < FP_MAX_CLIENTS \<longrightarrow> slot_pid (slot s j) \<noteq> p)"
| "reaper_inv s (RClear p i k) \<longleftrightarrow> i < FP_MAX_CLIENTS
     \<and> (\<exists>w. workers s p = Some w \<and> \<not> alive w \<and> holds (wpc w) i)
     \<and> (\<forall>j < i. slot_pid (slot s j) \<noteq> p) \<and> k < 7 \<and> (5 \<le> k \<longrightarrow> slot_pid (slot s i) = 0)"

definition sharing_inv :: "shared \<Rightarrow> bool" where
  "sharing_inv s \<longleftrightarrow> length (slots (smap s)) = FP_MAX_CLIENTS \<and> unat (slot_count (smap s)) = FP_MAX_CLIENTS
     \<and> (\<forall>i < FP_MAX_CLIENTS. slot_inv s i) \<and> (\<forall>p w. workers s p = Some w \<longrightarrow> worker_inv s p w)
     \<and> exclusive s \<and> reaper_inv s (reaper s)"

section \<open>Preservation\<close>

lemma write_slot_sel [simp]:
  "workers (write_slot i f s) = workers s" "reaper (write_slot i f s) = reaper s"
  "counted (write_slot i f s) = counted s" "missed (write_slot i f s) = missed s"
  "slots (smap (write_slot i f s)) = (slots (smap s))[i := f (slot s i)]"
  "slot_count (smap (write_slot i f s)) = slot_count (smap s)"
  by (simp_all add: write_slot_def)

lemma goto_sel [simp]:
  "smap (goto p pc s) = smap s" "reaper (goto p pc s) = reaper s"
  "workers (goto p pc s) = (workers s)(p \<mapsto> \<lparr>wpc = pc, alive = True\<rparr>)"
  "counted (goto p pc s) = counted s" "missed (goto p pc s) = missed s"
  by (simp_all add: goto_def)

lemma ghost_sel [simp]:
  "smap (count_bytes up n s) = smap s" "workers (count_bytes up n s) = workers s"
  "reaper (count_bytes up n s) = reaper s" "missed (count_bytes up n s) = missed s"
  "smap (kill_worker p w s) = smap s" "reaper (kill_worker p w s) = reaper s"
  "workers (kill_worker p w s) = (workers s)(p \<mapsto> w\<lparr>alive := False\<rparr>)" "counted (kill_worker p w s) = counted s"
  "at (count_bytes up n s) q pc = at s q pc"
  by (simp_all add: count_bytes_def kill_worker_def at_def)

lemma invD:
  assumes "sharing_inv s"
  shows "length (slots (smap s)) = FP_MAX_CLIENTS" "unat (slot_count (smap s)) = FP_MAX_CLIENTS"
    "i < FP_MAX_CLIENTS \<Longrightarrow> slot_inv s i" "workers s p = Some w \<Longrightarrow> worker_inv s p w"
    "exclusive s" "reaper_inv s (reaper s)"
  using assms by (auto simp: sharing_inv_def)

text \<open>In a slot that a worker holds there is its own process id or none.\<close>

lemma held_pid:
  assumes "sharing_inv s" "workers s p = Some w" "holds (wpc w) i"
  shows "i < FP_MAX_CLIENTS" and "slot_pid (slot s i) = 0 \<or> slot_pid (slot s i) = p"
    and "active (slot s i) \<noteq> 0" and "workers s q = Some v \<Longrightarrow> holds (wpc v) i \<Longrightarrow> q = p"
proof -
  show i: "i < FP_MAX_CLIENTS"
    using invD(4) [OF assms(1,2)] assms(3) by (auto simp: worker_inv_def)
  have x: "workers s q = Some v \<Longrightarrow> holds (wpc v) i \<Longrightarrow> q = p" for q v
    using invD(5) [OF assms(1)] assms(2,3) unfolding exclusive_def by blast
  then show "workers s q = Some v \<Longrightarrow> holds (wpc v) i \<Longrightarrow> q = p" .
  from invD(3) [OF assms(1) i] show "slot_pid (slot s i) = 0 \<or> slot_pid (slot s i) = p"
    unfolding slot_inv_def using x by metis
  from invD(3) [OF assms(1) i] show "active (slot s i) \<noteq> 0"
    unfolding slot_inv_def using assms(2,3) by blast
qed

text \<open>
  A worker's step that stores into the slot it holds or takes a free slot keeps the invariant,
  under conditions on the new content and the new program counter only.
\<close>

definition may_store :: "shared \<Rightarrow> int \<Rightarrow> worker \<Rightarrow> nat \<Rightarrow> (fp_stats_conn \<Rightarrow> fp_stats_conn) \<Rightarrow> wpc \<Rightarrow> bool" where
  "may_store s p w i f pc \<longleftrightarrow> workers s p = Some w \<and> alive w \<and> i < FP_MAX_CLIENTS
     \<and> (holds (wpc w) i \<or> active (slot s i) = 0 \<and> (\<forall>j. \<not> holds (wpc w) j))
     \<and> (\<forall>j. holds pc j \<longrightarrow> j = i)
     \<and> slot_pid (f (slot s i)) \<in> {0, p} \<and> (slot_pid (f (slot s i)) = p \<longrightarrow> holds pc i)
     \<and> (active (f (slot s i)) = 0 \<longrightarrow> slot_pid (f (slot s i)) = 0 \<and> \<not> holds pc i)
     \<and> (\<forall>j. signed pc j \<longrightarrow> j = i \<and> slot_pid (f (slot s i)) = p)
     \<and> (\<forall>j. erased pc j \<longrightarrow> j = i \<and> slot_pid (f (slot s i)) = 0)"

abbreviation stored :: "shared \<Rightarrow> int \<Rightarrow> nat \<Rightarrow> (fp_stats_conn \<Rightarrow> fp_stats_conn) \<Rightarrow> wpc \<Rightarrow> shared" where
  "stored s p i f pc \<equiv> goto p pc (write_slot i f s)"

lemma storeD:
  assumes "may_store s p w i f pc"
  shows "workers s p = Some w" "alive w" "i < FP_MAX_CLIENTS" "holds pc j \<Longrightarrow> j = i"
    "slot_pid (f (slot s i)) \<in> {0, p}" "slot_pid (f (slot s i)) = p \<Longrightarrow> holds pc i"
    "active (f (slot s i)) = 0 \<Longrightarrow> slot_pid (f (slot s i)) = 0 \<and> \<not> holds pc i"
    "signed pc j \<Longrightarrow> j = i \<and> slot_pid (f (slot s i)) = p"
    "erased pc j \<Longrightarrow> j = i \<and> slot_pid (f (slot s i)) = 0"
  using assms unfolding may_store_def by blast+

lemma holds_one: "holds pc i \<Longrightarrow> holds pc j \<Longrightarrow> j = i"
  by (cases pc) auto

lemma store_others:
  assumes "sharing_inv s" "may_store s p w i f pc" "workers s q = Some v" "q \<noteq> p"
  shows "\<not> holds (wpc v) i"
  using assms held_pid(4) [OF assms(1), of p w i q v] invD(3) [OF assms(1), of i]
  unfolding may_store_def slot_inv_def by blast

lemma store_slot:
  assumes "sharing_inv s" "may_store s p w i f pc"
  shows "slot (stored s p i f pc) j = (if j = i then f (slot s i) else slot s j)"
  using invD(1) [OF assms(1)] storeD(3) [OF assms(2)] by (simp add: nth_list_update')

lemma store_slot_inv:
  assumes I: "sharing_inv s" and S: "may_store s p w i f pc" and j: "j < FP_MAX_CLIENTS"
  shows "slot_inv (stored s p i f pc) j"
proof (cases "j = i")
  case True
  with storeD [OF S] store_others [OF I S] show ?thesis
    unfolding slot_inv_def store_slot [OF I S] by auto
next
  case False
  then have "\<not> holds pc j" "\<not> holds (wpc w) j"
    using S holds_one unfolding may_store_def by blast+
  with invD(3) [OF I j] False storeD(1) [OF S] show ?thesis
    unfolding slot_inv_def store_slot [OF I S] by auto
qed

lemma store_worker_inv:
  assumes I: "sharing_inv s" and S: "may_store s p w i f pc" and v: "workers (stored s p i f pc) q = Some v"
  shows "worker_inv (stored s p i f pc) q v"
proof (cases "q = p")
  case True
  with v have v': "v = \<lparr>wpc = pc, alive = True\<rparr>" by simp
  have "1 < p" using invD(4) [OF I storeD(1) [OF S]] by (simp add: worker_inv_def)
  moreover have "holds pc j \<Longrightarrow> j < FP_MAX_CLIENTS" for j
    using storeD(3) [OF S] storeD(4) [OF S, of j] by simp
  moreover have "signed pc j \<Longrightarrow> slot_pid (slot (stored s p i f pc) j) = p" for j
    unfolding store_slot [OF I S] using storeD(8) [OF S, of j] by simp
  moreover have "erased pc j \<Longrightarrow> slot_pid (slot (stored s p i f pc) j) = 0" for j
    unfolding store_slot [OF I S] using storeD(9) [OF S, of j] by simp
  ultimately show ?thesis unfolding worker_inv_def v' True by (simp del: goto_sel write_slot_sel)
next
  case False
  with v have v': "workers s q = Some v" by simp
  have "\<not> signed (wpc v) i \<and> \<not> erased (wpc v) i"
    using store_others [OF I S v' False] by (cases "wpc v") auto
  with invD(4) [OF I v'] show ?thesis unfolding worker_inv_def store_slot [OF I S] by auto
qed

lemma store_holder:
  assumes I: "sharing_inv s" and S: "may_store s p w i f pc"
    and v: "workers (stored s p i f pc) q = Some v" "holds (wpc v) j" "q \<noteq> p"
  shows "workers s q = Some v" "\<not> holds pc j"
  using v store_others [OF I S, of q v] storeD(4) [OF S, of j] by auto

lemma store_exclusive:
  assumes I: "sharing_inv s" and S: "may_store s p w i f pc"
  shows "exclusive (stored s p i f pc)"
  unfolding exclusive_def
proof (intro allI impI)
  fix a b v1 v2 j
  assume a: "workers (stored s p i f pc) a = Some v1" and b: "workers (stored s p i f pc) b = Some v2"
    and h: "holds (wpc v1) j" "holds (wpc v2) j"
  note A = store_holder [OF I S a h(1)] and B = store_holder [OF I S b h(2)]
  consider "a = p" "b = p" | "a = p" "b \<noteq> p" | "a \<noteq> p" "b = p" | "a \<noteq> p" "b \<noteq> p" by blast
  then show "a = b"
  proof cases
    case 2
    with a h(1) B(2) show ?thesis by auto
  next
    case 3
    with b h(2) A(2) show ?thesis by auto
  next
    case 4
    with A(1) B(1) h invD(5) [OF I] show ?thesis unfolding exclusive_def by blast
  qed simp
qed

lemma store_reaper_inv:
  assumes I: "sharing_inv s" and S: "may_store s p w i f pc"
  shows "reaper_inv (stored s p i f pc) (reaper s)"
proof -
  have dead: "q \<noteq> p \<and> 1 < q" if "workers s q = Some v" "\<not> alive v" for q v
    using that storeD(1,2) [OF S] invD(4) [OF I that(1)] by (auto simp: worker_inv_def)
  have p1: "1 < p" using invD(4) [OF I storeD(1) [OF S]] by (simp add: worker_inv_def)
  show ?thesis
  proof (cases "reaper s")
    case (RScan q j)
    with invD(6) [OF I] obtain v where "workers s q = Some v" "\<not> alive v" by auto
    with dead have q: "q \<noteq> p" "1 < q" by auto
    with RScan invD(6) [OF I] storeD(3,5) [OF S] p1 show ?thesis by (auto simp: nth_list_update')
  next
    case (RClear q j k)
    with invD(6) [OF I] obtain v where v: "workers s q = Some v" "\<not> alive v" "holds (wpc v) j" by auto
    with dead have q: "q \<noteq> p" "1 < q" by auto
    with store_others [OF I S v(1)] v(3) have "j \<noteq> i" by blast
    with RClear q invD(6) [OF I] storeD(3,5) [OF S] p1 show ?thesis by (auto simp: nth_list_update')
  qed simp
qed

lemma inv_store:
  assumes I: "sharing_inv s" and S: "may_store s p w i f pc"
  shows "sharing_inv (stored s p i f pc)"
  using invD [OF I] store_slot_inv [OF I S] store_worker_inv [OF I S] store_exclusive [OF I S]
    store_reaper_inv [OF I S]
  unfolding sharing_inv_def by simp

lemma slots_same:
  assumes "slots (smap s') = slots (smap s)" and "\<And>q v. workers s q = Some v \<Longrightarrow> \<exists>v'. workers s' q = Some v'
      \<and> (\<forall>i. holds (wpc v') i = holds (wpc v) i)"
    and "\<And>q v'. workers s' q = Some v' \<Longrightarrow> (\<exists>v. workers s q = Some v \<and> (\<forall>i. holds (wpc v') i = holds (wpc v) i))
      \<or> (\<forall>i. \<not> holds (wpc v') i)"
  shows "slot_inv s i \<Longrightarrow> slot_inv s' i" and "exclusive s \<Longrightarrow> exclusive s'"
proof -
  show "slot_inv s' i" if a: "slot_inv s i"
    unfolding slot_inv_def assms(1)
    using a assms(2,3) unfolding slot_inv_def by meson
  show "exclusive s'" if e: "exclusive s"
    unfolding exclusive_def
  proof (intro allI impI)
    fix p q w v i
    assume p: "workers s' p = Some w" "holds (wpc w) i" and q: "workers s' q = Some v" "holds (wpc v) i"
    from p assms(3) obtain w0 where "workers s p = Some w0" "holds (wpc w0) i" by blast
    moreover from q assms(3) obtain v0 where "workers s q = Some v0" "holds (wpc v0) i" by blast
    ultimately show "p = q" using e unfolding exclusive_def by blast
  qed
qed

text \<open>A worker's step that stores nothing.\<close>

lemma inv_goto:
  assumes I: "sharing_inv s" and w: "workers s p = Some w" "alive w"
    and h: "\<And>j. holds pc j = holds (wpc w) j"
    and sig: "\<And>j. signed pc j \<Longrightarrow> slot_pid (slot s j) = p"
    and era: "\<And>j. erased pc j \<Longrightarrow> slot_pid (slot s j) = 0"
  shows "sharing_inv (goto p pc s)"
proof -
  let ?s = "goto p pc s"
  note D = invD [OF I]
  have fwd: "\<exists>v'. workers ?s q = Some v' \<and> (\<forall>i. holds (wpc v') i = holds (wpc v) i)"
    if "workers s q = Some v" for q v
    using that w(1) h by (cases "q = p") simp_all
  have bwd: "(\<exists>v. workers s q = Some v \<and> (\<forall>i. holds (wpc v') i = holds (wpc v) i))
      \<or> (\<forall>i. \<not> holds (wpc v') i)" if "workers ?s q = Some v'" for q v'
  proof (cases "q = p")
    case True
    with that have "v' = \<lparr>wpc = pc, alive = True\<rparr>" by simp
    with True w(1) h show ?thesis by simp
  next
    case False
    with that show ?thesis by simp
  qed
  note keep = slots_same(1) [of ?s s, OF _ fwd bwd, simplified]
  have ex: "exclusive ?s" by (rule slots_same(2) [OF _ fwd bwd D(5)]) simp
  have wi: "worker_inv ?s q v" if v: "workers ?s q = Some v" for q v
  proof (cases "q = p")
    case True
    with v have v': "v = \<lparr>wpc = pc, alive = True\<rparr>" by simp
    have "holds pc j \<Longrightarrow> j < FP_MAX_CLIENTS" for j using h [of j] held_pid(1) [OF I w(1)] by simp
    moreover have "1 < p" using D(4) [OF w(1)] by (simp add: worker_inv_def)
    moreover have "signed pc j \<Longrightarrow> slot_pid (slot ?s j) = p" for j using sig [of j] by simp
    moreover have "erased pc j \<Longrightarrow> slot_pid (slot ?s j) = 0" for j using era [of j] by simp
    ultimately show ?thesis unfolding worker_inv_def v' True by (simp del: goto_sel)
  next
    case False
    with v D(4) [of q v] show ?thesis by (auto simp: worker_inv_def)
  qed
  have "reaper_inv ?s (reaper ?s)"
    using D(6) w by (cases "reaper s") auto
  with D keep ex wi show ?thesis unfolding sharing_inv_def by simp
qed

lemma inv_fork:
  assumes I: "sharing_inv s" and p: "workers s p = None" "1 < p"
  shows "sharing_inv (goto p (WScan 0) s)"
proof -
  let ?s = "goto p (WScan 0) s"
  note D = invD [OF I]
  have keep: "slot_inv ?s i" if "slot_inv s i" for i
    by (rule slots_same(1) [OF _ _ _ that]) (use p in \<open>auto split: if_splits\<close>)
  have ex: "exclusive ?s"
    by (rule slots_same(2) [OF _ _ _ D(5)]) (use p in \<open>auto split: if_splits\<close>)
  have wi: "worker_inv ?s q v" if v: "workers ?s q = Some v" for q v
    using v p D(4) [of q v] by (auto simp: worker_inv_def split: if_splits)
  have "reaper_inv ?s (reaper ?s)"
    using D(6) p by (cases "reaper s") auto
  with D keep ex wi show ?thesis unfolding sharing_inv_def by simp
qed

lemma inv_killed:
  assumes I: "sharing_inv s" and w: "workers s p = Some w"
  shows "sharing_inv (kill_worker p w s)" (is "sharing_inv ?s")
proof -
  note D = invD [OF I]
  have keep: "slot_inv ?s i" if "slot_inv s i" for i
    by (rule slots_same(1) [OF _ _ _ that]) (use w in \<open>auto split: if_splits\<close>)
  have ex: "exclusive ?s"
    by (rule slots_same(2) [OF _ _ _ D(5)]) (use w in \<open>auto split: if_splits\<close>)
  have wi: "worker_inv ?s q v" if v: "workers ?s q = Some v" for q v
    using v D(4) [OF w] D(4) [of q v] by (auto simp: worker_inv_def split: if_splits)
  have "reaper_inv ?s (reaper ?s)"
    using D(6) w by (cases "reaper s") auto
  with D keep ex wi show ?thesis unfolding sharing_inv_def by simp
qed

text \<open>The invariant sees only the slots, the workers and the handler.\<close>

lemma inv_transfer:
  assumes "sharing_inv s" and e: "slots (smap s') = slots (smap s)" "slot_count (smap s') = slot_count (smap s)"
    "workers s' = workers s"
    and "reaper_inv s (reaper s')"
  shows "sharing_inv s'"
proof -
  have "slot_inv s' i = slot_inv s i" "worker_inv s' p w = worker_inv s p w" "exclusive s' = exclusive s" for i p w
    unfolding slot_inv_def worker_inv_def exclusive_def e by (rule refl)+
  moreover have "reaper_inv s' r = reaper_inv s r" for r
    by (cases r) (simp_all only: reaper_inv.simps e)
  ultimately show ?thesis using assms unfolding sharing_inv_def by metis
qed

lemma inv_reaper:
  assumes "sharing_inv s" and "reaper_inv s r"
  shows "sharing_inv (s\<lparr>reaper := r\<rparr>)"
  by (rule inv_transfer [OF assms(1)]) (use assms in simp_all)

lemma inv_add_total:
  assumes "sharing_inv s"
  shows "sharing_inv (add_total up n s)"
  by (rule inv_transfer [OF assms])
    (use invD(6) [OF assms] in \<open>auto simp: add_total_def\<close>)

lemma inv_count_bytes:
  assumes "sharing_inv s"
  shows "sharing_inv (count_bytes up n s)"
  by (rule inv_transfer [OF assms]) (use invD(6) [OF assms] in simp_all)

text \<open>The handler's stores into the slot of the dead worker.\<close>

lemma inv_reap_clear:
  assumes I: "sharing_inv s" and r: "reaper s = RClear p i k" and k: "k < 6"
  shows "sharing_inv (write_slot i (release_field k) s\<lparr>reaper := RClear p i (Suc k)\<rparr>)" (is "sharing_inv ?s")
proof -
  note D = invD [OF I]
  from D(6) r obtain w where w: "workers s p = Some w" "\<not> alive w" "holds (wpc w) i" and i: "i < FP_MAX_CLIENTS"
    and z: "5 \<le> k \<Longrightarrow> slot_pid (slot s i) = 0" and b: "\<forall>j < i. slot_pid (slot s j) \<noteq> p" by auto
  note H = held_pid [OF I w(1,3)]
  have slot: "slot ?s j = (if j = i then release_field k (slot s i) else slot s j)" for j
    using i D(1) by (simp add: nth_list_update')
  have new: "slot_pid (release_field k (slot s i)) = 0 \<or> slot_pid (release_field k (slot s i)) = p"
    "active (release_field k (slot s i)) \<noteq> 0" "4 \<le> k \<Longrightarrow> slot_pid (release_field k (slot s i)) = 0"
    using H(2,3) k z by (auto simp: release_field_def)
  have ws: "workers ?s = workers s" by simp
  have "slot_inv ?s j" if j: "j < FP_MAX_CLIENTS" for j
    using D(3) [OF j] new w unfolding slot_inv_def slot ws by (cases "j = i") auto
  moreover have "worker_inv ?s q v" if v: "workers ?s q = Some v" for q v
  proof -
    have v': "workers s q = Some v" using v by simp
    have "\<not> signed (wpc v) i \<and> \<not> erased (wpc v) i" if "alive v"
      using H(4) [OF v'] w v' that by (cases "wpc v") auto
    with D(4) [OF v'] show ?thesis unfolding worker_inv_def slot by auto
  qed
  moreover have "exclusive ?s" using D(5) unfolding exclusive_def ws .
  moreover have "reaper_inv ?s (reaper ?s)"
    using w i b k new slot by auto
  ultimately show ?thesis using D(1,2) unfolding sharing_inv_def by (simp del: reaper_inv.simps)
qed

lemma inv_reap_freed:
  assumes I: "sharing_inv s" and r: "reaper s = RClear p i 6"
  shows "sharing_inv ((write_slot i (release_field 6) s)
    \<lparr>reaper := RScan p (Suc i), workers := (workers s)(p \<mapsto> \<lparr>wpc = WDone, alive = False\<rparr>)\<rparr>)"
    (is "sharing_inv ?s")
proof -
  note D = invD [OF I]
  from D(6) r obtain w where w: "workers s p = Some w" "\<not> alive w" "holds (wpc w) i" and i: "i < FP_MAX_CLIENTS"
    and z: "slot_pid (slot s i) = 0" and b: "\<forall>j < i. slot_pid (slot s j) \<noteq> p" by auto
  note H = held_pid [OF I w(1,3)]
  have slot: "slot ?s j = (if j = i then release_field 6 (slot s i) else slot s j)" for j
    using i D(1) by (simp add: nth_list_update')
  have new: "slot_pid (release_field 6 (slot s i)) = 0" "active (release_field 6 (slot s i)) = 0"
    using z by (auto simp: release_field_def)
  have ws: "workers ?s = (workers s)(p \<mapsto> \<lparr>wpc = WDone, alive = False\<rparr>)" by simp
  have p1: "1 < p" using D(4) [OF w(1)] by (simp add: worker_inv_def)
  have wp: "holds (wpc w) j \<Longrightarrow> j = i" for j using w(3) by (cases "wpc w") auto
  have "slot_inv ?s j" if j: "j < FP_MAX_CLIENTS" for j
  proof (cases "j = i")
    case True
    with new H(4) show ?thesis unfolding slot_inv_def slot ws by auto
  next
    case False
    then have "\<not> holds (wpc w) j" using wp by blast
    then have "slot_pid (slot s j) \<noteq> 0 \<Longrightarrow> slot_pid (slot s j) \<noteq> p"
      using D(3) [OF j] w unfolding slot_inv_def by auto
    with D(3) [OF j] False show ?thesis unfolding slot_inv_def slot ws by auto
  qed
  moreover have "worker_inv ?s q v" if v: "workers ?s q = Some v" for q v
  proof (cases "q = p")
    case True
    with v p1 show ?thesis by (auto simp: worker_inv_def)
  next
    case False
    with v have v': "workers s q = Some v" by simp
    have "\<not> signed (wpc v) i \<and> \<not> erased (wpc v) i"
      using H(4) [OF v'] False by (cases "wpc v") auto
    with D(4) [OF v'] show ?thesis unfolding worker_inv_def slot by auto
  qed
  moreover have "exclusive ?s"
    using D(5) unfolding exclusive_def ws by (auto split: if_splits)
  moreover have "slot_pid (slot ?s j) \<noteq> p" if "j < Suc i" for j
    using that b new p1 slot by (cases "j = i") auto
  then have "reaper_inv ?s (reaper ?s)" by simp
  ultimately show ?thesis using D(1,2) unfolding sharing_inv_def by simp
qed

lemma inv_reap_done:
  assumes I: "sharing_inv s" and r: "reaper s = RScan p i"
    and e: "\<not> (i < unat (slot_count (smap s)) \<and> i < FP_MAX_CLIENTS)"
  shows "sharing_inv (s\<lparr>reaper := RIdle, workers := (workers s)(p := None)\<rparr>)" (is "sharing_inv ?s")
proof -
  note D = invD [OF I]
  have b: "slot_pid (slot s j) \<noteq> p" if "j < FP_MAX_CLIENTS" for j
    using D(2,6) r e that by auto
  have "slot_inv ?s j" if j: "j < FP_MAX_CLIENTS" for j
    using D(3) [OF j] b [OF j] unfolding slot_inv_def by (auto split: if_splits)
  moreover have "worker_inv ?s q v" if v: "workers ?s q = Some v" for q v
    using v D(4) [of q v] by (auto simp: worker_inv_def split: if_splits)
  moreover have "exclusive ?s"
    using D(5) unfolding exclusive_def by (auto split: if_splits)
  ultimately show ?thesis using D(1,2) unfolding sharing_inv_def by simp
qed

lemma atD: "at s p pc \<Longrightarrow> workers s p = Some \<lparr>wpc = pc, alive = True\<rparr>"
  by (simp add: at_def)

text \<open>What a live worker knows of its slot.\<close>

lemma at_slot:
  assumes "sharing_inv s" and "at s p pc"
  shows "1 < p" and "signed pc i \<Longrightarrow> slot_pid (slot s i) = p" and "erased pc i \<Longrightarrow> slot_pid (slot s i) = 0"
    and "holds pc i \<Longrightarrow> i < FP_MAX_CLIENTS \<and> active (slot s i) \<noteq> 0 \<and> slot_pid (slot s i) \<in> {0, p}"
  using invD(4) [OF assms(1) atD [OF assms(2)]] held_pid(1-3) [OF assms(1) atD [OF assms(2)], of i]
  by (auto simp: worker_inv_def)

text \<open>The stores of a worker: taking a slot, filling it, counting, releasing it.\<close>

lemma inv_swap:
  assumes I: "sharing_inv s" and a: "at s p (WScan i)" and i: "i < FP_MAX_CLIENTS" "active (slot s i) = 0"
  shows "sharing_inv (stored s p i (\<lambda>c. c\<lparr>active := 1\<rparr>) (WFill i 0))"
proof (rule inv_store [OF I])
  have "slot_pid (slot s i) = 0" using invD(3) [OF I i(1)] i(2) by (simp add: slot_inv_def)
  then show "may_store s p \<lparr>wpc = WScan i, alive = True\<rparr> i (\<lambda>c. c\<lparr>active := 1\<rparr>) (WFill i 0)"
    using atD [OF a] at_slot(1) [OF I a] i by (simp add: may_store_def)
qed

lemma inv_fill:
  assumes I: "sharing_inv s" and a: "at s p (WFill i k)" and k: "k < 6"
  shows "sharing_inv (stored s p i (claim_field addr port p now k) (if k = 5 then WRun i else WFill i (Suc k)))"
  by (rule inv_store [OF I, where w = "\<lparr>wpc = WFill i k, alive = True\<rparr>"])
    (use atD [OF a] at_slot(1) [OF I a] at_slot(2-4) [OF I a, of i] k in \<open>auto simp: may_store_def claim_field_def split: if_splits\<close>)

lemma inv_count:
  assumes I: "sharing_inv s" and a: "at s p (WRun i)"
  shows "sharing_inv (count_bytes up n (stored s p i (bump up n) (WTotal i up n)))"
  by (rule inv_count_bytes, rule inv_store [OF I, where w = "\<lparr>wpc = WRun i, alive = True\<rparr>"])
    (use atD [OF a] at_slot(1) [OF I a] at_slot(2-4) [OF I a, of i] in \<open>auto simp: may_store_def bump_def split: if_splits\<close>)

lemma inv_free:
  assumes I: "sharing_inv s" and a: "at s p (WFree i k)" and k: "k < 7"
  shows "sharing_inv (stored s p i (release_field k) (if k = 6 then WDone else WFree i (Suc k)))"
  by (rule inv_store [OF I, where w = "\<lparr>wpc = WFree i k, alive = True\<rparr>"])
    (use atD [OF a] at_slot(1) [OF I a] at_slot(2-4) [OF I a, of i] k in \<open>auto simp: may_store_def release_field_def split: if_splits\<close>)

lemma inv_total:
  assumes I: "sharing_inv s" and a: "at s p (WTotal i up n)"
  shows "sharing_inv (goto p (WRun i) (add_total up n s))"
  by (rule inv_goto [OF inv_add_total [OF I], where w = "\<lparr>wpc = WTotal i up n, alive = True\<rparr>"])
    (use atD [OF a] at_slot(1) [OF I a] at_slot(2-4) [OF I a, of i] in \<open>auto simp: add_total_def\<close>)

lemma inv_release:
  assumes I: "sharing_inv s" and a: "at s p (WRun i)"
  shows "sharing_inv (goto p (if slot_pid (slot s i) = p then WFree i 0 else WDone) s)"
  by (rule inv_goto [OF I atD [OF a]]) (use at_slot(2) [OF I a, of i] in auto)

text \<open>The handler's look at a slot.\<close>

lemma reaper_scan:
  assumes I: "sharing_inv s" and r: "reaper s = RScan p i" and i: "i < FP_MAX_CLIENTS"
  shows "slot_pid (slot s i) \<noteq> p \<Longrightarrow> sharing_inv (s\<lparr>reaper := RScan p (Suc i)\<rparr>)"
    and "slot_pid (slot s i) = p \<Longrightarrow> sharing_inv (s\<lparr>reaper := RClear p i 0\<rparr>) \<and> active (slot s i) \<noteq> 0"
proof -
  obtain w where w: "workers s p = Some w" "\<not> alive w" using invD(6) [OF I] r by auto
  then have p: "1 < p" using invD(4) [OF I] by (auto simp: worker_inv_def)
  show "slot_pid (slot s i) \<noteq> p \<Longrightarrow> sharing_inv (s\<lparr>reaper := RScan p (Suc i)\<rparr>)"
    using invD(6) [OF I] r by (intro inv_reaper [OF I]) (auto simp: less_Suc_eq)
  assume e: "slot_pid (slot s i) = p"
  then have "holds (wpc w) i" "active (slot s i) \<noteq> 0"
    using invD(3) [OF I i] w p by (auto simp: slot_inv_def)
  then show "sharing_inv (s\<lparr>reaper := RClear p i 0\<rparr>) \<and> active (slot s i) \<noteq> 0"
    using invD(6) [OF I] r i w by (auto intro!: inv_reaper [OF I])
qed

lemma sharing_inv_step:
  assumes "step s s'" and I: "sharing_inv s"
  shows "sharing_inv s'"
  using assms(1)
proof cases
  case (scan_skip p i)
  show ?thesis unfolding scan_skip(1) by (intro inv_goto [OF I atD [OF scan_skip(2)]]) auto
next
  case (scan_end p i)
  show ?thesis unfolding scan_end(1) by (intro inv_goto [OF I atD [OF scan_end(2)]]) auto
next
  case (release_none p)
  show ?thesis unfolding release_none(1) by (intro inv_goto [OF I atD [OF release_none(2)]]) auto
next
  case (reap_skip p i)
  show ?thesis using reaper_scan [OF I reap_skip(2,4)] reap_skip(1,5) by auto
next
  case (reap_found p i)
  show ?thesis using reaper_scan(2) [OF I reap_found(2,4)] reap_found(1,6) by simp
next
  case (reap p w)
  then show ?thesis unfolding reap(1) by (intro inv_reaper [OF I]) simp
qed (simp_all add: I inv_fork inv_swap inv_fill inv_count inv_total inv_release inv_free inv_killed
    inv_reap_clear inv_reap_freed inv_reap_done)

lemma sharing_inv_start: "sharing_inv (start ms)"
  by (simp add: sharing_inv_def start_def zero_map_def slot_inv_def exclusive_def zero_conn_def)

lemma reachable_inv: "reachable s \<Longrightarrow> sharing_inv s"
  by (induction rule: reachable.induct) (auto intro: sharing_inv_start sharing_inv_step)

section \<open>The totals\<close>

text \<open>What all the live workers together have yet to add.\<close>

definition owed :: "bool \<Rightarrow> worker option \<Rightarrow> nat" where
  "owed up x = (case x of None \<Rightarrow> 0 | Some w \<Rightarrow> if alive w then due up (wpc w) else 0)"

definition pending :: "(int \<Rightarrow> worker option) \<Rightarrow> bool \<Rightarrow> nat" where
  "pending ws up = (\<Sum>p \<in> dom ws. owed up (ws p))"

definition total_of :: "bool \<Rightarrow> fp_stats_map \<Rightarrow> u64" where
  "total_of up m = (if up then total_up m else total_down m)"

definition counts :: "shared \<Rightarrow> bool" where
  "counts s \<longleftrightarrow> finite (dom (workers s))
     \<and> (\<forall>up. total_of up (smap s) + word_of_nat (pending (workers s) up) + word_of_nat (missed s up)
          = word_of_nat (counted s up))"

lemma owed_simps [simp]:
  "owed up None = 0" "owed up (Some \<lparr>wpc = pc, alive = True\<rparr>) = due up pc" "\<not> alive w \<Longrightarrow> owed up (Some w) = 0"
  by (simp_all add: owed_def)




lemma counts_same:
  "counts s \<Longrightarrow> workers s' = workers s \<Longrightarrow> total_of True (smap s') = total_of True (smap s)
    \<Longrightarrow> total_of False (smap s') = total_of False (smap s) \<Longrightarrow> missed s' = missed s \<Longrightarrow> counted s' = counted s \<Longrightarrow> counts s'"
  unfolding counts_def by (metis (full_types))

lemma total_of_write [simp]: "total_of up (smap (write_slot i f s)) = total_of up (smap s)"
  by (simp add: write_slot_def update_slot_def total_of_def)


lemma add_total_sel [simp]:
  "workers (add_total up n s) = workers s" "missed (add_total up n s) = missed s" "counted (add_total up n s) = counted s"
  by (simp_all add: add_total_def)

text \<open>Steps that touch neither side of the balance.\<close>

lemma counts_write [simp]: "counts s \<Longrightarrow> counts (write_slot i f s)"
  by (erule counts_same) simp_all

lemma counts_reaper [simp]: "counts s \<Longrightarrow> counts (s\<lparr>reaper := r\<rparr>)"
  by (erule counts_same) simp_all




section \<open>The sequential operations are runs of steps\<close>

abbreviation steps :: "shared \<Rightarrow> shared \<Rightarrow> bool" where
  "steps \<equiv> step\<^sup>*\<^sup>*"

lemma reachable_steps: "steps s s' \<Longrightarrow> reachable s \<Longrightarrow> reachable s'"
  by (induction rule: rtranclp_induct) (auto intro: more)

lemma at_goto [simp]: "at (goto p pc s) q pc' \<longleftrightarrow> (if q = p then pc' = pc else at s q pc')"
  by (auto simp: at_def)

lemma write_slot_write: "i < length (slots (smap s)) \<Longrightarrow>
  write_slot i g (write_slot i f s) = write_slot i (\<lambda>c. g (f c)) s"
  by (simp add: write_slot_def update_slot_def)

lemma goto_goto [simp]: "goto p pc (goto p pc' s) = goto p pc s"
  by (simp add: goto_def)

lemma write_slot_goto [simp]: "write_slot i f (goto p pc s) = goto p pc (write_slot i f s)"
  by (simp add: write_slot_def goto_def)

text \<open>The remaining stores of a claim, from the \<open>k\<close>-th on.\<close>

lemma fill_steps:
  assumes "k < 6" and "at s p (WFill i k)" and i: "i < length (slots (smap s))"
  shows "steps s (goto p (WRun i) (write_slot i (fold (claim_field addr port p now) [k..<6]) s))"
  using assms
proof (induction "5 - k" arbitrary: k s)
  case 0
  then have "k = 5" by simp
  with step.fill [OF 0(3), of addr port now] show ?case by auto
next
  case (Suc n)
  let ?s = "goto p (WFill i (Suc k)) (write_slot i (claim_field addr port p now k) s)"
  have k: "k < 6" "k \<noteq> 5" "n = 5 - Suc k" "Suc k < 6" using Suc(2) by auto
  have "step s ?s" using step.fill [OF Suc(4) k(1), of addr port now] k by simp
  moreover have "steps ?s (goto p (WRun i) (write_slot i (fold (claim_field addr port p now) [Suc k..<6]) ?s))"
    using Suc.hyps(1) [OF k(3,4), of ?s] Suc(5) by simp
  moreover have "goto p (WRun i) (write_slot i (fold (claim_field addr port p now) [Suc k..<6]) ?s)
      = goto p (WRun i) (write_slot i (fold (claim_field addr port p now) [k..<6]) s)"
    using Suc(5) k by (simp add: write_slot_write upt_conv_Cons comp_def)
  ultimately show ?case by (simp add: converse_rtranclp_into_rtranclp)
qed

text \<open>\<open>fp_stats_claim\<close>, run without interruption, is a sequence of steps with its result.\<close>

lemma claim_loop_steps:
  assumes "claim_loop addr port p now index (smap s) = (r, m')" and "at s p (WScan index)"
    and "length (slots (smap s)) = FP_MAX_CLIENTS"
  shows "\<exists>s'. steps s s' \<and> smap s' = m' \<and> at s' p (if r = -1 then WNone else WRun (nat r))"
  using assms
proof (induction "FP_MAX_CLIENTS - index" arbitrary: index s rule: less_induct)
  case (less index s)
  let ?in = "index < unat (slot_count (smap s)) \<and> index < FP_MAX_CLIENTS"
  consider "?in" "active (slot s index) = 0" | "?in" "active (slot s index) \<noteq> 0" | "\<not> ?in" by blast
  then show ?case
  proof cases
    case 1
    let ?w = "write_slot index (\<lambda>c. c\<lparr>active := 1\<rparr>) s"
    have "step s (goto p (WFill index 0) ?w)" using step.swap [OF less.prems(2)] 1 by simp
    moreover have "steps (goto p (WFill index 0) ?w)
        (goto p (WRun index) (write_slot index (fold (claim_field addr port p now) [0..<6]) ?w))"
      using fill_steps [of 0 "goto p (WFill index 0) ?w" p index addr port now] 1 less.prems(3) by simp
    moreover have "smap (write_slot index (fold (claim_field addr port p now) [0..<6]) ?w)
        = update_slot index (claim_slot addr port p now) (smap s)"
      using 1 less.prems(3) by (simp add: write_slot_write claim_slot_def [abs_def] write_slot_def del: upt_rec_numeral)
    moreover have "r = int index" "m' = update_slot index (claim_slot addr port p now) (smap s)"
      using less.prems(1) 1 by (subst (asm) claim_loop.simps, simp)+
    ultimately show ?thesis
      by (intro exI [of _ "goto p (WRun index) (write_slot index (fold (claim_field addr port p now) [0..<6]) ?w)"])
        (auto intro: converse_rtranclp_into_rtranclp)
  next
    case 2
    have "step s (goto p (WScan (Suc index)) s)" using step.scan_skip [OF less.prems(2)] 2 by simp
    moreover have "claim_loop addr port p now (Suc index) (smap s) = (r, m')"
      using less.prems(1) 2 by (subst (asm) claim_loop.simps) simp
    moreover have "FP_MAX_CLIENTS - Suc index < FP_MAX_CLIENTS - index" using 2 by (intro diff_less_mono2) auto
    ultimately show ?thesis
      using less.hyps [of "Suc index" "goto p (WScan (Suc index)) s"] 2 less.prems(3)
      by (auto intro: converse_rtranclp_into_rtranclp)
  next
    case 3
    then have "step s (goto p WNone s)" using step.scan_end [OF less.prems(2)] by simp
    moreover have "r = -1" "m' = smap s"
      using less.prems(1) 3 by (subst (asm) claim_loop.simps, auto)+
    ultimately show ?thesis by (intro exI [of _ "goto p WNone s"]) auto
  qed
qed

section \<open>Properties\<close>

text \<open>A worker that finds slot \<open>i\<close> free gets it, and the other slots and workers stay.\<close>

lemma take_slot:
  assumes "reachable s" "at s p (WScan i)" "active (slot s i) = 0" "i < FP_MAX_CLIENTS"
  shows "\<exists>s'. reachable s' \<and> at s' p (WRun i) \<and> (\<forall>q. q \<noteq> p \<longrightarrow> workers s' q = workers s q)
      \<and> (\<forall>j. j \<noteq> i \<longrightarrow> slot s' j = slot s j)"
proof -
  note D = invD(1,2) [OF reachable_inv [OF assms(1)]]
  define w where "w = goto p (WFill i 0) (write_slot i (\<lambda>c. c\<lparr>active := 1\<rparr>) s)"
  define f where "f = fold (claim_field 0 0 p 0) [0..<6]"
  have "step s w" unfolding w_def using step.swap [OF assms(2)] assms D by simp
  then have "reachable w" by (rule more [OF assms(1)])
  moreover have "at w p (WFill i 0)" "i < length (slots (smap w))" using assms(4) D by (auto simp: w_def)
  then have "steps w (goto p (WRun i) (write_slot i f w))" unfolding f_def by (intro fill_steps) auto
  ultimately have "reachable (goto p (WRun i) (write_slot i f w))" by (rule reachable_steps [rotated])
  then show ?thesis
    by (intro exI [of _ "goto p (WRun i) (write_slot i f w)"]) (simp add: w_def nth_list_update')
qed

lemma example_run: "\<exists>s. reachable s \<and> at s 7 (WRun 0) \<and> at s 8 (WRun 1)"
proof -
  have r: "reachable (goto 7 (WScan 0) (start 0))"
    by (intro more [OF init step.fork]) (auto simp: start_def)
  note l = take_slot
  have free0: "slot (goto 7 (WScan 0) (start 0)) j = zero_conn" if "j < FP_MAX_CLIENTS" for j
    using that by (simp add: start_def zero_map_def)
  obtain s1 where s1: "reachable s1" "at s1 7 (WRun 0)"
    "\<forall>q. q \<noteq> 7 \<longrightarrow> workers s1 q = workers (goto 7 (WScan 0) (start 0)) q"
    "\<forall>j. j \<noteq> 0 \<longrightarrow> slot s1 j = slot (goto 7 (WScan 0) (start 0)) j"
    using l [OF r, of 7 0] free0 [of 0] by (auto simp: FP_MAX_CLIENTS_def)
  have n: "workers s1 8 = None" using s1(3) by (simp add: start_def)
  note D1 = invD [OF reachable_inv [OF s1(1)]]
  have a0: "active (slot s1 0) \<noteq> 0"
    using held_pid(3) [OF reachable_inv [OF s1(1)] atD [OF s1(2)]] by simp
  have r2: "reachable (goto 8 (WScan 0) s1)" by (intro more [OF s1(1) step.fork]) (auto simp: n)
  have "step (goto 8 (WScan 0) s1) (goto 8 (WScan 1) (goto 8 (WScan 0) s1))"
    using step.scan_skip [of "goto 8 (WScan 0) s1" 8 0] a0 D1(2) by (simp add: FP_MAX_CLIENTS_def)
  then have r3: "reachable (goto 8 (WScan 1) s1)" using more [OF r2] by simp
  have "active (slot (goto 8 (WScan 1) s1) 1) = 0"
    using s1(4) free0 [of 1] by (simp add: FP_MAX_CLIENTS_def)
  with l [OF r3, of 8 1] obtain s2 where "reachable s2" "at s2 8 (WRun 1)"
    "workers s2 7 = workers s1 7"
    by (auto simp: FP_MAX_CLIENTS_def)
  with s1(2) show ?thesis by (auto simp: at_def)
qed

text \<open>
  C19: However the stores of all the processes interleave and wherever a worker is killed, no two
  workers hold the same slot, and the slot a live worker relays with carries that worker's id: the
  guard of its additions and of its release holds, so neither is ever dropped.
\<close>

theorem stats_slots_exclusive:
  assumes "reachable s" and "workers s p = Some w" and "holds (wpc w) i"
  shows "(\<forall>q v. workers s q = Some v \<and> holds (wpc v) i \<longrightarrow> q = p)
    \<and> (alive w \<and> wpc w = WRun i \<longrightarrow> slot_guard s p i)"
proof -
  note I = reachable_inv [OF assms(1)]
  note H = held_pid [OF I assms(2,3)]
  have "slot_pid (slot s i) = p" if "alive w" "wpc w = WRun i"
    using invD(4) [OF I assms(2)] that by (simp add: worker_inv_def)
  with H invD(2) [OF I] show ?thesis by (auto simp: slot_guard_def)
qed

theorem stats_slots_exclusive_witness:
  "\<exists>s. reachable s \<and> at s 7 (WRun 0) \<and> at s 8 (WRun 1) \<and> slot_guard s 7 0 \<and> slot_guard s 8 1"
proof -
  obtain s where s: "reachable s" "at s 7 (WRun 0)" "at s 8 (WRun 1)" using example_run by blast
  from stats_slots_exclusive [OF s(1) atD [OF s(2)], of 0] stats_slots_exclusive [OF s(1) atD [OF s(3)], of 1] s
  show ?thesis by auto
qed




text \<open>
  C24: The operation \<open>fp_stats_claim\<close> of the sequential model is what a worker does when nobody
  interrupts it: from a reachable state the worker's own steps lead to exactly the map and the
  slot number that the operation returns.
\<close>

theorem stats_claim_refines:
  assumes "reachable s" and "at s p (WScan 0)"
    and "fp_stats_claim p now (Some (addr, port)) (Some (smap s)) = (r, Some m)"
  shows "\<exists>s'. steps s s' \<and> smap s' = m \<and> at s' p (if r = -1 then WNone else WRun (nat r))"
proof -
  have "claim_loop addr port p now 0 (smap s) = (r, m)"
    using assms(3) by (auto simp: fp_stats_claim_def split: prod.splits)
  then show ?thesis
    using claim_loop_steps [OF _ assms(2)] invD(1) [OF reachable_inv [OF assms(1)]] by blast
qed

lemma reachable_fork: "reachable (goto 7 (WScan 0) (start 0))"
  by (intro more [OF init step.fork]) (auto simp: start_def)

lemma first_claim: "\<exists>m. fp_stats_claim 7 0 (Some (1, 443)) (Some (smap (start 0))) = (0, Some m)"
  by (simp add: fp_stats_claim_def claim_loop.simps [of _ _ _ _ 0] start_def zero_map_def
      FP_MAX_CLIENTS_def)

theorem stats_claim_refines_witness:
  "\<exists>s'. steps (goto 7 (WScan 0) (start 0)) s' \<and> at s' 7 (WRun 0)"
proof -
  obtain m where "fp_stats_claim 7 0 (Some (1, 443)) (Some (smap (goto 7 (WScan 0) (start 0)))) = (0, Some m)"
    using first_claim by auto
  from stats_claim_refines [OF reachable_fork _ this] show ?thesis by auto
qed

text \<open>
  A lost slot: taken, without a process id, held by no live worker, not being cleared.
\<close>

definition lost :: "shared \<Rightarrow> nat \<Rightarrow> bool" where
  "lost s i \<longleftrightarrow> i < FP_MAX_CLIENTS \<and> active (slot s i) \<noteq> 0 \<and> slot_pid (slot s i) = 0
     \<and> (\<forall>p w. workers s p = Some w \<longrightarrow> alive w \<longrightarrow> \<not> holds (wpc w) i)
     \<and> (\<forall>p k. reaper s \<noteq> RClear p i k)"

lemma lost_goto:
  assumes "lost s i" "\<not> holds pc i"
  shows "lost (goto p pc s) i"
  using assms unfolding lost_def by auto

lemma lost_write:
  assumes "lost s i" "j \<noteq> i"
  shows "lost (write_slot j f s) i"
  using assms unfolding lost_def by simp

lemma lost_held: "lost s i \<Longrightarrow> at s p pc \<Longrightarrow> \<not> holds pc i"
  unfolding lost_def by (fastforce dest: atD)

lemma lost_step:
  assumes "step s s'" and l: "lost s i" and "reachable s"
  shows "lost s' i"
  using assms(1)
proof cases
  case (swap p j)
  have "j \<noteq> i" using l swap(5) by (auto simp: lost_def)
  then show ?thesis unfolding swap(1) by (intro lost_goto lost_write l) auto
next
  case (fill p j k addr port now)
  have "j \<noteq> i" using lost_held [OF l fill(2)] by simp
  then show ?thesis unfolding fill(1) by (intro lost_goto lost_write l) auto
next
  case (count p j n up)
  have "j \<noteq> i" using lost_held [OF l count(2)] by simp
  then have "lost (goto p (WTotal j up n) (write_slot j (bump up n) s)) i" by (intro lost_goto lost_write l) auto
  then show ?thesis unfolding count(1) by (simp add: lost_def)
next
  case (total p j up n)
  have "lost (add_total up n s) i" using l by (simp add: lost_def add_total_def)
  then show ?thesis unfolding total(1) using lost_held [OF l total(2)] by (intro lost_goto) auto
next
  case (release p j)
  then show ?thesis using lost_held [OF l release(2)] by (auto intro: lost_goto [OF l])
next
  case (free p j k)
  have "j \<noteq> i" using lost_held [OF l free(2)] by simp
  then show ?thesis unfolding free(1) by (intro lost_goto lost_write l) auto
next
  case (killed p w)
  then show ?thesis using l by (auto simp: lost_def)
next
  case (reap_found p j)
  have "1 < p"
    using invD(4,6) [OF reachable_inv [OF assms(3)]] reap_found(2) by (auto simp: worker_inv_def)
  then have "j \<noteq> i" using l reap_found(6) by (auto simp: lost_def)
  then show ?thesis using l unfolding reap_found(1) lost_def by simp
next
  case (reap_clear p j k)
  have "j \<noteq> i" using l reap_clear(2) by (auto simp: lost_def)
  then show ?thesis using l unfolding reap_clear(1) lost_def by simp
next
  case (reap_freed p j)
  have "j \<noteq> i" using l reap_freed(2) by (auto simp: lost_def)
  then show ?thesis using l unfolding reap_freed(1) lost_def by auto
qed (use l lost_goto [OF l] in \<open>auto simp: lost_def\<close>)

text \<open>
  C25: A slot whose worker dies after the compare-and-swap and before it has stored its process id
  (or after it erased the id while releasing) is never freed again: no worker and no handler can
  tell whose it is.
\<close>

theorem stats_lost_forever:
  assumes "reachable s" and "lost s i" and "steps s s'"
  shows "active (slot s' i) \<noteq> 0"
proof -
  from assms(3) have "reachable s' \<and> lost s' i"
    by (induction rule: rtranclp_induct) (use assms in \<open>auto intro: more lost_step\<close>)
  then show ?thesis by (simp add: lost_def)
qed

lemma lost_reachable: "\<exists>s. reachable s \<and> lost s 0"
proof -
  let ?s = "goto 7 (WScan 0) (start 0)"
  let ?w = "goto 7 (WFill 0 0) (write_slot 0 (\<lambda>c. c\<lparr>active := 1\<rparr>) ?s)"
  let ?k = "kill_worker 7 \<lparr>wpc = WFill 0 0, alive = True\<rparr> ?w"
  have "step ?s ?w"
    by (rule step.swap) (simp_all add: start_def zero_map_def FP_MAX_CLIENTS_def)
  then have "reachable ?w" by (rule more [OF reachable_fork])
  then have "reachable ?k" by (rule more) (rule step.killed, simp)
  moreover have "lost ?k 0"
    by (simp add: lost_def start_def zero_map_def zero_conn_def FP_MAX_CLIENTS_def write_slot_def goto_def
        update_slot_def)
  ultimately show ?thesis by blast
qed

theorem stats_lost_forever_witness:
  "\<exists>s. reachable s \<and> lost s 0 \<and> (\<forall>s'. steps s s' \<longrightarrow> active (slot s' 0) \<noteq> 0)"
  using lost_reachable stats_lost_forever by blast

end
