(* ===== verification/Accept.thy ===== *)
theory Accept
  imports Stats
begin

text \<open>
  The daemon's accept loop (\<open>fp_proxy_run\<close>, from \<open>while (keep_running)\<close> on) and its \<open>SIGCHLD\<close>
  handler \<open>reap_clients\<close>, which shares the counter \<open>active_clients\<close> with it. The loop's steps,
  the ends of workers and the runs of the handler interleave; the handler runs only while the
  signal is not blocked, and can run between any two steps of the loop otherwise. The increment
  is a load and a store.
\<close>

section \<open>The loop and the handler\<close>

text \<open>
  \<open>Polling\<close>: at the head of the loop. \<open>Accepted\<close>: has a client, before the limit check.
  \<open>Masked\<close>: \<open>SIGCHLD\<close> blocked, about to fork. \<open>Forked\<close>, \<open>Loaded v\<close>: in the increment.
  \<open>Unmasking\<close>: about to restore the mask. \<open>Returned r\<close>: the loop has ended with result \<open>r\<close>.
\<close>

datatype accept_pc = Polling | Accepted | Masked | Forked | Loaded int | Unmasking | Returned int

record daemon =
  pc :: accept_pc
  active_clients :: int
  live :: "int set"
  zombies :: "int set"
  sigchld_blocked :: bool
  keep_running :: bool

text \<open>One iteration of the handler's loop: \<open>waitpid\<close> has returned a child.\<close>

definition reap_client :: "int \<Rightarrow> daemon \<Rightarrow> daemon" where
  "reap_client p d = d\<lparr>zombies := zombies d - {p},
     active_clients := (if active_clients d > 0 then active_clients d - 1 else active_clients d)\<rparr>"

inductive dstep :: "daemon \<Rightarrow> daemon \<Rightarrow> bool" where
  leave: "pc d = Polling \<Longrightarrow> \<not> keep_running d \<Longrightarrow> dstep d (d\<lparr>pc := Returned ok\<rparr>)"
| poll_again: "pc d = Polling \<Longrightarrow> keep_running d \<Longrightarrow> dstep d d"
| poll_failed: "pc d = Polling \<Longrightarrow> keep_running d \<Longrightarrow> dstep d (d\<lparr>pc := Returned fail\<rparr>)"
| accepted: "pc d = Polling \<Longrightarrow> keep_running d \<Longrightarrow> dstep d (d\<lparr>pc := Accepted\<rparr>)"
| refused: "pc d = Accepted \<Longrightarrow> active_clients d \<ge> int FP_MAX_CLIENTS \<Longrightarrow> dstep d (d\<lparr>pc := Polling\<rparr>)"
| mask_failed: "pc d = Accepted \<Longrightarrow> active_clients d < int FP_MAX_CLIENTS \<Longrightarrow> dstep d (d\<lparr>pc := Polling\<rparr>)"
| mask: "pc d = Accepted \<Longrightarrow> active_clients d < int FP_MAX_CLIENTS
    \<Longrightarrow> dstep d (d\<lparr>pc := Masked, sigchld_blocked := True\<rparr>)"
| fork_failed: "pc d = Masked \<Longrightarrow> dstep d (d\<lparr>pc := Unmasking\<rparr>)"
| forked: "pc d = Masked \<Longrightarrow> 1 < p \<Longrightarrow> p \<notin> live d \<union> zombies d
    \<Longrightarrow> dstep d (d\<lparr>pc := Forked, live := insert p (live d)\<rparr>)"
| load: "pc d = Forked \<Longrightarrow> dstep d (d\<lparr>pc := Loaded (active_clients d)\<rparr>)"
| store: "pc d = Loaded v \<Longrightarrow> dstep d (d\<lparr>pc := Unmasking, active_clients := v + 1\<rparr>)"
| unmask: "pc d = Unmasking \<Longrightarrow> dstep d (d\<lparr>pc := Polling, sigchld_blocked := False\<rparr>)"
| worker_ends: "p \<in> live d \<Longrightarrow> dstep d (d\<lparr>live := live d - {p}, zombies := insert p (zombies d)\<rparr>)"
| handler: "\<not> sigchld_blocked d \<Longrightarrow> p \<in> zombies d \<Longrightarrow> dstep d (reap_client p d)"
| sigterm: "dstep d (d\<lparr>keep_running := False\<rparr>)"

definition dstart :: daemon where
  "dstart = \<lparr>pc = Polling, active_clients = 0, live = {}, zombies = {}, sigchld_blocked = False,
     keep_running = True\<rparr>"

inductive dreach :: "daemon \<Rightarrow> bool" where
  dinit: "dreach dstart"
| dmore: "dreach d \<Longrightarrow> dstep d d' \<Longrightarrow> dreach d'"

section \<open>The invariant\<close>

definition children :: "daemon \<Rightarrow> nat" where
  "children d = card (live d) + card (zombies d)"

text \<open>The children that exist and are not counted yet: one, between the fork and the store.\<close>

definition uncounted :: "accept_pc \<Rightarrow> int" where
  "uncounted p = (case p of Forked \<Rightarrow> 1 | Loaded _ \<Rightarrow> 1 | _ \<Rightarrow> 0)"

definition dinv :: "daemon \<Rightarrow> bool" where
  "dinv d \<longleftrightarrow> finite (live d) \<and> finite (zombies d) \<and> live d \<inter> zombies d = {}
     \<and> int (children d) = active_clients d + uncounted (pc d)
     \<and> children d \<le> FP_MAX_CLIENTS
     \<and> (pc d = Masked \<longrightarrow> children d < FP_MAX_CLIENTS)
     \<and> (\<forall>v. pc d = Loaded v \<longrightarrow> v = active_clients d)
     \<and> (sigchld_blocked d \<longleftrightarrow> pc d \<in> {Masked, Forked, Unmasking} \<or> (\<exists>v. pc d = Loaded v))"

lemma children_end:
  assumes "finite (live d)" "finite (zombies d)" "live d \<inter> zombies d = {}" "p \<in> live d"
  shows "children (d\<lparr>live := live d - {p}, zombies := insert p (zombies d)\<rparr>) = children d"
proof -
  have "p \<notin> zombies d" "0 < card (live d)" using assms by (auto simp: card_gt_0_iff)
  with assms show ?thesis by (simp add: children_def)
qed

lemma reap_client_sel [simp]:
  "pc (reap_client p d) = pc d" "live (reap_client p d) = live d" "zombies (reap_client p d) = zombies d - {p}"
  "sigchld_blocked (reap_client p d) = sigchld_blocked d"
  "active_clients d > 0 \<Longrightarrow> active_clients (reap_client p d) = active_clients d - 1"
  by (simp_all add: reap_client_def)

lemma dinv_step:
  assumes "dstep d d'" and I: "dinv d"
  shows "dinv d'"
  using assms(1)
proof cases
  case (forked p)
  then have "children d' = Suc (children d)" using I by (auto simp: dinv_def children_def)
  with forked I show ?thesis by (auto simp: dinv_def uncounted_def)
next
  case (worker_ends p)
  then show ?thesis
    using I children_end [of d p] by (auto simp: dinv_def)
next
  case (handler p)
  have u: "uncounted (pc d) = 0" and z: "finite (zombies d)"
    using I handler(2) by (auto simp: dinv_def uncounted_def split: accept_pc.splits)
  then have "0 < card (zombies d)" using handler(3) by (auto simp: card_gt_0_iff)
  then have c: "children d = Suc (children d')"
    unfolding handler(1) using handler(3) z by (simp add: children_def)
  with u I have a: "active_clients d = int (Suc (children d'))" by (simp add: dinv_def)
  have l: "\<not> (\<exists>v. pc d = Loaded v)" "pc d \<noteq> Masked" using I handler(2) by (auto simp: dinv_def)
  have "active_clients d' = int (children d')" unfolding handler(1) using a handler(1) by simp
  moreover have "children d' \<le> FP_MAX_CLIENTS" using I c by (simp add: dinv_def)
  ultimately show ?thesis
    using I u l unfolding dinv_def handler(1) by auto
qed (use I in \<open>auto simp: dinv_def uncounted_def children_def\<close>)

lemma dreach_inv: "dreach d \<Longrightarrow> dinv d"
proof (induction rule: dreach.induct)
  case dinit
  then show ?case by (simp add: dinv_def dstart_def children_def uncounted_def)
next
  case (dmore d d')
  then show ?case using dinv_step by blast
qed

section \<open>Properties\<close>

text \<open>
  C21: Whenever \<open>SIGCHLD\<close> can be delivered, \<open>active_clients\<close> is exactly the number of workers that
  have not been waited for, never above 128; so a run of the handler always finds it positive and
  it never drifts, however workers end around the fork.
\<close>

theorem accept_counter_exact:
  assumes "dreach d"
  shows "(\<not> sigchld_blocked d \<longrightarrow> active_clients d = int (card (live d \<union> zombies d)))
    \<and> card (live d \<union> zombies d) \<le> FP_MAX_CLIENTS
    \<and> (\<not> sigchld_blocked d \<and> zombies d \<noteq> {} \<longrightarrow> active_clients d > 0)"
proof -
  note I = dreach_inv [OF assms]
  have c: "card (live d \<union> zombies d) = children d"
    using I by (auto simp: dinv_def children_def card_Un_disjoint)
  have "\<not> sigchld_blocked d \<longrightarrow> active_clients d = int (children d)"
    using I by (auto simp: dinv_def uncounted_def split: accept_pc.splits)
  moreover have "zombies d \<noteq> {} \<longrightarrow> 0 < children d"
    using I by (auto simp: dinv_def children_def card_gt_0_iff)
  ultimately show ?thesis using c I by (auto simp: dinv_def)
qed

lemma accept_run: "\<exists>d. dreach d \<and> zombies d = {9} \<and> \<not> sigchld_blocked d"
proof -
  let ?d1 = "dstart\<lparr>pc := Accepted\<rparr>"
  let ?d2 = "?d1\<lparr>pc := Masked, sigchld_blocked := True\<rparr>"
  let ?d3 = "?d2\<lparr>pc := Forked, live := insert 9 (live ?d2)\<rparr>"
  let ?d4 = "?d3\<lparr>live := live ?d3 - {9}, zombies := insert 9 (zombies ?d3)\<rparr>"
  let ?d5 = "?d4\<lparr>pc := Loaded (active_clients ?d4)\<rparr>"
  let ?d6 = "?d5\<lparr>pc := Unmasking, active_clients := active_clients ?d4 + 1\<rparr>"
  let ?d7 = "?d6\<lparr>pc := Polling, sigchld_blocked := False\<rparr>"
  have "dreach ?d1" by (rule dmore [OF dinit dstep.accepted]) (simp_all add: dstart_def)
  then have "dreach ?d2" by (rule dmore [OF _ dstep.mask]) (simp_all add: dstart_def FP_MAX_CLIENTS_def)
  then have "dreach ?d3" by (rule dmore [OF _ dstep.forked]) (simp_all add: dstart_def)
  then have "dreach ?d4" by (rule dmore [OF _ dstep.worker_ends]) simp
  then have "dreach ?d5" by (rule dmore [OF _ dstep.load]) simp
  then have "dreach ?d6" by (rule dmore [OF _ dstep.store]) simp
  then have "dreach ?d7" by (rule dmore [OF _ dstep.unmask]) simp
  then show ?thesis by (intro exI [of _ ?d7]) (simp add: dstart_def)
qed

theorem accept_counter_exact_witness: "\<exists>d. dreach d \<and> zombies d = {9} \<and> active_clients d > 0"
  using accept_run accept_counter_exact by blast

end
