(* ===== verification/Resolver.thy ===== *)
theory Resolver
  imports Prelude
begin

text \<open>
  Name resolution that can be cancelled (\<open>resolve_ipv4\<close> and \<open>resolver_main\<close> in
  \<open>src/test.c\<close>): a second thread runs \<open>getaddrinfo\<close> and shares a heap-allocated job with the
  waiting thread. Which of the two frees the job, and who owns the address list, is decided under
  the job's mutex by \<open>done\<close> and \<open>abandoned\<close>. The model interleaves the two threads step by step;
  its state keeps what is allocated.
\<close>

section \<open>The two threads\<close>

datatype thread = Waiter | Worker

text \<open>
  The waiting thread: before the lock, at the loop's condition, inside \<open>pthread_cond_timedwait\<close>,
  after the loop, and on the two ways out. A value kept in a local variable is an argument:
  \<open>wait_error\<close>, then the status and the list taken from the job.
\<close>

datatype 'a waiter_pc =
    W_Lock | W_Loop bool | W_Waiting | W_After | W_Abandoned | W_Detach
  | W_Taken int "'a option" | W_Join int "'a option" | W_Destroy int "'a option" | W_Finish int "'a option"
  | W_Return int "'a option"

text \<open>The resolver thread; the argument is what \<open>getaddrinfo\<close> gave.\<close>

datatype 'a worker_pc =
    R_Lookup | R_Lock int "'a option" | R_Decide int "'a option" | R_Abandoned "'a option"
  | R_Free "'a option" | R_Destroy | R_Unlock | R_End

record 'a job_state =
  owner :: "thread option"
  job_done :: bool
  abandoned :: bool
  job_status :: int
  job_result :: "'a option"
  job_alive :: bool
  job_frees :: nat
  list_alive :: bool
  list_frees :: nat
  waiter :: "'a waiter_pc"
  worker :: "'a worker_pc"

text \<open>After \<open>pthread_create\<close>: the job is initialised and both threads may run.\<close>

definition job_start :: "'a job_state" where
  "job_start = \<lparr>owner = None, job_done = False, abandoned = False, job_status = 0, job_result = None,
     job_alive = True, job_frees = 0, list_alive = False, list_frees = 0, waiter = W_Lock, worker = R_Lookup\<rparr>"

definition free_job :: "'a job_state \<Rightarrow> 'a job_state" where
  "free_job s = s\<lparr>job_alive := False, job_frees := Suc (job_frees s)\<rparr>"

definition free_list :: "'a option \<Rightarrow> 'a job_state \<Rightarrow> 'a job_state" where
  "free_list r s = (if r = None then s else s\<lparr>list_alive := False, list_frees := Suc (list_frees s)\<rparr>)"

text \<open>
  One step of one thread. A read of the cancel flag may give anything. \<open>pthread_cond_timedwait\<close>
  gives the mutex back while it waits and may return at any time, with or without an error.
  \<open>pthread_join\<close> returns when the resolver thread has ended.
\<close>

inductive job_step :: "'a job_state \<Rightarrow> 'a job_state \<Rightarrow> bool" where
  w_lock: "waiter s = W_Lock \<Longrightarrow> owner s = None \<Longrightarrow>
    job_step s (s\<lparr>owner := Some Waiter, waiter := W_Loop False\<rparr>)"
| w_leave: "waiter s = W_Loop wait_error \<Longrightarrow> job_done s \<or> cancelled \<or> wait_error \<Longrightarrow>
    job_step s (s\<lparr>waiter := W_After\<rparr>)"
| w_clock_fails: "waiter s = W_Loop False \<Longrightarrow> \<not> job_done s \<Longrightarrow>
    job_step s (s\<lparr>waiter := W_After\<rparr>)"
| w_wait: "waiter s = W_Loop False \<Longrightarrow> \<not> job_done s \<Longrightarrow>
    job_step s (s\<lparr>owner := None, waiter := W_Waiting\<rparr>)"
| w_wake: "waiter s = W_Waiting \<Longrightarrow> owner s = None \<Longrightarrow>
    job_step s (s\<lparr>owner := Some Waiter, waiter := W_Loop wait_error\<rparr>)"
| w_abandon: "waiter s = W_After \<Longrightarrow> \<not> job_done s \<Longrightarrow>
    job_step s (s\<lparr>abandoned := True, waiter := W_Abandoned\<rparr>)"
| w_abandon_unlock: "waiter s = W_Abandoned \<Longrightarrow>
    job_step s (s\<lparr>owner := None, waiter := W_Detach\<rparr>)"
| w_detach: "waiter s = W_Detach \<Longrightarrow>
    job_step s (s\<lparr>waiter := W_Return (if cancelled then -2 else -1) None\<rparr>)"
| w_take: "waiter s = W_After \<Longrightarrow> job_done s \<Longrightarrow>
    job_step s (s\<lparr>waiter := W_Taken (job_status s) (job_result s)\<rparr>)"
| w_take_unlock: "waiter s = W_Taken st r \<Longrightarrow>
    job_step s (s\<lparr>owner := None, waiter := W_Join st r\<rparr>)"
| w_join: "waiter s = W_Join st r \<Longrightarrow> worker s = R_End \<Longrightarrow>
    job_step s (s\<lparr>waiter := W_Destroy st r\<rparr>)"
| w_destroy: "waiter s = W_Destroy st r \<Longrightarrow>
    job_step s (free_job (s\<lparr>waiter := W_Finish st r\<rparr>))"
| w_finish_cancelled: "waiter s = W_Finish st r \<Longrightarrow>
    job_step s (free_list r (s\<lparr>waiter := W_Return (-2) None\<rparr>))"
| w_finish_failed: "waiter s = W_Finish st r \<Longrightarrow> st \<noteq> 0 \<Longrightarrow>
    job_step s (free_list r (s\<lparr>waiter := W_Return (-1) None\<rparr>))"
| w_finish_ok: "waiter s = W_Finish 0 r \<Longrightarrow>
    job_step s (s\<lparr>waiter := W_Return (if r = None then -1 else 0) r\<rparr>)"
| r_lookup: "worker s = R_Lookup \<Longrightarrow>
    job_step s (s\<lparr>list_alive := (r \<noteq> None), worker := R_Lock st r\<rparr>)"
| r_lock: "worker s = R_Lock st r \<Longrightarrow> owner s = None \<Longrightarrow>
    job_step s (s\<lparr>owner := Some Worker, worker := R_Decide st r\<rparr>)"
| r_abandoned: "worker s = R_Decide st r \<Longrightarrow> abandoned s \<Longrightarrow>
    job_step s (s\<lparr>worker := R_Abandoned r\<rparr>)"
| r_abandoned_unlock: "worker s = R_Abandoned r \<Longrightarrow>
    job_step s (s\<lparr>owner := None, worker := R_Free r\<rparr>)"
| r_free: "worker s = R_Free r \<Longrightarrow>
    job_step s (free_list r (s\<lparr>worker := R_Destroy\<rparr>))"
| r_destroy: "worker s = R_Destroy \<Longrightarrow>
    job_step s (free_job (s\<lparr>worker := R_End\<rparr>))"
| r_publish: "worker s = R_Decide st r \<Longrightarrow> \<not> abandoned s \<Longrightarrow>
    job_step s (s\<lparr>job_result := r, job_status := st, job_done := True, worker := R_Unlock\<rparr>)"
| r_unlock: "worker s = R_Unlock \<Longrightarrow>
    job_step s (s\<lparr>owner := None, worker := R_End\<rparr>)"

inductive job_reach :: "'a job_state \<Rightarrow> bool" where
  start: "job_reach job_start"
| step: "job_reach s \<Longrightarrow> job_step s s' \<Longrightarrow> job_reach s'"

text \<open>Which of a thread's next steps touch the job.\<close>

fun waiter_uses_job :: "'a waiter_pc \<Rightarrow> bool" where
  "waiter_uses_job (W_Detach) = False"
| "waiter_uses_job (W_Join _ _) = False"
| "waiter_uses_job (W_Finish _ _) = False"
| "waiter_uses_job (W_Return _ _) = False"
| "waiter_uses_job _ = True"

fun worker_uses_job :: "'a worker_pc \<Rightarrow> bool" where
  "worker_uses_job (R_Free _) = False"
| "worker_uses_job R_End = False"
| "worker_uses_job _ = True"

text \<open>The list a thread holds in a local variable and is to free or pass on.\<close>

fun waiter_list :: "'a waiter_pc \<Rightarrow> 'a option" where
  "waiter_list (W_Taken _ r) = r"
| "waiter_list (W_Join _ r) = r"
| "waiter_list (W_Destroy _ r) = r"
| "waiter_list (W_Finish _ r) = r"
| "waiter_list (W_Return _ r) = r"
| "waiter_list _ = None"

fun worker_list :: "'a worker_pc \<Rightarrow> 'a option" where
  "worker_list (R_Lock _ r) = r"
| "worker_list (R_Decide _ r) = r"
| "worker_list (R_Abandoned r) = r"
| "worker_list (R_Free r) = r"
| "worker_list _ = None"

section \<open>Who holds what\<close>

fun waiter_locks :: "'a waiter_pc \<Rightarrow> bool" where
  "waiter_locks (W_Loop _) = True"
| "waiter_locks W_After = True"
| "waiter_locks W_Abandoned = True"
| "waiter_locks (W_Taken _ _) = True"
| "waiter_locks _ = False"

fun worker_locks :: "'a worker_pc \<Rightarrow> bool" where
  "worker_locks (R_Decide _ _) = True"
| "worker_locks (R_Abandoned _) = True"
| "worker_locks R_Unlock = True"
| "worker_locks _ = False"

text \<open>The way on which the waiter is: it gave the job up, it has taken the answer, or neither yet.\<close>

fun gave_up :: "'a waiter_pc \<Rightarrow> bool" where
  "gave_up W_Abandoned = True"
| "gave_up W_Detach = True"
| "gave_up _ = False"

fun took :: "'a waiter_pc \<Rightarrow> bool" where
  "took (W_Taken _ _) = True"
| "took (W_Join _ _) = True"
| "took (W_Destroy _ _) = True"
| "took (W_Finish _ _) = True"
| "took _ = False"

fun joined :: "'a waiter_pc \<Rightarrow> bool" where
  "joined (W_Destroy _ _) = True"
| "joined (W_Finish _ _) = True"
| "joined _ = False"

fun returned :: "'a waiter_pc \<Rightarrow> bool" where
  "returned (W_Return _ _) = True"
| "returned _ = False"

fun freed_by_waiter :: "'a waiter_pc \<Rightarrow> bool" where
  "freed_by_waiter (W_Finish _ _) = True"
| "freed_by_waiter (W_Return _ _) = True"
| "freed_by_waiter _ = False"

fun on_abandoned_way :: "'a worker_pc \<Rightarrow> bool" where
  "on_abandoned_way (R_Abandoned _) = True"
| "on_abandoned_way (R_Free _) = True"
| "on_abandoned_way R_Destroy = True"
| "on_abandoned_way _ = False"

definition before_lock :: "'a worker_pc \<Rightarrow> bool" where
  "before_lock pc \<longleftrightarrow> \<not> worker_locks pc \<and> \<not> on_abandoned_way pc \<and> pc \<noteq> R_End"

lemma waiter_users:
  "waiter_uses_job pc \<Longrightarrow> \<not> freed_by_waiter pc \<and> \<not> returned pc \<and> (gave_up pc \<longrightarrow> pc = W_Abandoned)"
  by (cases pc) auto

lemma freed_joined: "freed_by_waiter pc \<Longrightarrow> joined pc \<or> returned pc"
  by (cases pc) auto

text \<open>The list that is allocated, wherever its only reference is.\<close>

definition live_list :: "'a job_state \<Rightarrow> 'a option" where
  "live_list s =
     (if worker s = R_Unlock \<or> worker s = R_End \<and> \<not> abandoned s
      then (if took (waiter s) \<or> returned (waiter s) then waiter_list (waiter s) else job_result s)
      else worker_list (worker s))"

fun sound_return :: "'a waiter_pc \<Rightarrow> bool" where
  "sound_return (W_Return st r) = (st \<in> {0, -1, -2} \<and> (st = 0 \<longleftrightarrow> r \<noteq> None))"
| "sound_return _ = True"

definition job_inv :: "'a job_state \<Rightarrow> bool" where
  "job_inv s \<longleftrightarrow>
     (owner s = Some Waiter \<longleftrightarrow> waiter_locks (waiter s))
   \<and> (owner s = Some Worker \<longleftrightarrow> worker_locks (worker s))
   \<and> (job_done s \<longleftrightarrow> worker s = R_Unlock \<or> worker s = R_End \<and> \<not> abandoned s)
   \<and> (abandoned s \<longrightarrow> gave_up (waiter s) \<or> returned (waiter s))
   \<and> (gave_up (waiter s) \<longrightarrow> abandoned s)
   \<and> (on_abandoned_way (worker s) \<longrightarrow> abandoned s)
   \<and> (worker s = R_Unlock \<longrightarrow> \<not> abandoned s)
   \<and> (took (waiter s) \<longrightarrow> job_done s)
   \<and> (joined (waiter s) \<or> returned (waiter s) \<and> \<not> abandoned s \<longrightarrow> worker s = R_End)
   \<and> job_frees s = (if (if abandoned s then worker s = R_End else freed_by_waiter (waiter s)) then 1 else 0)
   \<and> (job_alive s \<longleftrightarrow> job_frees s = 0)
   \<and> (list_alive s \<longleftrightarrow> live_list s \<noteq> None)
   \<and> (list_alive s \<or> worker s = R_Lookup \<longrightarrow> list_frees s = 0) \<and> list_frees s \<le> 1
   \<and> (abandoned s \<and> returned (waiter s) \<longrightarrow> waiter_list (waiter s) = None)
   \<and> (waiter s = W_Abandoned \<longrightarrow> before_lock (worker s))
   \<and> sound_return (waiter s)"

lemma job_inv_start: "job_inv job_start"
  by (simp add: job_inv_def job_start_def live_list_def)

lemma job_inv_step: "job_step s s' \<Longrightarrow> job_inv s \<Longrightarrow> job_inv s'"
  by (cases rule: job_step.cases, assumption; cases "owner s")
    (auto simp: job_inv_def before_lock_def live_list_def free_job_def free_list_def split: if_splits)

lemma job_reach_inv: "job_reach s \<Longrightarrow> job_inv s"
  by (induction rule: job_reach.induct) (auto intro: job_inv_start job_inv_step)

section \<open>Properties\<close>

text \<open>
  C37: However the two threads interleave and whenever the test is cancelled, no thread touches the
  job after it has been freed, neither the job nor the address list is freed twice, and when both
  threads are done the job has been freed once and the list is allocated exactly if it was handed
  to the caller, which is the case exactly if 0 is returned.
\<close>

theorem resolver_frees_once:
  assumes "job_reach s"
  shows "(waiter_uses_job (waiter s) \<or> worker_uses_job (worker s) \<longrightarrow> job_alive s)
    \<and> job_frees s \<le> 1 \<and> list_frees s \<le> 1
    \<and> (\<forall>st r. waiter s = W_Return st r \<and> worker s = R_End \<longrightarrow>
         job_frees s = 1 \<and> \<not> job_alive s \<and> (list_alive s \<longleftrightarrow> r \<noteq> None) \<and> (st = 0 \<longleftrightarrow> r \<noteq> None) \<and> st \<in> {0, -1, -2})"
proof -
  have i: "job_inv s" by (rule job_reach_inv [OF assms])
  then have eq: "job_frees s = (if (if abandoned s then worker s = R_End else freed_by_waiter (waiter s)) then 1 else 0)"
      "job_alive s \<longleftrightarrow> job_frees s = 0"
    and ab: "abandoned s \<longrightarrow> gave_up (waiter s) \<or> returned (waiter s)"
    and bl: "waiter s = W_Abandoned \<longrightarrow> before_lock (worker s)"
    and je: "joined (waiter s) \<or> returned (waiter s) \<and> \<not> abandoned s \<longrightarrow> worker s = R_End"
    and li: "list_alive s \<longleftrightarrow> live_list s \<noteq> None" "list_frees s \<le> 1"
      "abandoned s \<and> returned (waiter s) \<longrightarrow> waiter_list (waiter s) = None" "sound_return (waiter s)"
    unfolding job_inv_def by blast+
  have fr: "job_alive s \<longleftrightarrow> \<not> (if abandoned s then worker s = R_End else freed_by_waiter (waiter s))"
    and le: "job_frees s \<le> 1" using eq by auto
  have "job_alive s" if "waiter_uses_job (waiter s)"
    using fr ab bl waiter_users [OF that] by (auto simp: before_lock_def split: if_splits)
  moreover have "job_alive s" if "worker_uses_job (worker s)"
    using fr je freed_joined [of "waiter s"] that by (auto split: if_splits)
  moreover have "job_frees s = 1 \<and> \<not> job_alive s \<and> (list_alive s \<longleftrightarrow> r \<noteq> None) \<and> (st = 0 \<longleftrightarrow> r \<noteq> None)
      \<and> st \<in> {0, -1, -2}" if "waiter s = W_Return st r" "worker s = R_End" for st r
    using eq li that by (cases "abandoned s") (auto simp: live_list_def)
  ultimately show ?thesis using le li(2) by blast
qed

text \<open>A run in which the answer arrives, and one in which the waiting thread is cancelled first.\<close>

lemma answered_run:
  "\<exists>s. job_reach s \<and> waiter s = W_Return 0 (Some x) \<and> worker s = R_End"
proof -
  let ?S = "\<lambda>ow dn jr al fr wt wk. \<lparr>owner = ow, job_done = dn, abandoned = False, job_status = 0, job_result = jr,
    job_alive = al, job_frees = fr, list_alive = True, list_frees = 0, waiter = wt, worker = wk\<rparr>"
  have 0: "job_reach (job_start :: 'a job_state)" by (rule job_reach.start)
  have 1: "job_reach (?S None False None True 0 W_Lock (R_Lock 0 (Some x)))"
    using job_reach.step [OF 0 job_step.r_lookup [where s = job_start and r = "Some x" and st = 0]] by (simp add: job_start_def free_job_def)
  have 2: "job_reach (?S (Some Worker) False None True 0 W_Lock (R_Decide 0 (Some x)))"
    using job_reach.step [OF 1 job_step.r_lock [of "?S None False None True 0 W_Lock (R_Lock 0 (Some x))" 0 "Some x"]] by (simp add: job_start_def free_job_def)
  have 3: "job_reach (?S (Some Worker) True (Some x) True 0 W_Lock R_Unlock)"
    using job_reach.step [OF 2 job_step.r_publish [of "?S (Some Worker) False None True 0 W_Lock (R_Decide 0 (Some x))" 0 "Some x"]] by (simp add: job_start_def free_job_def)
  have 4: "job_reach (?S None True (Some x) True 0 W_Lock R_End)"
    using job_reach.step [OF 3 job_step.r_unlock [of "?S (Some Worker) True (Some x) True 0 W_Lock R_Unlock"]] by (simp add: job_start_def free_job_def)
  have 5: "job_reach (?S (Some Waiter) True (Some x) True 0 (W_Loop False) R_End)"
    using job_reach.step [OF 4 job_step.w_lock [of "?S None True (Some x) True 0 W_Lock R_End"]] by (simp add: job_start_def free_job_def)
  have 6: "job_reach (?S (Some Waiter) True (Some x) True 0 W_After R_End)"
    using job_reach.step [OF 5 job_step.w_leave [of "?S (Some Waiter) True (Some x) True 0 (W_Loop False) R_End" False False]] by (simp add: job_start_def free_job_def)
  have 7: "job_reach (?S (Some Waiter) True (Some x) True 0 (W_Taken 0 (Some x)) R_End)"
    using job_reach.step [OF 6 job_step.w_take [of "?S (Some Waiter) True (Some x) True 0 W_After R_End"]] by (simp add: job_start_def free_job_def)
  have 8: "job_reach (?S None True (Some x) True 0 (W_Join 0 (Some x)) R_End)"
    using job_reach.step [OF 7 job_step.w_take_unlock [of "?S (Some Waiter) True (Some x) True 0 (W_Taken 0 (Some x)) R_End" 0 "Some x"]] by (simp add: job_start_def free_job_def)
  have 9: "job_reach (?S None True (Some x) True 0 (W_Destroy 0 (Some x)) R_End)"
    using job_reach.step [OF 8 job_step.w_join [of "?S None True (Some x) True 0 (W_Join 0 (Some x)) R_End" 0 "Some x"]] by (simp add: job_start_def free_job_def)
  have 10: "job_reach (?S None True (Some x) False 1 (W_Finish 0 (Some x)) R_End)"
    using job_reach.step [OF 9 job_step.w_destroy [of "?S None True (Some x) True 0 (W_Destroy 0 (Some x)) R_End" 0 "Some x"]] by (simp add: job_start_def free_job_def)
  have 11: "job_reach (?S None True (Some x) False 1 (W_Return 0 (Some x)) R_End)"
    using job_reach.step [OF 10 job_step.w_finish_ok [of "?S None True (Some x) False 1 (W_Finish 0 (Some x)) R_End" "Some x"]] by (simp add: job_start_def free_job_def)
  show ?thesis by (rule exI [of _ "?S None True (Some x) False 1 (W_Return 0 (Some x)) R_End"]) (use 11 in simp)
qed

theorem resolver_frees_once_witness:
  "\<exists>s :: nat job_state. job_reach s \<and> job_frees s = 1 \<and> list_alive s"
proof -
  obtain s :: "nat job_state" where s: "job_reach s" "waiter s = W_Return 0 (Some 7)" "worker s = R_End"
    using answered_run [of "7 :: nat"] by (elim exE conjE)
  have "job_frees s = 1 \<and> (list_alive s \<longleftrightarrow> Some (7 :: nat) \<noteq> None)"
    using resolver_frees_once [OF s(1)] s(2,3) by blast
  with s(1) show ?thesis by blast
qed

end
