(* ===== verification/Double.thy ===== *)
theory Double
  imports CLib Complex_Main
begin

text \<open>
  The program's \<open>double\<close> values and how \<open>printf\<close> shows them. A finite \<open>double\<close> is the rational it
  denotes; each arithmetic operation is the exact one followed by rounding to 53 binary digits,
  ties to even. All values the program computes are zero or far from the ends of the exponent range,
  so overflow and subnormal numbers do not arise.
\<close>

section \<open>Rounding\<close>

definition round_even :: "rat \<Rightarrow> int" where
  "round_even x =
     (let f = \<lfloor>x\<rfloor>; d = x - of_int f in
      if d < 1 / 2 \<or> d = 1 / 2 \<and> even f then f else f + 1)"

text \<open>The number of binary digits of a natural number.\<close>

fun binary_digits :: "nat \<Rightarrow> nat" where
  "binary_digits n = (if n = 0 then 0 else Suc (binary_digits (n div 2)))"

declare binary_digits.simps [simp del]

definition scale2 :: "int \<Rightarrow> rat \<Rightarrow> rat" where
  "scale2 e x = (if e \<ge> 0 then x * 2 ^ nat e else x / 2 ^ nat (- e))"

text \<open>The exponent of the last of the 53 digits of a positive number.\<close>

definition ulp_exponent :: "rat \<Rightarrow> int" where
  "ulp_exponent x =
     (case quotient_of x of (p, q) \<Rightarrow>
       (let e = int (binary_digits (nat p)) - int (binary_digits (nat q)) - 53 in
        if scale2 (- e) x \<ge> 2 ^ 53 then e + 1 else e))"

definition fl :: "rat \<Rightarrow> rat" where
  "fl x = (if x = 0 then 0
     else if x > 0 then scale2 (ulp_exponent x) (of_int (round_even (scale2 (- ulp_exponent x) x)))
     else - scale2 (ulp_exponent (- x)) (of_int (round_even (scale2 (- ulp_exponent (- x)) (- x)))))"

section \<open>Printing\<close>

text \<open>\<open>%.nf\<close> of a number that is not negative: the decimal nearest to it with \<open>n\<close> digits after the point.\<close>

definition pad0 :: "nat \<Rightarrow> string \<Rightarrow> string" where
  "pad0 n s = replicate (n - length s) CHR ''0'' @ s"

definition fixed :: "nat \<Rightarrow> rat \<Rightarrow> string" where
  "fixed n x =
     (let k = nat (round_even (x * 10 ^ n)) in
      dec (k div 10 ^ n) @ (if n = 0 then '''' else CHR ''.'' # pad0 n (dec (k mod 10 ^ n))))"

lemma scale2_powi: "scale2 e x = x * 2 powi e"
  by (simp add: scale2_def power_int_def power_one_over)

lemma binary_digits_bounds: "0 < n \<Longrightarrow> 2 ^ (binary_digits n - 1) \<le> n \<and> n < 2 ^ binary_digits n \<and> 0 < binary_digits n"
proof (induction n rule: binary_digits.induct)
  case (1 n)
  show ?case
  proof (cases "n = 1")
    case True
    then show ?thesis by (simp add: binary_digits.simps)
  next
    case False
    then have "0 < n div 2" using 1(2) by auto
    then have IH: "2 ^ (binary_digits (n div 2) - 1) \<le> n div 2" "n div 2 < 2 ^ binary_digits (n div 2)"
      "0 < binary_digits (n div 2)"
      using 1 by auto
    obtain k where k: "binary_digits (n div 2) = Suc k" using IH(3) gr0_implies_Suc by blast
    have n: "2 * (n div 2) \<le> n" "n < 2 * (n div 2) + 2" by auto
    have "2 * 2 ^ k \<le> n" "n < 4 * 2 ^ k" using IH(1,2) n by (auto simp: k)
    then show ?thesis using 1(2) unfolding binary_digits.simps[of n] by (simp add: k)
  qed
qed

lemma round_even_near: "\<bar>of_int (round_even x) - x\<bar> \<le> 1 / 2"
  unfolding round_even_def Let_def using floor_correct[of x] by (auto simp: abs_if; linarith)

lemma round_even_of_int [simp]: "round_even (of_int k) = k"
  by (simp add: round_even_def)

lemma round_even_le: "x \<le> of_int k \<Longrightarrow> round_even x \<le> k"
  using round_even_near[of x] by (cases "x = of_int k") (auto simp: round_even_def Let_def, linarith+)

lemma round_even_ge: "of_int k \<le> x \<Longrightarrow> k \<le> round_even x"
  unfolding round_even_def Let_def using le_floor_iff[of k x] by auto

lemma binary_digits_powi:
  assumes "0 < p" and a: "a = int (binary_digits (nat p))"
  shows "2 powi (a - 1) \<le> (of_int p :: rat)" and "(of_int p :: rat) < 2 powi a"
proof -
  have *: "2 ^ (binary_digits (nat p) - 1) \<le> nat p" "nat p < 2 ^ binary_digits (nat p)" "0 < binary_digits (nat p)"
    using binary_digits_bounds[of "nat p"] assms by auto
  have "(of_nat (2 ^ (binary_digits (nat p) - 1)) :: rat) \<le> of_nat (nat p)" using *(1) by (rule of_nat_mono)
  moreover have "a - 1 = int (binary_digits (nat p) - 1)" using *(3) by (simp add: a)
  ultimately show "2 powi (a - 1) \<le> (of_int p :: rat)" using assms(1) by simp
  have "(of_nat (nat p) :: rat) < of_nat (2 ^ binary_digits (nat p))" using *(2) by (simp only: of_nat_less_iff)
  then show "(of_int p :: rat) < 2 powi a" using assms(1) by (simp add: a)
qed

text \<open>A quotient lies between the powers that the digits of its two parts give.\<close>

lemma quotient_powi:
  assumes p: "2 powi (a - 1) \<le> (of_int p :: rat)" "(of_int p :: rat) < 2 powi a"
    and q: "2 powi (b - 1) \<le> (of_int q :: rat)" "(of_int q :: rat) < 2 powi b" and qpos: "(0 :: rat) < of_int q"
  shows "2 powi (a - 1 - b) < (of_int p / of_int q :: rat)" and "(of_int p / of_int q :: rat) < 2 powi (a - b + 1)"
proof -
  have "2 powi (a - 1 - b) * of_int q < (2 :: rat) powi (a - 1 - b) * 2 powi b" using q(2) by simp
  also have "\<dots> = (2 powi (a - 1) :: rat)" by (simp flip: power_int_add)
  also have "\<dots> \<le> of_int p" by (rule p(1))
  finally show "2 powi (a - 1 - b) < (of_int p / of_int q :: rat)" using qpos by (simp add: less_divide_eq)
  have "of_int p < (2 powi a :: rat)" by (rule p(2))
  also have "\<dots> = 2 powi (a - b + 1) * 2 powi (b - 1)" by (simp flip: power_int_add)
  also have "\<dots> \<le> 2 powi (a - b + 1) * of_int q" using q(1) by simp
  finally show "(of_int p / of_int q :: rat) < 2 powi (a - b + 1)" using qpos by (simp add: divide_less_eq)
qed

lemma scale2_bounds:
  assumes "0 < x"
  shows "2 ^ 52 \<le> scale2 (- ulp_exponent x) x" "scale2 (- ulp_exponent x) x < 2 ^ 53"
proof -
  obtain p q where pq: "quotient_of x = (p, q)" by fastforce
  have x: "x = of_int p / of_int q" by (rule quotient_of_div [OF pq])
  have q: "0 < q" by (rule quotient_of_denom_pos [OF pq])
  have p: "0 < p" using assms q by (simp add: x zero_less_divide_iff)
  define a b where "a = int (binary_digits (nat p))" and "b = int (binary_digits (nat q))"
  have lo: "2 powi (a - 1 - b) < x" and hi: "x < 2 powi (a - b + 1)"
    using quotient_powi [OF binary_digits_powi [OF p a_def] binary_digits_powi [OF q b_def]] q by (simp_all add: x)
  define e where "e = a - b - 53"
  have e: "ulp_exponent x = (if 2 ^ 53 \<le> scale2 (- e) x then e + 1 else e)"
    by (simp add: ulp_exponent_def pq a_def b_def e_def Let_def)
  have s: "scale2 (- e) x = x * 2 powi (- e)" "scale2 (- e - 1) x = scale2 (- e) x / 2"
    by (auto simp: scale2_powi power_int_diff)
  have "2 powi (a - 1 - b) * 2 powi (- e) < scale2 (- e) x" using lo by (simp add: s)
  then have l: "2 ^ 52 < scale2 (- e) x" by (simp add: e_def flip: power_int_add)
  have "scale2 (- e) x < 2 powi (a - b + 1) * 2 powi (- e)" using hi by (simp add: s)
  then have h: "scale2 (- e) x < 2 ^ 54" by (simp add: e_def flip: power_int_add)
  show "2 ^ 52 \<le> scale2 (- ulp_exponent x) x" "scale2 (- ulp_exponent x) x < 2 ^ 53"
    using l h s(2) by (auto simp: e)
qed

lemma fl_0 [simp]: "fl 0 = 0"
  by (simp add: fl_def)

lemma fl_nonneg: "0 \<le> x \<Longrightarrow> 0 \<le> fl x"
  using scale2_bounds(1)[of x] round_even_ge[of 0 "scale2 (- ulp_exponent x) x"]
  by (auto simp: fl_def scale2_powi)

text \<open>Numbers with at most 53 binary digits are represented exactly.\<close>

lemma fl_exact:
  assumes "m < 2 ^ 53"
  shows "fl (of_nat m / 2 ^ k) = of_nat m / 2 ^ k"
proof (cases "m = 0")
  case False
  define x where "x = (of_nat m / 2 ^ k :: rat)"
  have pos: "0 < x" using False by (simp add: x_def)
  define e where "e = ulp_exponent x"
  note b = scale2_bounds[OF pos, folded e_def]
  have x: "x = of_nat m * 2 powi (- int k)" by (simp add: x_def power_int_minus divide_inverse)
  have y: "scale2 (- e) x = of_nat m * 2 powi (- int k - e)"
    by (simp add: scale2_powi x mult.assoc flip: power_int_add)
  have "0 \<le> - int k - e"
  proof (rule ccontr)
    assume "\<not> 0 \<le> - int k - e"
    then have "(2 :: rat) powi (- int k - e) \<le> 2 powi (-1)" by (intro power_int_increasing) auto
    then have "of_nat m * 2 powi (- int k - e) \<le> of_nat m * (1 / 2 :: rat)"
      by (intro mult_left_mono) (simp_all add: power_int_minus)
    moreover have "(of_nat m :: rat) < of_nat (2 ^ 53)" using assms by (simp only: of_nat_less_iff)
    ultimately show False using b(1) y by simp
  qed
  then have "scale2 (- e) x = of_int (int m * 2 ^ nat (- int k - e))" by (simp add: y power_int_def)
  then have "of_int (round_even (scale2 (- e) x)) = scale2 (- e) x" by (simp only: round_even_of_int)
  then have "fl x = scale2 e (scale2 (- e) x)" using pos by (simp add: fl_def e_def)
  also have "\<dots> = x" by (simp add: scale2_powi mult.assoc flip: power_int_add)
  finally show ?thesis by (simp add: x_def)
qed simp

lemma fl_le_power:
  assumes "0 \<le> x" "x < 2 ^ k"
  shows "fl x \<le> 2 ^ k"
proof (cases "x = 0")
  case False
  then have pos: "0 < x" using assms(1) by simp
  define e where "e = ulp_exponent x"
  note b = scale2_bounds[OF pos, folded e_def]
  have "scale2 e (2 ^ 52) \<le> scale2 e (scale2 (- e) x)" using b(1) by (simp add: scale2_powi)
  moreover have "scale2 e (2 ^ 52) = 2 powi (52 + e)" by (simp add: scale2_powi power_int_add)
  moreover have "scale2 e (scale2 (- e) x) = x" by (simp add: scale2_powi mult.assoc flip: power_int_add)
  ultimately have "(2 :: rat) powi (52 + e) \<le> x" by simp
  then have "(2 :: rat) powi (52 + e) < 2 powi int k" using assms(2) by simp
  have k: "52 + e < int k"
  proof (rule ccontr)
    assume "\<not> 52 + e < int k"
    then have "(2 :: rat) powi int k \<le> 2 powi (52 + e)" by (intro power_int_increasing) auto
    then show False using \<open>(2 :: rat) powi (52 + e) < 2 powi int k\<close> by simp
  qed
  have "round_even (scale2 (- e) x) \<le> 2 ^ 53" using b(2) by (intro round_even_le) simp
  then have "fl x \<le> scale2 e (of_int (2 ^ 53))" using pos
    by (simp add: fl_def scale2_powi flip: e_def del: of_int_power)
  also have "\<dots> = 2 powi (53 + e)" by (simp add: scale2_powi power_int_add)
  also have "\<dots> \<le> 2 powi (int k)" using k by (intro power_int_increasing) auto
  finally show ?thesis by simp
qed simp

lemma fixed_length:
  assumes "0 \<le> x" "round_even (x * 10 ^ n) < 10 ^ (j + n)" "0 < j"
  shows "length (fixed n x) \<le> j + (if n = 0 then 0 else n + 1)"
proof -
  let ?k = "nat (round_even (x * 10 ^ n))"
  have "0 \<le> round_even (x * 10 ^ n)" using assms(1) by (intro round_even_ge) simp
  then have k: "?k < 10 ^ j * 10 ^ n" using assms(2) by (simp add: nat_less_iff power_add)
  then have "?k div 10 ^ n < 10 ^ j" by (simp add: div_less_iff_less_mult)
  then have a: "length (dec (?k div 10 ^ n)) \<le> j" using assms(3) by (rule length_dec_le)
  have b: "length (pad0 n (dec (?k mod 10 ^ n))) \<le> n" if "n \<noteq> 0"
    using length_dec_le[of "?k mod 10 ^ n" n] that by (simp add: pad0_def)
  show ?thesis using a b by (cases "n = 0") (simp_all add: fixed_def Let_def)
qed

lemma fixed_0: "fixed 0 x = dec (nat (round_even x))"
  by (simp add: fixed_def)

lemma fl_le:
  assumes "0 \<le> x" "x \<le> of_nat m / 2 ^ k" "m < 2 ^ 53"
  shows "fl x \<le> of_nat m / 2 ^ k"
proof (cases "x = 0")
  case False
  then have pos: "0 < x" using assms(1) by simp
  define e where "e = ulp_exponent x"
  note b = scale2_bounds[OF pos, folded e_def]
  let ?y = "of_nat m / 2 ^ k :: rat"
  have y: "scale2 (- e) ?y = of_nat m * 2 powi (- int k - e)"
    by (simp add: scale2_powi power_int_diff power_int_minus divide_inverse mult.assoc)
  have le: "scale2 (- e) x \<le> scale2 (- e) ?y" using assms(2) unfolding scale2_powi by (rule mult_right_mono) simp
  have "0 \<le> - int k - e"
  proof (rule ccontr)
    assume "\<not> 0 \<le> - int k - e"
    then have "(2 :: rat) powi (- int k - e) \<le> 2 powi (-1)" by (intro power_int_increasing) auto
    then have "of_nat m * 2 powi (- int k - e) \<le> of_nat m * (1 / 2 :: rat)"
      by (intro mult_left_mono) (simp_all add: power_int_minus)
    moreover have "(of_nat m :: rat) < of_nat (2 ^ 53)" using assms(3) by (simp only: of_nat_less_iff)
    ultimately show False using b(1) y le by simp
  qed
  then have i: "scale2 (- e) ?y = of_int (int m * 2 ^ nat (- int k - e))" by (simp add: y power_int_def)
  then have "round_even (scale2 (- e) x) \<le> int m * 2 ^ nat (- int k - e)" using le by (intro round_even_le) simp
  then have "of_int (round_even (scale2 (- e) x)) \<le> scale2 (- e) ?y" unfolding i by (simp only: of_int_le_iff)
  then have "scale2 e (of_int (round_even (scale2 (- e) x))) \<le> scale2 e (scale2 (- e) ?y)"
    unfolding scale2_powi by (rule mult_right_mono) simp
  also have "\<dots> = ?y" by (simp add: scale2_powi mult.assoc flip: power_int_add)
  finally show ?thesis using pos by (simp add: fl_def e_def)
qed simp

lemma fl_half:
  assumes "0 < x"
  shows "x / 2 \<le> fl x"
proof -
  define e where "e = ulp_exponent x"
  note b = scale2_bounds[OF assms, folded e_def]
  have "2 ^ 52 \<le> round_even (scale2 (- e) x)" using b(1) by (intro round_even_ge) simp
  then have "(of_int (2 ^ 52) :: rat) \<le> of_int (round_even (scale2 (- e) x))" by (simp only: of_int_le_iff)
  then have "scale2 e (2 ^ 52) \<le> fl x" using assms
    by (simp add: fl_def scale2_powi flip: e_def)
  moreover have "x \<le> 2 ^ 53 * 2 powi e"
  proof -
    have "x = scale2 (- e) x * 2 powi e" by (simp add: scale2_powi mult.assoc flip: power_int_add)
    also have "\<dots> \<le> 2 ^ 53 * 2 powi e" by (rule mult_right_mono) (use b(2) in simp_all)
    finally show ?thesis .
  qed
  ultimately show ?thesis by (simp add: scale2_powi)
qed

end
