(* ===== verification/Format.thy ===== *)
theory Format
  imports Double "HOL-Library.Word"
begin

text \<open>
  Amounts and rates as text (\<open>src/format.c\<close>). A buffer of size 0 is left alone; otherwise it
  receives the text cut to its size, which is what the functions here return.
\<close>

definition format_scaled :: "nat \<Rightarrow> rat \<Rightarrow> string \<Rightarrow> string" where
  "format_scaled buffer_size value unit =
     snprintf buffer_size
       ((if value \<ge> 100 \<or> value = of_int \<lfloor>value\<rfloor> then fixed 0 value
         else if value \<ge> 10 then fixed 1 value
         else fixed 2 value) @ CHR '' '' # unit)"

definition KB :: nat where "KB = 1024"
definition MB :: nat where "MB = 1024 * 1024"
definition GB :: nat where "GB = 1024 * 1024 * 1024"

definition fp_format_bytes :: "nat \<Rightarrow> 64 word \<Rightarrow> string" where
  "fp_format_bytes buffer_size bytes =
     (let b = unat bytes; value = fl (of_nat b) in
      if b \<ge> GB then format_scaled buffer_size (fl (value / of_nat GB)) ''GB''
      else if b \<ge> MB then format_scaled buffer_size (fl (value / of_nat MB)) ''MB''
      else if b \<ge> KB then format_scaled buffer_size (fl (value / of_nat KB)) ''KB''
      else snprintf buffer_size (dec b @ '' B''))"

definition fp_format_rate :: "nat \<Rightarrow> rat \<Rightarrow> string" where
  "fp_format_rate buffer_size bytes_per_sec =
     (let r = (if bytes_per_sec < 0 then 0 else bytes_per_sec) in
      if r \<ge> of_nat GB then format_scaled buffer_size (fl (r / of_nat GB)) ''GB/s''
      else if r \<ge> of_nat MB then format_scaled buffer_size (fl (r / of_nat MB)) ''MB/s''
      else if r \<ge> of_nat KB then format_scaled buffer_size (fl (r / of_nat KB)) ''KB/s''
      else snprintf buffer_size (fixed 0 r @ '' B/s''))"

text \<open>The number of digits after the point, and the shown text without its cut.\<close>

definition places :: "rat \<Rightarrow> nat" where
  "places v = (if v \<ge> 100 \<or> v = of_int \<lfloor>v\<rfloor> then 0 else if v \<ge> 10 then 1 else 2)"

lemma format_scaled_places:
  "format_scaled N v u = snprintf N (fixed (places v) v @ CHR '' '' # u)"
  by (auto simp: format_scaled_def places_def)

lemma fixed_places_length:
  assumes "0 \<le> v" "round_even v < 10 ^ j" "0 < j"
  shows "length (fixed (places v) v) \<le> max j 5"
proof -
  have 0: "length (fixed 0 v) \<le> j" using fixed_length[of v 0 j] assms by simp
  have 1: "length (fixed 1 v) \<le> 5" if "v < 100"
    using fixed_length[of v 1 3] round_even_le[of "v * 10" 1000] assms(1) that by simp
  have 2: "length (fixed 2 v) \<le> 5" if "v < 10"
    using fixed_length[of v 2 2] round_even_le[of "v * 100" 1000] assms(1) that by simp
  show ?thesis using 0 1 2 by (auto simp: places_def)
qed

lemma fixed_shows:
  assumes "0 \<le> v"
  obtains m where "fixed n v = dec (m div 10 ^ n) @ (if n = 0 then '''' else CHR ''.'' # pad0 n (dec (m mod 10 ^ n)))"
    and "\<bar>of_nat m - v * 10 ^ n\<bar> \<le> 1 / 2"
proof
  let ?m = "nat (round_even (v * 10 ^ n))"
  have "0 \<le> round_even (v * 10 ^ n)" using assms by (intro round_even_ge) simp
  then show "\<bar>of_nat ?m - v * 10 ^ n\<bar> \<le> 1 / 2" using round_even_near[of "v * 10 ^ n"] by simp
qed (simp add: fixed_def Let_def)
section \<open>What the texts say\<close>

text \<open>The unit of an amount: the largest power of 1024 that is not above it, up to the third.\<close>

definition unit_power :: "nat \<Rightarrow> nat" where
  "unit_power b = (if b \<ge> 1024 ^ 3 then 3 else if b \<ge> 1024 ^ 2 then 2 else if b \<ge> 1024 then 1 else 0)"

definition unit_name :: "nat \<Rightarrow> string" where
  "unit_name k = [''B'', ''KB'', ''MB'', ''GB''] ! k"

lemma format_bytes_unit:
  assumes b: "unat bytes = b" and "b < 2 ^ 53"
  shows "fp_format_bytes N bytes =
    snprintf N (fixed (places (of_nat b / 1024 ^ unit_power b)) (of_nat b / 1024 ^ unit_power b) @
      CHR '' '' # unit_name (unit_power b))"
proof -
  have e: "fl (of_nat b / 1024 ^ k) = of_nat b / 1024 ^ k" for k
  proof -
    have "(1024 :: rat) ^ k = 2 ^ (10 * k)" by (simp add: power_mult)
    then show ?thesis using fl_exact[OF assms(2), of "10 * k"] by simp
  qed
  have i: "places (of_nat n) = 0" for n by (simp add: places_def)
  have e0: "fl (of_nat b) = of_nat b" using e[of 0] by (simp only: power_0 div_by_1)
  have e1: "fl (of_nat b / 1024) = of_nat b / 1024" using e[of 1] by (simp only: power_one_right)
  have e2: "fl (of_nat b / 1048576) = of_nat b / 1048576"
    using e[of 2] by (simp only: power2_eq_square) simp
  have e3: "fl (of_nat b / 1073741824) = of_nat b / 1073741824"
    using e[of 3] by (simp only: power3_eq_cube) simp
  have r: "round_even (of_nat b) = int b" using round_even_of_int[of "int b"] by simp
  show ?thesis unfolding fp_format_bytes_def b Let_def
    by (simp add: e0 e1 e2 e3 unit_power_def unit_name_def
        format_scaled_places GB_def MB_def KB_def i fixed_0 r)
qed

lemma places_quotient:
  "places (of_nat b / of_nat c) = (if c dvd b \<or> 100 * c \<le> b then 0 else if 10 * c \<le> b then 1 else 2)" if "0 < c"
proof -
  have "(of_nat b / of_nat c = (of_int \<lfloor>of_nat b / of_nat c :: rat\<rfloor> :: rat)) \<longleftrightarrow> c dvd b"
  proof
    assume *: "of_nat b / of_nat c = (of_int \<lfloor>of_nat b / of_nat c :: rat\<rfloor> :: rat)"
    have "\<lfloor>of_nat b / of_nat c :: rat\<rfloor> = int (b div c)" by (simp add: floor_divide_of_nat_eq)
    then have "(of_nat b :: rat) = of_nat (b div c * c)" using * that by (simp add: field_simps)
    then have "b = b div c * c" by (simp only: of_nat_eq_iff)
    then show "c dvd b" by (metis dvd_triv_right)
  next
    assume "c dvd b"
    then obtain n where "b = c * n" by (rule dvdE)
    then show "of_nat b / of_nat c = (of_int \<lfloor>of_nat b / of_nat c :: rat\<rfloor> :: rat)" using that by simp
  qed
  moreover have "n \<le> of_nat b / of_nat c \<longleftrightarrow> n * of_nat c \<le> (of_nat b :: rat)" for n
    using that by (simp add: le_divide_eq)
  moreover have "100 * of_nat c \<le> (of_nat b :: rat) \<longleftrightarrow> 100 * c \<le> b" "10 * of_nat c \<le> (of_nat b :: rat) \<longleftrightarrow> 10 * c \<le> b"
    by (metis of_nat_le_iff of_nat_mult of_nat_numeral)+
  ultimately show ?thesis by (simp add: places_def)
qed

text \<open>The text before the cut.\<close>

definition bytes_text :: "nat \<Rightarrow> string" where
  "bytes_text b =
     (if b < 1024 then dec b @ '' B''
      else let v = fl (fl (of_nat b) / 1024 ^ unit_power b) in
        fixed (places v) v @ CHR '' '' # unit_name (unit_power b))"

lemma format_bytes_cut: "fp_format_bytes N bytes = snprintf N (bytes_text (unat bytes))"
  unfolding fp_format_bytes_def Let_def bytes_text_def
  by (simp add: format_scaled_places unit_power_def unit_name_def GB_def MB_def KB_def)

lemma scaled_text_length:
  assumes f: "0 \<le> f" "f < 2 ^ (j + 1)" and "i \<le> j" "(2 :: int) ^ (j + 1 - i) < 10 ^ n" "0 < n"
  shows "length (fixed (places (fl (f / 2 ^ i))) (fl (f / 2 ^ i))) \<le> max n 5"
proof -
  have "f < 2 ^ (j + 1 - i) * 2 ^ i" using f(2) assms(3) by (simp flip: power_add)
  then have "f / 2 ^ i < 2 ^ (j + 1 - i)" by (simp add: divide_less_eq)
  then have "fl (f / 2 ^ i) \<le> 2 ^ (j + 1 - i)" using f(1) by (intro fl_le_power) auto
  then have "round_even (fl (f / 2 ^ i)) \<le> 2 ^ (j + 1 - i)" by (intro round_even_le) simp
  then show ?thesis using assms by (intro fixed_places_length) (auto intro!: fl_nonneg)
qed

lemma fl_small: "fl (of_nat b) < 2 ^ j" if "b < 2 ^ j" "j \<le> 53"
proof -
  have "b < 2 ^ 53" using that power_increasing[of j 53 "2 :: nat"] by simp
  then have "fl (of_nat b) = of_nat b" using fl_exact[of b 0] by simp
  moreover have "(of_nat b :: rat) < of_nat (2 ^ j)" using that(1) by (simp only: of_nat_less_iff)
  ultimately show ?thesis by simp
qed

text \<open>The text in each of the four units.\<close>

lemma bytes_text_unit:
  "b < 1024 \<Longrightarrow> bytes_text b = dec b @ '' B''"
  "1024 \<le> b \<Longrightarrow> b < 1024 ^ 2 \<Longrightarrow>
    bytes_text b = fixed (places (fl (fl (of_nat b) / 2 ^ 10))) (fl (fl (of_nat b) / 2 ^ 10)) @ '' KB''"
  "1024 ^ 2 \<le> b \<Longrightarrow> b < 1024 ^ 3 \<Longrightarrow>
    bytes_text b = fixed (places (fl (fl (of_nat b) / 2 ^ 20))) (fl (fl (of_nat b) / 2 ^ 20)) @ '' MB''"
  "1024 ^ 3 \<le> b \<Longrightarrow>
    bytes_text b = fixed (places (fl (fl (of_nat b) / 2 ^ 30))) (fl (fl (of_nat b) / 2 ^ 30)) @ '' GB''"
  by (simp_all add: bytes_text_def unit_power_def unit_name_def Let_def)

lemma bytes_text_length:
  assumes "b < 2 ^ 64"
  shows "length (bytes_text b) \<le> 14" "b < 1024 ^ 3 \<Longrightarrow> length (bytes_text b) \<le> 8"
proof -
  have "(of_nat b :: rat) < of_nat (2 ^ 64)" using assms by (simp only: of_nat_less_iff)
  then have f: "fl (of_nat b) \<le> 2 ^ 64" "0 \<le> fl (of_nat b)" by (intro fl_le_power fl_nonneg; simp)+
  consider "b < 1024" | "1024 \<le> b" "b < 1024 ^ 2" | "1024 ^ 2 \<le> b" "b < 1024 ^ 3" | "1024 ^ 3 \<le> b" by linarith
  then have "length (bytes_text b) \<le> (if b < 1024 ^ 3 then 8 else 14)"
  proof cases
    case 1
    then have "length (dec b) \<le> 4" by (intro length_dec_le) simp_all
    then show ?thesis using 1 by (simp add: bytes_text_unit(1))
  next
    case 2
    then show ?thesis
      using scaled_text_length [OF f(2), of 19 10 4] fl_small [of b 20] by (simp add: bytes_text_unit(2))
  next
    case 3
    then show ?thesis
      using scaled_text_length [OF f(2), of 29 20 4] fl_small [of b 30] by (simp add: bytes_text_unit(3))
  next
    case 4
    then show ?thesis
      using scaled_text_length [OF f(2), of 64 30 11] f(1) by (simp add: bytes_text_unit(4))
  qed
  then show "length (bytes_text b) \<le> 14" "b < 1024 ^ 3 \<Longrightarrow> length (bytes_text b) \<le> 8"
    by (auto split: if_splits)
qed

text \<open>
  Below 2^53 bytes the shown amount is the number of bytes divided by the largest fitting power of
  1024, rounded to the last shown digit: no digit after the point when the quotient is a whole number or
  at least 100, one from 10 on, two below. No buffer of 15 characters or more cuts it.
\<close>

theorem format_bytes_exact:
  assumes "unat bytes = b" "b < 2 ^ 53" "15 \<le> N" "k = unit_power b"
    and "d = (if 1024 ^ k dvd b \<or> 100 * 1024 ^ k \<le> b then 0 else if 10 * 1024 ^ k \<le> b then 1 else 2)"
  shows "\<exists>m. fp_format_bytes N bytes =
      dec (m div 10 ^ d) @ (if d = 0 then '''' else CHR ''.'' # pad0 d (dec (m mod 10 ^ d))) @ CHR '' '' # unit_name k \<and>
    \<bar>of_nat m / 10 ^ d - of_nat b / 1024 ^ k\<bar> \<le> (1 / 2 / 10 ^ d :: rat)"
proof -
  let ?v = "of_nat b / 1024 ^ k :: rat"
  have d: "d = places ?v" using places_quotient[of "1024 ^ k" b] assms(5) by simp
  define x where "x = fixed d ?v @ CHR '' '' # unit_name k"
  have t: "fp_format_bytes n bytes = snprintf n x" for n
    using format_bytes_unit[OF assms(1,2)] assms(4) d by (simp add: x_def)
  have "bytes_text b = x"
    using t[of "Suc (length x + length (bytes_text b))"] assms(1) by (simp add: format_bytes_cut)
  then have x: "fp_format_bytes N bytes = x"
    using bytes_text_length(1)[of b] assms(2,3) by (simp add: t)
  obtain m where m: "fixed d ?v = dec (m div 10 ^ d) @ (if d = 0 then '''' else CHR ''.'' # pad0 d (dec (m mod 10 ^ d)))"
    "\<bar>of_nat m - ?v * 10 ^ d\<bar> \<le> 1 / 2" by (rule fixed_shows[of ?v d]) simp_all
  have "of_nat m / 10 ^ d - ?v = (of_nat m - ?v * 10 ^ d) / 10 ^ d" by (simp add: diff_divide_distrib)
  then have "\<bar>of_nat m / 10 ^ d - ?v\<bar> = \<bar>of_nat m - ?v * 10 ^ d\<bar> / 10 ^ d" by (simp only: abs_divide) simp
  also have "\<dots> \<le> 1 / 2 / 10 ^ d" using m(2) by (intro divide_right_mono) simp_all
  finally have "\<bar>of_nat m / 10 ^ d - ?v\<bar> \<le> 1 / 2 / 10 ^ d" .
  then show ?thesis using x m(1) by (intro exI[of _ m]) (simp add: x_def)
qed

theorem format_bytes_exact_witness:
  "\<exists>m. fp_format_bytes 24 (1536 :: 64 word) = dec (m div 10 ^ 2) @ CHR ''.'' # pad0 2 (dec (m mod 10 ^ 2)) @ '' KB'' \<and>
    \<bar>of_nat m / 10 ^ 2 - 1536 / 1024\<bar> \<le> (1 / 2 / 10 ^ 2 :: rat)"
  using format_bytes_exact[of "1536 :: 64 word" 1536 24 1 2] by (simp add: unit_power_def unit_name_def)

text \<open>
  For every 64-bit count the text, before it is cut to the buffer, has at most 14 characters, and at
  most 8 below one gigabyte; so the callers' 24-byte buffers always hold all of it.
\<close>

theorem format_bytes_fits:
  "\<exists>s. (\<forall>N. fp_format_bytes N bytes = take (N - 1) s) \<and> length s \<le> (if unat bytes < 1024 ^ 3 then 8 else 14)"
  using bytes_text_length[of "unat bytes"] unsigned_less[of bytes]
  by (intro exI[of _ "bytes_text (unat bytes)"]) (auto simp: format_bytes_cut snprintf_def)

end
