(* ===== verification/Command_Line.thy ===== *)
theory Command_Line
  imports Operations_Correct
begin

text \<open>
  The command line (\<open>src/main.c\<close>): \<open>main\<close>, its messages and its exit status. The terminal
  interface and the accept loop's stay in the world are arguments: \<open>tui\<close> is \<open>fp_tui_run\<close>, and
  \<open>meanwhile\<close> is what happens while the daemon serves, with whether a signal ended the loop
  (\<open>Accept\<close> models the loop itself). Also here is the whole run of a daemon, from the
  configuration to the last line of \<open>main\<close>.
\<close>

section \<open>Messages\<close>

definition newline :: string where "newline = [char_of (10 :: nat)]"

definition usage_text :: "string \<Rightarrow> string" where
  "usage_text program_name =
     concat (map (\<lambda>l. l @ newline)
       [''Usage:'',
        ''  '' @ program_name,
        ''  '' @ program_name @ '' enable --proxy IPv4:PORT'',
        ''  '' @ program_name @ '' bypass --set IPv4_OR_CIDR[,IPv4_OR_CIDR...]'',
        ''  '' @ program_name @ '' bypass --clear'',
        ''  '' @ program_name @ '' disable'',
        ''  '' @ program_name @ '' status'',
        ''  '' @ program_name @ '' autostart enable|disable'',
        ''  '' @ program_name @ '' uninstall --yes''])"

definition status_text :: "fp_status \<Rightarrow> string" where
  "status_text status =
     ''configuration: '' @ (if config_present status then ''present'' else ''missing'') @ newline
     @ ''daemon: '' @ (if daemon_running status then ''running'' else ''stopped'')
     @ (if daemon_pid status > 1 then '' (pid '' @ dec (nat (daemon_pid status)) @ '')'' else '''') @ newline
     @ ''iptables: '' @ (if firewall_enabled status then ''enabled'' else ''disabled'') @ newline
     @ ''bypass: '' @ (if config_valid status then bypass_shown status else ''unavailable'') @ newline
     @ ''autostart: '' @ (if autostart_enabled status then ''enabled'' else ''disabled'') @ newline
     @ ''coverage: IPv4 TCP only; DNS, UDP, and IPv6 are not proxied'' @ newline"

definition LISTEN_PORT_TEXT :: string where "LISTEN_PORT_TEXT = ''12345''"

text \<open>What a run leaves behind: exit status, standard output and error, the byte for a waiting parent.\<close>

record outcome =
  exit_code :: int
  out :: string
  err :: string
  ready_byte :: "char option"

definition says :: "int \<Rightarrow> string \<Rightarrow> outcome" where
  "says code text = \<lparr>exit_code = code, out = text, err = '''', ready_byte = None\<rparr>"

definition complains :: "int \<Rightarrow> string \<Rightarrow> outcome" where
  "complains code text = \<lparr>exit_code = code, out = '''', err = text, ready_byte = None\<rparr>"

definition usage_error :: "string list \<Rightarrow> outcome" where
  "usage_error argv = complains 2 (usage_text (hd argv))"

section \<open>A daemon's life\<close>

text \<open>
  \<open>fp_proxy_run\<close>: startup, the loop, the end. The result and the byte it reports. The end is the
  same whether a signal or a failed \<open>poll\<close> or \<open>accept\<close> stopped the loop, but for the result.
\<close>

definition fp_proxy_run ::
    "'k os \<Rightarrow> ('k world \<Rightarrow> bool \<times> 'k world) \<Rightarrow> fp_config \<Rightarrow> 'k world \<Rightarrow> ((int \<times> char) \<times> 'k world) option" where
  "fp_proxy_run os meanwhile config w = do {
     (ready, w) \<leftarrow> proxy_startup os config w;
     if \<not> ready then Some ((fail, CHR ''E''), w)
     else let (signalled, w) = meanwhile w; w = stats_close os True (fp_remove_pid os w) in
       Some ((if signalled then ok else fail, CHR ''R''), w) }"

text \<open>The descriptor of \<open>--ready-fd\<close>: \<open>None\<close> when the argument is not accepted.\<close>

definition ready_descriptor :: "string \<Rightarrow> int option" where
  "ready_descriptor arg =
     (let (value, rest, _) = strtol arg in
      if rest = '''' \<and> value \<ge> 0 \<and> value \<le> 1024 then Some value else None)"

definition main_run ::
    "'k os \<Rightarrow> ('k world \<Rightarrow> bool \<times> 'k world) \<Rightarrow> string list \<Rightarrow> 'k world \<Rightarrow> (outcome \<times> 'k world) option" where
  "main_run os meanwhile argv w =
     (let argc = length argv;
          ready_fd = (if argc = 4 \<and> argv ! 2 = ''--ready-fd'' then ready_descriptor (argv ! 3) else None);
          valid = (argc = 2 \<or> ready_fd \<noteq> None);
          report = (\<lambda>c. if ready_fd \<noteq> None then Some c else None) in
      if \<not> (argc = 4 \<and> argv ! 2 = ''--ready-fd'') \<and> argc \<noteq> 2 then Some (says 1 '''', w)
      else if \<not> valid then Some (says 1 '''', w)
      else (case fp_config_load os empty_config w of ((r, config), w) \<Rightarrow>
        if r \<noteq> ok then Some ((says 1 '''')\<lparr>ready_byte := report CHR ''E''\<rparr>, w)
        else do {
          ((result, byte), w) \<leftarrow> fp_proxy_run os meanwhile config w;
          (_, w) \<leftarrow> fp_firewall_disable os w;
          Some ((says (if result = ok then 0 else 1) '''')\<lparr>ready_byte := report byte\<rparr>, w) }))"

section \<open>The commands\<close>

definition main_enable :: "'k os \<Rightarrow> string list \<Rightarrow> 'k world \<Rightarrow> (outcome \<times> 'k world) option" where
  "main_enable os argv w =
     (if length argv \<noteq> 4 \<or> argv ! 2 \<noteq> ''--proxy'' then Some (usage_error argv, w)
      else do {
        (r, w) \<leftarrow> fp_enable_proxy os (argv ! 3) w;
        Some (if r \<noteq> ok
          then complains 1 (''could not enable proxy; check IPv4:PORT, root privileges, iptables NAT, and that TCP port ''
            @ LISTEN_PORT_TEXT @ '' is free'' @ newline)
          else says 0 (''free_proxy enabled: TCP IPv4 traffic uses SOCKS5 '' @ argv ! 3 @ newline), w) })"

definition main_disable :: "'k os \<Rightarrow> 'k world \<Rightarrow> (outcome \<times> 'k world) option" where
  "main_disable os w = do {
     (r, w) \<leftarrow> fp_disable_proxy os w;
     Some (if r \<noteq> ok
       then complains 1 (''free_proxy cleanup was incomplete; check remaining free_proxy processes, port ''
         @ LISTEN_PORT_TEXT @ '', and iptables chain '' @ FP_CHAIN @ newline)
       else says 0 (''free_proxy disabled'' @ newline), w) }"

definition main_bypass :: "'k os \<Rightarrow> string list \<Rightarrow> 'k world \<Rightarrow> (outcome \<times> 'k world) option" where
  "main_bypass os argv w =
     (let list = (if length argv = 3 \<and> argv ! 2 = ''--clear'' then Some ''''
                  else if length argv = 4 \<and> argv ! 2 = ''--set'' then Some (argv ! 3) else None) in
      case list of
        None \<Rightarrow> Some (usage_error argv, w)
      | Some list \<Rightarrow> do {
          (r, w) \<leftarrow> fp_set_bypass os list w;
          Some (if r \<noteq> ok
            then complains 1 (''could not update bypass list; configure the proxy first and use valid IPv4/CIDR entries'' @ newline)
            else says 0 (''bypass list updated: '' @ (if list = '''' then ''none'' else list) @ newline), w) })"

definition main_uninstall :: "'k os \<Rightarrow> string list \<Rightarrow> 'k world \<Rightarrow> (outcome \<times> 'k world) option" where
  "main_uninstall os argv w =
     (if length argv \<noteq> 3 \<or> argv ! 2 \<noteq> ''--yes''
      then Some (complains 2 (''refusing uninstall without --yes'' @ newline), w)
      else do {
        (r, w) \<leftarrow> fp_uninstall os w;
        Some (if r \<noteq> ok
          then complains 1 (''free_proxy uninstall was incomplete; try: sudo make uninstall'' @ newline
            @ ''Also check processes, port '' @ LISTEN_PORT_TEXT @ '', and iptables chain '' @ FP_CHAIN @ newline)
          else says 0 (''free_proxy uninstalled'' @ newline), w) })"

definition main_status :: "'k os \<Rightarrow> 'k world \<Rightarrow> (outcome \<times> 'k world) option" where
  "main_status os w = (let (status, w) = fp_collect_status os w in Some (says 0 (status_text status), w))"

text \<open>The last command; anything else is a usage error.\<close>

definition main_autostart :: "'k os \<Rightarrow> string list \<Rightarrow> 'k world \<Rightarrow> (outcome \<times> 'k world) option" where
  "main_autostart os argv w =
     (if argv ! 1 = ''autostart'' \<and> length argv = 3 \<and> argv ! 2 = ''enable''
      then let (r, w) = fp_autostart_enable os w in Some (says (if r = ok then 0 else 1) '''', w)
      else if argv ! 1 = ''autostart'' \<and> length argv = 3 \<and> argv ! 2 = ''disable''
      then let (r, w) = fp_autostart_disable os w in Some (says (if r = ok then 0 else 1) '''', w)
      else Some (usage_error argv, w))"

definition main_program ::
    "'k os \<Rightarrow> bool \<Rightarrow> ('k world \<Rightarrow> int \<times> 'k world) \<Rightarrow> ('k world \<Rightarrow> bool \<times> 'k world) \<Rightarrow>
     string list \<Rightarrow> 'k world \<Rightarrow> (outcome \<times> 'k world) option" where
  "main_program os root tui meanwhile argv w =
     (if \<not> root then Some (complains 1 (''free_proxy must run as root (try sudo)'' @ newline), w)
      else if length argv = 1 then let (code, w) = tui w in Some (says code '''', w)
      else if argv ! 1 = ''enable'' then main_enable os argv w
      else if argv ! 1 = ''disable'' then main_disable os w
      else if argv ! 1 = ''bypass'' then main_bypass os argv w
      else if argv ! 1 = ''uninstall'' then main_uninstall os argv w
      else if argv ! 1 = ''status'' then main_status os w
      else if argv ! 1 = ''run'' then main_run os meanwhile argv w
      else main_autostart os argv w)"

section \<open>Exit status\<close>

lemma usage_text_nonempty [simp]: "usage_text p \<noteq> ''''"
  by (simp add: usage_text_def newline_def)

lemma outcome_sel [simp]:
  "exit_code (says c t) = c" "out (says c t) = t" "err (says c t) = ''''" "ready_byte (says c t) = None"
  "exit_code (complains c t) = c" "out (complains c t) = ''''" "err (complains c t) = t"
  "ready_byte (complains c t) = None" "usage_error argv = complains 2 (usage_text (hd argv))"
  by (simp_all add: says_def complains_def usage_error_def)

text \<open>What each command's outcome says about its status.\<close>

definition honest :: "outcome \<Rightarrow> 'w \<Rightarrow> 'w \<Rightarrow> bool" where
  "honest r w w' \<longleftrightarrow> exit_code r \<in> {0, 1, 2} \<and> (exit_code r = 2 \<longrightarrow> w' = w \<and> out r = '''' \<and> err r \<noteq> '''')
     \<and> (exit_code r = 0 \<longrightarrow> err r = '''')"

named_theorems honesty

lemma main_enable_honest [honesty]: "main_enable os argv w = Some (r, w') \<Longrightarrow> honest r w w'"
  by (auto simp: main_enable_def honest_def split: if_splits Option.bind_splits)

lemma main_disable_honest [honesty]: "main_disable os w = Some (r, w') \<Longrightarrow> honest r w w'"
  by (auto simp: main_disable_def honest_def split: if_splits Option.bind_splits)

lemma main_bypass_honest [honesty]: "main_bypass os argv w = Some (r, w') \<Longrightarrow> honest r w w'"
  by (auto simp: main_bypass_def honest_def Let_def split: if_splits Option.bind_splits option.splits)

lemma main_uninstall_honest [honesty]: "main_uninstall os argv w = Some (r, w') \<Longrightarrow> honest r w w'"
  by (auto simp: main_uninstall_def honest_def newline_def split: if_splits Option.bind_splits)

lemma main_status_honest [honesty]: "main_status os w = Some (r, w') \<Longrightarrow> honest r w w'"
  by (auto simp: main_status_def honest_def split: prod.splits)

lemma main_run_honest [honesty]: "main_run os meanwhile argv w = Some (r, w') \<Longrightarrow> honest r w w'"
  by (auto simp: main_run_def honest_def Let_def split: if_splits Option.bind_splits prod.splits)

lemma main_autostart_honest [honesty]: "main_autostart os argv w = Some (r, w') \<Longrightarrow> honest r w w'"
  by (auto simp: main_autostart_def honest_def Let_def split: if_splits prod.splits)

text \<open>
  The exit status tells what happened. Any command line but the bare program name ends with 0, 1
  or 2. Status 2, or a caller who is not root, means that nothing at all was touched, nothing was
  printed on standard output and a message was on standard error. Status 0 comes without any error message.
\<close>

theorem main_exit_status:
  assumes "main_program os root tui meanwhile argv w = Some (r, w')" and "length argv \<noteq> 1 \<or> \<not> root"
  shows "exit_code r \<in> {0, 1, 2} \<and> (exit_code r = 2 \<or> \<not> root \<longrightarrow> w' = w \<and> out r = '''' \<and> err r \<noteq> '''')
    \<and> (exit_code r = 0 \<longrightarrow> err r = '''')"
proof (cases root)
  case False
  then show ?thesis using assms(1) by (auto simp: main_program_def newline_def)
next
  case True
  then have "honest r w w'"
    using assms unfolding main_program_def by (auto split: if_splits intro: honesty)
  then show ?thesis using True by (auto simp: honest_def)
qed

theorem main_exit_status_witness:
  "\<exists>r. main_program working_os True (\<lambda>w. (0, w)) (\<lambda>w. (True, w)) [''free_proxy'', ''enable'', ''1.2.3.4:1080''] stored_world
      = Some (r, stored_world) \<and> exit_code r = 2 \<and> err r \<noteq> ''''"
proof -
  let ?argv = "[''free_proxy'', ''enable'', ''1.2.3.4:1080'']"
  have m: "main_program working_os True (\<lambda>w. (0, w)) (\<lambda>w. (True, w)) ?argv stored_world
      = Some (complains 2 (usage_text ''free_proxy''), stored_world)"
    by (simp add: main_program_def main_enable_def)
  with main_exit_status [OF m] show ?thesis by simp
qed

section \<open>What a daemon leaves behind\<close>

lemma load_quiet_cases:
  assumes "faults os = (\<lambda>_. False)"
  obtains w1 config where "fp_config_load os empty_config w = ((ok, config), w1)" "stored_config w = Some config"
    "files w1 = files w" "procs w1 = procs w" "nat_tab w1 = nat_tab w"
  | w1 config r where "fp_config_load os empty_config w = ((r, config), w1)" "r \<noteq> ok" "stored_config w = None"
    "files w1 = files w" "nat_tab w1 = nat_tab w"
proof -
  obtain r config w1 where l: "fp_config_load os empty_config w = ((r, config), w1)" by (metis prod.collapse)
  note s = fp_config_load_stored(2,3) [OF l] load_quiet [OF assms l]
  show ?thesis
    using that l s by (cases "stored_config w") (auto simp: same_kernel_def same_files_def)
qed

lemma disable_quiet:
  assumes "ipt_exact os view"
  obtains w' where "fp_firewall_disable os w = Some (ok, w')" "cleared (view (nat_tab w'))"
    "files w' = files w" "procs w' = procs w"
proof -
  obtain w' where w': "fp_firewall_disable os w = Some (ok, w')" "cleared (view (nat_tab w'))"
    using fp_firewall_disable_exact [OF assms, of w] by (auto simp: cleared_def)
  with that fp_firewall_disable_only [OF w'(1)] show ?thesis by (auto simp: only_nat_def same_files_def)
qed

lemma fp_proxy_run_returns: "ipt_sound os view \<Longrightarrow> fp_proxy_run os meanwhile config w \<noteq> None"
  using proxy_startup_returns [of os view config w]
  by (auto simp: fp_proxy_run_def Let_def split: prod.splits if_splits)

lemma main_run_returns: "ipt_sound os view \<Longrightarrow> main_run os meanwhile argv w \<noteq> None"
  unfolding main_run_def Let_def
  by (auto split: prod.splits if_splits Option.bind_splits simp del: not_None_eq dest: fp_proxy_run_returns disable_returns)

text \<open>The command lines with which \<open>run\<close> goes on to start a daemon.\<close>

definition run_accepted :: "string list \<Rightarrow> bool" where
  "run_accepted argv \<longleftrightarrow> length argv = 2
     \<or> length argv = 4 \<and> argv ! 2 = ''--ready-fd'' \<and> ready_descriptor (argv ! 3) \<noteq> None"

lemma main_run_rejects: "\<not> run_accepted argv \<Longrightarrow> main_run os meanwhile argv w = Some (says 1 '''', w)"
  by (auto simp: main_run_def run_accepted_def Let_def)

lemma main_run_accepts:
  assumes "run_accepted argv" and "fp_config_load os empty_config w = ((c, config), w1)"
    and "main_run os meanwhile argv w = Some (r, w')"
  obtains "c \<noteq> ok" "exit_code r = 1" "w' = w1"
  | result byte w2 x where "c = ok" "fp_proxy_run os meanwhile config w1 = Some ((result, byte), w2)"
      "fp_firewall_disable os w2 = Some (x, w')" "exit_code r = (if result = ok then 0 else 1)"
  using assms by (auto simp: main_run_def run_accepted_def Let_def split: if_splits Option.bind_splits)

text \<open>A daemon that has started takes its record and its statistics away; one that has not, too, unless the port was taken.\<close>

lemma fp_proxy_run_files:
  assumes x: "ipt_exact os view" and q: "faults os = (\<lambda>_. False)"
    and p: "fp_proxy_run os meanwhile config w = Some ((result, byte), w')"
  shows "(port_busy os (tick w) (procs w) \<and> result = fail \<and> files w' = files w)
    \<or> (files w' FP_PID_PATH = None \<and> files w' FP_STATS_PATH = None)"
proof -
  obtain ready w1 where s: "proxy_startup os config w = Some (ready, w1)"
    using p by (auto simp: fp_proxy_run_def split: Option.bind_splits)
  show ?thesis
  proof (cases ready)
    case True
    obtain b w2 where "meanwhile w1 = (b, w2)" by force
    then have "w' = stats_close os True (fp_remove_pid os w2)" using p s True by (auto simp: fp_proxy_run_def)
    then show ?thesis by (simp add: stats_close_def stats_unlink_def fp_remove_pid_def unlink_quiet [OF q])
  next
    case False
    then have "w' = w1" "result = fail" using p s by (auto simp: fp_proxy_run_def)
    then show ?thesis using startup_outcome [OF x q s] False by auto
  qed
qed

text \<open>
  C30: What \<open>free_proxy run\<close> leaves when \<open>main\<close> returns from it. If its arguments are not accepted or no
  valid configuration is stored, it exits with 1 and has touched nothing. In every other case, whether a signal or a failed
  call ended the loop or the daemon could not start, there is no chain and no jump left, so no
  connection is redirected to a port nobody serves; and the process record and the statistics file are gone, unless the
  port was taken, in which case the exit status is 1 and the files are as they were. (A daemon killed by SIGKILL
  does not return from \<open>main\<close>.)
\<close>

theorem run_cleans_up:
  assumes "ipt_exact os view" and "faults os = (\<lambda>_. False)"
    and "main_run os meanwhile argv w = Some (r, w')"
  shows "if \<not> run_accepted argv \<or> stored_config w = None
    then exit_code r = 1 \<and> files w' = files w \<and> nat_tab w' = nat_tab w
    else cleared (view (nat_tab w'))
      \<and> ((\<exists>n. port_busy os n (procs w)) \<and> exit_code r = 1 \<and> files w' = files w
         \<or> files w' FP_PID_PATH = None \<and> files w' FP_STATS_PATH = None)"
proof (cases "run_accepted argv")
  case False
  with main_run_rejects [OF False, of os meanwhile w] assms(3) show ?thesis by auto
next
  case True
  show ?thesis
  proof (rule load_quiet_cases [OF assms(2), of w])
    fix w1 config c
    assume "fp_config_load os empty_config w = ((c, config), w1)" "c \<noteq> ok" "stored_config w = None"
      "files w1 = files w" "nat_tab w1 = nat_tab w"
    then show ?thesis by (auto elim: main_run_accepts [OF True _ assms(3)])
  next
    fix w1 config
    assume l: "fp_config_load os empty_config w = ((ok, config), w1)" "stored_config w = Some config"
      "files w1 = files w" "procs w1 = procs w"
    from main_run_accepts [OF True l(1) assms(3)] obtain result byte w2 x
      where p: "fp_proxy_run os meanwhile config w1 = Some ((result, byte), w2)"
        and d: "fp_firewall_disable os w2 = Some (x, w')" and r: "exit_code r = (if result = ok then 0 else 1)" by metis
    have "cleared (view (nat_tab w'))" "files w' = files w2"
      using disable_cleared [OF assms(1) d] fp_firewall_disable_only [OF d] by (auto simp: only_nat_def same_files_def)
    with fp_proxy_run_files [OF assms(1,2) p] True l r show ?thesis by auto
  qed
qed

theorem run_cleans_up_witness:
  "\<exists>r w'. main_run working_os (\<lambda>w. (True, w)) [''free_proxy'', ''run''] stored_world = Some (r, w')
     \<and> cleared (nat_tab w') \<and> files w' FP_PID_PATH = None"
proof -
  obtain r w' where m: "main_run working_os (\<lambda>w. (True, w)) [''free_proxy'', ''run''] stored_world = Some (r, w')"
    using main_run_returns [OF exact_sound [OF working_os_exact]] by (metis not_None_eq prod.collapse)
  have "\<not> port_busy working_os n (procs stored_world)" for n
    by (simp add: working_os_def reference_os_def)
  with run_cleans_up [OF working_os_exact _ m] m show ?thesis by (auto simp: run_accepted_def)
qed

text \<open>
  C31: A second \<open>free_proxy run\<close> disarms the first. The port is taken, so it exits with 1; but its last
  step has removed the rules the running daemon depends on, while that daemon's record stays in
  place: from then on connections leave directly although a proxy is running.
\<close>

theorem second_run_disarms:
  assumes "ipt_exact os view" and "faults os = (\<lambda>_. False)" and "stored_config w = Some config"
    and "\<And>n. port_busy os n (procs w)"
  shows "\<exists>w'. main_program os True tui meanwhile [program, ''run''] w = Some (says 1 '''', w')
    \<and> cleared (view (nat_tab w')) \<and> files w' = files w \<and> procs w' = procs w"
proof -
  obtain w1 where l: "fp_config_load os empty_config w = ((ok, config), w1)"
    "files w1 = files w" "procs w1 = procs w"
    using load_quiet_cases [OF assms(2), of w] assms(3) by (metis option.distinct(1) option.inject)
  have p: "fp_proxy_run os meanwhile config w1 = Some ((fail, CHR ''E''), w1\<lparr>tick := Suc (tick w1)\<rparr>)"
    using assms(4) l(3) by (simp add: fp_proxy_run_def proxy_startup_def sys_fault_def)
  obtain w' where "fp_firewall_disable os (w1\<lparr>tick := Suc (tick w1)\<rparr>) = Some (ok, w')"
    "cleared (view (nat_tab w'))" "files w' = files w" "procs w' = procs w"
    using disable_quiet [OF assms(1), of "w1\<lparr>tick := Suc (tick w1)\<rparr>"] l by auto
  with l p show ?thesis by (simp add: main_program_def main_run_def says_def)
qed

theorem second_run_disarms_witness:
  "\<exists>w'. main_program (working_os\<lparr>port_busy := (\<lambda>_ _. True)\<rparr>) True (\<lambda>w. (0, w)) (\<lambda>w. (True, w)) [''free_proxy'', ''run'']
       (stored_world\<lparr>nat_tab := nat_tab after_enable\<rparr>) = Some (says 1 '''', w') \<and> cleared (nat_tab w')"
proof -
  let ?os = "working_os\<lparr>port_busy := (\<lambda>_ _. True)\<rparr>"
  let ?w = "stored_world\<lparr>nat_tab := nat_tab after_enable\<rparr>"
  have "ipt_exact ?os (\<lambda>v. v)" using working_os_exact by (simp add: ipt_exact_def ipt_sound_def)
  moreover have "stored_config ?w = Some sample_config"
    using stored_world_sel(1) by (simp add: stored_config_def)
  ultimately show ?thesis
    using second_run_disarms [of ?os "\<lambda>v. v" ?w sample_config "\<lambda>w. (0, w)" "\<lambda>w. (True, w)" "''free_proxy''"] by auto
qed

end
