(* ===== verification/Download.thy ===== *)
theory Download
  imports Proxy Double
begin

text \<open>
  The connections of the network tests (\<open>src/test.c\<close>): looking up a host, dialing it, and
  downloading from it over plain HTTP while counting the bytes of the body. A run reads the cancel flag, the clock
  and the network any number of times; \<open>net_os\<close> says what the successive reads give, and
  \<open>net\<close> counts them. A theorem for all \<open>net_os\<close> holds whenever the user cancels, whatever
  time passes between two reads and whatever the peers send.
\<close>

section \<open>The surroundings of a test\<close>

text \<open>
  What becomes of a lookup: it cannot be started or its wait fails (\<open>NoLookup\<close>), the wait ends without an
  answer (\<open>Abandoned\<close>), or \<open>getaddrinfo\<close> answers with a status and the addresses it found. The two
  threads that bring this about are in \<open>Resolver\<close>.
\<close>

datatype lookup = NoLookup | Abandoned | Answered int "(ip \<times> port) list"

text \<open>
  A connection as \<open>test.c\<close> makes it; \<open>errno_left\<close> is what a failing system call leaves in
  \<open>errno\<close>, \<open>poll_timed_out\<close> tells a \<open>poll\<close> that timed out from one that failed.
\<close>

record test_dial = dial +
  errno_left :: int
  poll_timed_out :: bool

record net_os =
  has_flag :: bool
  flag_value :: "nat \<Rightarrow> bool"
  clock_value :: "nat \<Rightarrow> int option"
  lookups :: "nat \<Rightarrow> lookup"
  test_dials :: "nat \<Rightarrow> test_dial"

record net =
  flag_reads :: nat
  clock_reads :: nat
  lookup_count :: nat
  dial_count :: nat
  probe_count :: nat

definition cancelled :: "net_os \<Rightarrow> net \<Rightarrow> bool \<times> net" where
  "cancelled os n =
     (if \<not> has_flag os then (False, n)
      else (flag_value os (flag_reads n), n\<lparr>flag_reads := Suc (flag_reads n)\<rparr>))"

text \<open>The clock in milliseconds, -1 if it cannot be read.\<close>

definition now_ms :: "net_os \<Rightarrow> net \<Rightarrow> int \<times> net" where
  "now_ms os n =
     ((case clock_value os (clock_reads n) of None \<Rightarrow> -1 | Some t \<Rightarrow> t), n\<lparr>clock_reads := Suc (clock_reads n)\<rparr>)"

section \<open>Looking up and dialing\<close>

text \<open>The result of \<open>resolve_ipv4\<close>, its address list and its resolver error.\<close>

definition resolve_ipv4 :: "net_os \<Rightarrow> string \<Rightarrow> string \<Rightarrow> net \<Rightarrow> (int \<times> (ip \<times> port) list \<times> int) \<times> net" where
  "resolve_ipv4 os host service n =
     (let (stop, n) = cancelled os n in
      if stop then ((-2, [], 0), n)
      else if length host \<ge> 256 \<or> length service \<ge> 8 then ((fail, [], 0), n)
      else
        let answer = lookups os (lookup_count n); n = n\<lparr>lookup_count := Suc (lookup_count n)\<rparr> in
        case answer of
          NoLookup \<Rightarrow> ((fail, [], 0), n)
        | Abandoned \<Rightarrow> (let (stop, n) = cancelled os n in ((if stop then -2 else fail, [], 0), n))
        | Answered status result \<Rightarrow>
            (let (stop, n) = cancelled os n in
             if stop then ((-2, [], status), n)
             else if status \<noteq> 0 then ((fail, [], status), n)
             else ((if result = [] then fail else ok, result, status), n)))"

definition ETIMEDOUT :: int where "ETIMEDOUT = 110"

definition test_set_socket_timeouts :: "test_dial \<Rightarrow> int" where
  "test_set_socket_timeouts d = (if rcvtimeo_ok d \<and> sndtimeo_ok d then ok else fail)"

text \<open>The result and, if it is a failure, \<open>errno\<close>.\<close>

definition test_connect_with_timeout :: "test_dial \<Rightarrow> int \<times> int" where
  "test_connect_with_timeout d =
     (if \<not> getfl_ok d \<or> \<not> setfl_ok d then (fail, errno_left d)
      else
        let (result, e) = (case connect_answer d of
             Connected \<Rightarrow> (ok, errno_left d)
           | ConnectFailed \<Rightarrow> (fail, errno_left d)
           | InProgress ready so_error \<Rightarrow>
               if \<not> ready then (fail, if poll_timed_out d then ETIMEDOUT else errno_left d)
               else (case so_error of
                   None \<Rightarrow> (fail, errno_left d)
                 | Some c \<Rightarrow> if c = 0 then (ok, errno_left d) else (fail, c)))
        in if \<not> restore_ok d then (fail, errno_left d) else (result, e))"

definition next_dial :: "net_os \<Rightarrow> net \<Rightarrow> test_dial \<times> net" where
  "next_dial os n = (test_dials os (dial_count n), n\<lparr>dial_count := Suc (dial_count n)\<rparr>)"

text \<open>The loop over the addresses: the first that can be connected to.\<close>

fun dial_addresses :: "net_os \<Rightarrow> (ip \<times> port) list \<Rightarrow> net \<Rightarrow> sock option \<times> net" where
  "dial_addresses os [] n = (None, n)"
| "dial_addresses os (a # as) n =
     (let (d, n) = next_dial os n in
      if \<not> socket_ok d then dial_addresses os as n
      else let (stop, n) = cancelled os n in
      if stop then (None, n)
      else if fst (test_connect_with_timeout d) = ok \<and> test_set_socket_timeouts d = ok then (Some (peer d), n)
      else dial_addresses os as n)"

definition connect_through_forwarder :: "net_os \<Rightarrow> string \<Rightarrow> nat \<Rightarrow> net \<Rightarrow> sock option \<times> net" where
  "connect_through_forwarder os host port n =
     (case resolve_ipv4 os host (snprintf 8 (dec port)) n of ((status, result, _), n) \<Rightarrow>
      if status \<noteq> ok \<or> result = [] then (None, n) else dial_addresses os result n)"

section \<open>The answer's header\<close>

lemma recv_intr_smaller: "sys_recv n s = (RecvErr E_INTR, s') \<Longrightarrow> length (rx s') < length (rx s)"
  by (auto simp: sys_recv_def split: list.splits recv_event.splits)

lemma more_bytes_left: "bs \<noteq> [] \<Longrightarrow> d < m \<Longrightarrow> m - (d + length bs) < m - d"
  by (cases bs) auto

definition ascii :: "string \<Rightarrow> byte list" where
  "ascii s = map of_char s"

definition is_digit_byte :: "byte \<Rightarrow> bool" where
  "is_digit_byte b \<longleftrightarrow> 48 \<le> b \<and> b \<le> 57"

text \<open>The scan for the space after the version: from 5, below the header's end.\<close>

definition version_end :: "byte list \<Rightarrow> nat \<Rightarrow> nat" where
  "version_end buffer header_length =
     5 + length (takeWhile (\<lambda>b. b \<noteq> 32 \<and> b \<noteq> 13) (drop 5 (take header_length buffer)))"

definition http_response_success :: "byte list \<Rightarrow> nat \<Rightarrow> bool" where
  "http_response_success buffer header_length =
     (if header_length < 12 \<or> take 5 buffer \<noteq> ascii ''HTTP/'' then False
      else
        let index = version_end buffer header_length in
        if index + 3 \<ge> header_length \<or> buffer ! index \<noteq> 32 \<or> \<not> is_digit_byte (buffer ! (index + 1))
          \<or> \<not> is_digit_byte (buffer ! (index + 2)) \<or> \<not> is_digit_byte (buffer ! (index + 3)) then False
        else
          let status = (unat (buffer ! (index + 1)) - 48) * 100 + (unat (buffer ! (index + 2)) - 48) * 10
            + (unat (buffer ! (index + 3)) - 48)
          in status \<ge> 200 \<and> status < 300)"

text \<open>The index of the first empty line, that is of the first CR LF CR LF.\<close>

fun empty_line :: "byte list \<Rightarrow> nat option" where
  "empty_line (a # b # c # d # bs) =
     (if a = 13 \<and> b = 10 \<and> c = 13 \<and> d = 10 then Some 0 else map_option Suc (empty_line (b # c # d # bs)))"
| "empty_line bs = None"

text \<open>
  \<open>skip_http_headers\<close>: the result (0, -1 or -2 for a cancelled call), the offset of the body and the bytes in the
  buffer. The buffer's first \<open>used\<close> bytes are \<open>got\<close>.
\<close>

function skip_http_headers ::
    "net_os \<Rightarrow> nat \<Rightarrow> byte list \<Rightarrow> sock \<Rightarrow> net \<Rightarrow> ((int \<times> nat \<times> byte list) \<times> sock) \<times> net" where
  "skip_http_headers os capacity got s n =
     (if length got + 1 \<ge> capacity then (((fail, 0, got), s), n)
      else
        let (stop, n) = cancelled os n in
        if stop then (((-2, 0, got), s), n)
        else (case sys_recv (capacity - length got) s of
            (RecvErr e, s') \<Rightarrow>
              if e = E_INTR then skip_http_headers os capacity got s' n else (((fail, 0, got), s'), n)
          | (Received bs, s') \<Rightarrow>
              if bs = [] then (((fail, 0, got), s'), n)
              else (case empty_line (got @ bs) of
                  Some index \<Rightarrow>
                    if http_response_success (got @ bs) (index + 4)
                    then (((ok, index + 4, got @ bs), s'), n) else (((fail, 0, got @ bs), s'), n)
                | None \<Rightarrow> skip_http_headers os capacity (got @ bs) s' n)))"
  by pat_completeness auto
termination
  by (relation "measures [\<lambda>(os, capacity, got, s, n). capacity - length got,
      \<lambda>(os, capacity, got, s, n). length (rx s)]")
    (auto dest!: sym [of _ "sys_recv _ _"] simp: more_bytes_left dest: recv_intr_smaller)

declare skip_http_headers.simps [simp del]

section \<open>Measuring a download\<close>

record speed_target =
  speed_name :: string
  speed_host :: string
  speed_port :: nat
  speed_path :: string

definition FP_TEST_SPEED_TOTAL_MS :: int where "FP_TEST_SPEED_TOTAL_MS = 60000"
definition FP_TEST_SPEED_MAX_BYTES :: nat where "FP_TEST_SPEED_MAX_BYTES = 10 * 1024 * 1024"
definition SPEED_BUFFER :: nat where "SPEED_BUFFER = 16384"

definition crlf :: string where "crlf = [char_of (13 :: nat), char_of (10 :: nat)]"

definition http_request :: "speed_target \<Rightarrow> string" where
  "http_request target =
     ''GET '' @ speed_path target @ '' HTTP/1.1'' @ crlf @ ''Host: '' @ speed_host target @ crlf
     @ ''Connection: close'' @ crlf @ ''User-Agent: free_proxy'' @ crlf @ crlf"

text \<open>\<open>downloaded * 1000.0 / (end - start)\<close>.\<close>

definition rate :: "nat \<Rightarrow> int \<Rightarrow> rat" where
  "rate downloaded ms = fl (fl (of_nat downloaded * 1000) / of_int ms)"

text \<open>What a running download reports: the bytes so far and the rate.\<close>

type_synonym speed_report = "nat \<times> rat"

text \<open>
  The loop over the body: the bytes counted, the reports, and whether it was cancelled. The deadline and the
  time of the last report are absolute.
\<close>

function download_loop ::
    "net_os \<Rightarrow> int \<Rightarrow> int \<Rightarrow> int \<Rightarrow> nat \<Rightarrow> speed_report list \<Rightarrow> sock \<Rightarrow> net
     \<Rightarrow> (bool \<times> nat \<times> speed_report list \<times> sock) \<times> net" where
  "download_loop os start deadline last_emit downloaded reports s n =
     (if downloaded \<ge> FP_TEST_SPEED_MAX_BYTES then ((False, downloaded, reports, s), n)
      else
        let (now, n) = now_ms os n; (stop, n) = cancelled os n in
        if stop then ((True, downloaded, reports, s), n)
        else if now < 0 \<or> now > deadline then ((False, downloaded, reports, s), n)
        else
          (case sys_recv (min (FP_TEST_SPEED_MAX_BYTES - downloaded) SPEED_BUFFER) s of
              (RecvErr e, s') \<Rightarrow>
                if e = E_INTR then download_loop os start deadline last_emit downloaded reports s' n
                else ((False, downloaded, reports, s'), n)
            | (Received bs, s') \<Rightarrow>
                if bs = [] then ((False, downloaded, reports, s'), n)
                else
                  let downloaded' = downloaded + length bs; (now, n) = now_ms os n in
                  if now > 0 \<and> (now - last_emit \<ge> 200 \<or> downloaded' \<ge> FP_TEST_SPEED_MAX_BYTES)
                  then download_loop os start deadline now downloaded'
                    (reports @ [(downloaded', if now > start then rate downloaded' (now - start) else 0)]) s' n
                  else download_loop os start deadline last_emit downloaded' reports s' n))"
  by pat_completeness auto
termination
  by (relation "measures [\<lambda>(os, st, dl, le, downloaded, r, s, n). FP_TEST_SPEED_MAX_BYTES - downloaded,
      \<lambda>(os, st, dl, le, downloaded, r, s, n). length (rx s)]")
    (auto dest!: sym [of _ "sys_recv _ _"] simp: more_bytes_left dest: recv_intr_smaller)

declare download_loop.simps [simp del]

text \<open>
  \<open>measure_speed\<close>: the result, the bytes and the speed it stores, and the reports it makes. A
  negative difference of two clock values is a failure.
\<close>

definition measure_speed ::
    "net_os \<Rightarrow> speed_target \<Rightarrow> net \<Rightarrow> (int \<times> nat \<times> rat \<times> speed_report list) \<times> net" where
  "measure_speed os target n =
     (let (stop, n) = cancelled os n in
      if stop then ((-2, 0, 0, []), n)
      else let (socket, n) = connect_through_forwarder os (speed_host target) (speed_port target) n in
      case socket of
        None \<Rightarrow> (let (stop, n) = cancelled os n in ((if stop then -2 else fail, 0, 0, []), n))
      | Some s \<Rightarrow>
          let request = http_request target;
              (sent, s) = (if length request \<ge> 256 then (fail, s) else write_all (ascii request) s) in
          if sent \<noteq> ok then ((fail, 0, 0, []), n)
          else let (start, n) = now_ms os n in
          if start < 0 then ((fail, 0, 0, []), n)
          else (case skip_http_headers os SPEED_BUFFER [] s n of (((r, body_offset, got), s), n) \<Rightarrow>
            if r \<noteq> ok then (let (stop, n) = cancelled os n in ((if stop then -2 else fail, 0, 0, []), n))
            else if body_offset > length got then ((fail, 0, 0, []), n)
            else
              let downloaded = min (length got - body_offset) FP_TEST_SPEED_MAX_BYTES in
              (case download_loop os start (start + FP_TEST_SPEED_TOTAL_MS) start downloaded [] s n of
                ((stopped, downloaded, reports, s), n) \<Rightarrow>
                  if stopped then ((-2, 0, 0, reports), n)
                  else let (end_ms, n) = now_ms os n in
                  if end_ms \<le> start \<or> downloaded = 0 then ((fail, downloaded, 0, reports), n)
                  else ((ok, downloaded, rate downloaded (end_ms - start), reports), n))))"

section \<open>The header, however it is cut into pieces\<close>

lemma empty_line_short: "length xs < 4 \<Longrightarrow> empty_line xs = None"
  by (cases xs rule: empty_line.cases) auto

lemma empty_line_some: "empty_line xs = Some i \<Longrightarrow> i + 4 \<le> length xs"
proof (induction xs arbitrary: i rule: empty_line.induct)
  case (1 a b c d bs)
  then show ?case by (auto split: if_splits)
qed auto

lemma empty_line_append: "empty_line xs = Some i \<Longrightarrow> empty_line (xs @ ys) = Some i"
proof (induction xs arbitrary: i rule: empty_line.induct)
  case (1 a b c d bs)
  then show ?case by (auto split: if_splits)
qed auto

lemma empty_line_prefix: "empty_line (xs @ ys) = Some i \<Longrightarrow> i + 4 \<le> length xs \<Longrightarrow> empty_line xs = Some i"
proof (induction xs arbitrary: i rule: empty_line.induct)
  case (1 a b c d bs)
  show ?case
  proof (cases "a = 13 \<and> b = 10 \<and> c = 13 \<and> d = 10")
    case False
    with 1(2) obtain j where "i = Suc j" "empty_line ((b # c # d # bs) @ ys) = Some j" by (auto simp del: empty_line.simps simp: empty_line.simps(1))
    with 1(1) [OF False, of j] 1(3) False show ?thesis by simp
  qed (use 1(2) in auto)
qed auto

lemma version_end_append: "k \<le> length xs \<Longrightarrow> version_end (xs @ ys) k = version_end xs k"
  by (simp add: version_end_def)

lemma http_response_success_append:
  assumes "k \<le> length xs"
  shows "http_response_success (xs @ ys) k = http_response_success xs k"
proof (cases "k < 12")
  case False
  then have "take 5 (xs @ ys) = take 5 xs" using assms by simp
  moreover have "(xs @ ys) ! (version_end xs k + j) = xs ! (version_end xs k + j)" if "\<not> version_end xs k + 3 \<ge> k" "j \<le> 3" for j
    using that assms by (simp add: nth_append)
  from this [of 0] this [of 1] this [of 2] this [of 3] show ?thesis
    using assms calculation by (auto simp: http_response_success_def version_end_append Let_def)
qed (simp add: http_response_success_def)

definition never_cancelled :: "net_os \<Rightarrow> bool" where
  "never_cancelled os \<longleftrightarrow> has_flag os = False"

lemma not_cancelled [simp]: "never_cancelled os \<Longrightarrow> cancelled os n = (False, n)"
  by (simp add: never_cancelled_def cancelled_def)

definition skipped :: "nat \<Rightarrow> byte list \<Rightarrow> ((int \<times> nat \<times> byte list) \<times> sock) \<Rightarrow> bool" where
  "skipped capacity ws result =
     (case result of ((r, off, got), s) \<Rightarrow>
      (case empty_line ws of
         Some i \<Rightarrow>
           if i + 4 < capacity \<and> http_response_success ws (i + 4)
           then r = ok \<and> off = i + 4 \<and> off \<le> length got \<and> length got \<le> capacity \<and> got @ wire (rx s) = ws
           else r = fail
       | None \<Rightarrow> r = fail))"

text \<open>
  One pass of the header scan of a test that nobody cancels, by what the read gave.
\<close>

lemma skip_headers_pass:
  assumes "never_cancelled os" and "\<not> capacity \<le> length got + 1" and "sys_recv (capacity - length got) s = (x, s')"
  shows "skip_http_headers os capacity got s n = (case x of
      RecvErr e \<Rightarrow> if e = E_INTR then skip_http_headers os capacity got s' n else (((fail, 0, got), s'), n)
    | Received bs \<Rightarrow> if bs = [] then (((fail, 0, got), s'), n)
        else (case empty_line (got @ bs) of
            Some index \<Rightarrow> if http_response_success (got @ bs) (index + 4)
              then (((ok, index + 4, got @ bs), s'), n) else (((fail, 0, got @ bs), s'), n)
          | None \<Rightarrow> skip_http_headers os capacity (got @ bs) s' n))"
  using assms by (subst skip_http_headers.simps) simp

lemma skip_headers_induct [consumes 1, case_names full ended again more found]:
  assumes live: "never_cancelled os"
    and full: "\<And>got s. capacity \<le> length got + 1
      \<Longrightarrow> skip_http_headers os capacity got s n = (((fail, 0, got), s), n) \<Longrightarrow> P got s"
    and ended: "\<And>got s s'. wire (rx s) = []
      \<Longrightarrow> skip_http_headers os capacity got s n = (((fail, 0, got), s'), n) \<Longrightarrow> P got s"
    and again: "\<And>got s s'. wire (rx s') = wire (rx s)
      \<Longrightarrow> skip_http_headers os capacity got s n = skip_http_headers os capacity got s' n \<Longrightarrow> P got s' \<Longrightarrow> P got s"
    and more: "\<And>got s bs s'. length (got @ bs) \<le> capacity \<Longrightarrow> wire (rx s) = bs @ wire (rx s')
      \<Longrightarrow> empty_line (got @ bs) = None
      \<Longrightarrow> skip_http_headers os capacity got s n = skip_http_headers os capacity (got @ bs) s' n
      \<Longrightarrow> P (got @ bs) s' \<Longrightarrow> P got s"
    and found: "\<And>got s bs s' i. length (got @ bs) \<le> capacity \<Longrightarrow> wire (rx s) = bs @ wire (rx s')
      \<Longrightarrow> empty_line (got @ bs) = Some i
      \<Longrightarrow> skip_http_headers os capacity got s n = (if http_response_success (got @ bs) (i + 4)
            then (((ok, i + 4, got @ bs), s'), n) else (((fail, 0, got @ bs), s'), n)) \<Longrightarrow> P got s"
  shows "P got s"
proof (induction "capacity - length got + length (rx s)" arbitrary: got s rule: less_induct)
  case (less got s)
  show ?case
  proof (cases "capacity \<le> length got + 1")
    case True
    then show ?thesis by (intro full) (simp_all add: skip_http_headers.simps)
  next
    case False
    obtain x s' where r: "sys_recv (capacity - length got) s = (x, s')" by force
    note pass = skip_headers_pass [OF live False r]
    have "0 < capacity - length got" using False by simp
    with r show ?thesis
    proof (cases rule: recv_cases)
      case intr
      with pass show ?thesis by (intro again [of s' s] less) simp_all
    next
      case ended
      with pass show ?thesis by (intro assms(3) [of s got s']) (auto split: recv_result.splits)
    next
      case (got bs)
      have "capacity - length (got @ bs) + length (rx s') < capacity - length got + length (rx s)"
        using got False by (cases bs) auto
      then have "P (got @ bs) s'" by (rule less)
      with got False pass show ?thesis
        by (cases "empty_line (got @ bs)") (auto intro: more [of got bs s s'] found [of got bs s s'])
    qed
  qed
qed

lemma skip_headers_general:
  assumes "never_cancelled os" and "empty_line got = None" and "length got \<le> capacity" and "got @ wire (rx s) = ws"
    and "empty_line ws \<noteq> Some (capacity - 4)"
  shows "\<exists>result. skip_http_headers os capacity got s n = (result, n) \<and> skipped capacity ws result"
  using assms
proof (induction got s rule: skip_headers_induct [where n = n and capacity = capacity])
  case (full got s)
  have "capacity \<le> i + 4" if "empty_line ws = Some i" for i
    using empty_line_prefix [of got "wire (rx s)" i] that full by (cases "capacity \<le> i + 4") auto
  with full(2) show ?case by (force simp: skipped_def split: option.split)
next
  case (ended got s s')
  then show ?case by (simp add: skipped_def)
next
  case (again got s s')
  then show ?case by simp
next
  case (more got s bs s')
  then show ?case by simp
next
  case (found got s bs s' i)
  have i: "empty_line ws = Some i" "i + 4 \<le> length (got @ bs)"
    using empty_line_append [OF found(3), of "wire (rx s')"] empty_line_some [OF found(3)] found by simp_all
  have "i + 4 < capacity" using i found by auto
  moreover have "http_response_success ws (i + 4) = http_response_success (got @ bs) (i + 4)"
    using http_response_success_append [OF i(2), of "wire (rx s')"] found by simp
  ultimately show ?case using found i by (auto simp: skipped_def)
qed

text \<open>
  What the header scan decides does not depend on how the network cuts the answer into pieces or
  interrupts it. It succeeds exactly if the first empty line ends inside the buffer and the status
  line says 2xx; then everything after that line, in the buffer or still to come, is the body, and nothing is lost.
  (Only an empty line that ends with the buffer's very last byte is left open.)
\<close>

theorem skip_headers_exact:
  assumes "never_cancelled os" and "empty_line (wire (rx s)) \<noteq> Some (capacity - 4)"
  shows "\<exists>r off got s'. skip_http_headers os capacity [] s n = (((r, off, got), s'), n)
    \<and> (r = ok \<longleftrightarrow> (\<exists>i. empty_line (wire (rx s)) = Some i \<and> i + 4 < capacity
                     \<and> http_response_success (wire (rx s)) (i + 4)))
    \<and> (r = ok \<longrightarrow> off \<le> length got \<and> length got \<le> capacity \<and> empty_line (wire (rx s)) = Some (off - 4)
         \<and> drop off got @ wire (rx s') = drop off (wire (rx s)))"
proof -
  have e: "empty_line [] = None" by simp
  obtain r off got s' where s: "skip_http_headers os capacity [] s n = (((r, off, got), s'), n)"
    and k: "skipped capacity (wire (rx s)) ((r, off, got), s')"
    using skip_headers_general [OF assms(1) e, of capacity s "wire (rx s)" n] assms(2) by auto
  have "drop off got @ wire (rx s') = drop off (wire (rx s))" if "off \<le> length got" "got @ wire (rx s') = wire (rx s)"
    using that by (metis append_take_drop_id drop_append diff_is_0_eq drop_0)
  with s k show ?thesis by (auto simp: skipped_def split: option.splits if_splits)
qed

section \<open>Counting the body\<close>

lemma now_ms_frame [simp]:
  "fst (now_ms os n) = (case clock_value os (clock_reads n) of None \<Rightarrow> -1 | Some t \<Rightarrow> t)"
  "clock_reads (snd (now_ms os n)) = Suc (clock_reads n)"
  by (simp_all add: now_ms_def)

lemma cancelled_frame: "cancelled os n = (b, n') \<Longrightarrow> clock_reads n' = clock_reads n"
  by (auto simp: cancelled_def split: if_splits)

lemma rate_nonneg: "0 < ms \<Longrightarrow> 0 \<le> rate d ms"
  unfolding rate_def by (intro fl_nonneg divide_nonneg_nonneg) simp_all

text \<open>What the loop may add to the count and to the reports.\<close>

definition counted_on :: "nat \<Rightarrow> speed_report list \<Rightarrow> sock \<Rightarrow> nat \<Rightarrow> speed_report list \<Rightarrow> bool" where
  "counted_on downloaded reports s downloaded' reports' \<longleftrightarrow>
     downloaded \<le> downloaded' \<and> downloaded' \<le> FP_TEST_SPEED_MAX_BYTES
     \<and> downloaded' \<le> downloaded + length (wire (rx s))
     \<and> (\<exists>new. reports' = reports @ new \<and> sorted (map fst new)
          \<and> (\<forall>(b, v) \<in> set new. downloaded \<le> b \<and> b \<le> downloaded' \<and> 0 \<le> v))"

lemma counted_on_refl: "downloaded \<le> FP_TEST_SPEED_MAX_BYTES \<Longrightarrow> counted_on downloaded reports s downloaded reports"
  by (simp add: counted_on_def)

lemma counted_on_more:
  assumes "counted_on (downloaded + length bs) (reports @ add) s' downloaded' reports'"
    and "wire (rx s) = bs @ wire (rx s')" and "add = [] \<or> (\<exists>v \<ge> 0. add = [(downloaded + length bs, v)])"
  shows "counted_on downloaded reports s downloaded' reports'"
proof -
  obtain new where n: "reports' = (reports @ add) @ new" "sorted (map fst new)"
    "\<forall>(b, v) \<in> set new. downloaded + length bs \<le> b \<and> b \<le> downloaded' \<and> 0 \<le> v"
    using assms(1) by (auto simp: counted_on_def)
  then have "sorted (map fst (add @ new))" "\<forall>(b, v) \<in> set (add @ new). downloaded \<le> b \<and> b \<le> downloaded' \<and> 0 \<le> v"
    using assms(1,3) by (fastforce simp: counted_on_def)+
  with n(1) assms(1,2) show ?thesis unfolding counted_on_def
    by (intro conjI exI [of _ "add @ new"]) auto
qed

text \<open>One pass: it ends with what is there, or goes on after an interruption or after some bytes.\<close>

lemma download_loop_pass:
  assumes "downloaded < FP_TEST_SPEED_MAX_BYTES" and "now_ms os n = (now, n1)" and "cancelled os n1 = (stop, n2)"
    and "sys_recv (min (FP_TEST_SPEED_MAX_BYTES - downloaded) SPEED_BUFFER) s = (x, s1)"
    and "now_ms os n2 = (later, n3)"
  shows "download_loop os start deadline last_emit downloaded reports s n =
     (if stop then ((True, downloaded, reports, s), n2)
      else if now < 0 \<or> now > deadline then ((False, downloaded, reports, s), n2)
      else (case x of
          RecvErr e \<Rightarrow>
            if e = E_INTR then download_loop os start deadline last_emit downloaded reports s1 n2
            else ((False, downloaded, reports, s1), n2)
        | Received bs \<Rightarrow>
            if bs = [] then ((False, downloaded, reports, s1), n2)
            else
              let downloaded' = downloaded + length bs in
              if later > 0 \<and> (later - last_emit \<ge> 200 \<or> downloaded' \<ge> FP_TEST_SPEED_MAX_BYTES)
              then download_loop os start deadline later downloaded'
                (reports @ [(downloaded', if later > start then rate downloaded' (later - start) else 0)]) s1 n3
              else download_loop os start deadline last_emit downloaded' reports s1 n3))"
  using assms by (subst download_loop.simps) (simp add: Let_def split: recv_result.split)

lemma download_loop_full:
  "downloaded \<ge> FP_TEST_SPEED_MAX_BYTES \<Longrightarrow>
   download_loop os start deadline last_emit downloaded reports s n = ((False, downloaded, reports, s), n)"
  by (subst download_loop.simps) simp

text \<open>
  The download as an induction: it is full, it ends where it stands, it goes on after an interruption,
  or it goes on with more bytes and perhaps one more report.
\<close>

lemma download_induct [case_names full ended again more]:
  assumes full: "\<And>le d rs s n. FP_TEST_SPEED_MAX_BYTES \<le> d
      \<Longrightarrow> download_loop os start deadline le d rs s n = ((False, d, rs, s), n) \<Longrightarrow> P le d rs s n"
    and ended: "\<And>le d rs s n now n1 stop n2 s'. now_ms os n = (now, n1) \<Longrightarrow> cancelled os n1 = (stop, n2)
      \<Longrightarrow> stop \<or> now < 0 \<or> deadline < now \<or> wire (rx s) = []
      \<Longrightarrow> download_loop os start deadline le d rs s n = ((stop, d, rs, s'), n2) \<Longrightarrow> P le d rs s n"
    and again: "\<And>le d rs s n now n1 n2 s'. now_ms os n = (now, n1) \<Longrightarrow> cancelled os n1 = (False, n2)
      \<Longrightarrow> wire (rx s') = wire (rx s)
      \<Longrightarrow> download_loop os start deadline le d rs s n = download_loop os start deadline le d rs s' n2
      \<Longrightarrow> P le d rs s' n2 \<Longrightarrow> P le d rs s n"
    and more: "\<And>le d rs s n now n1 n2 later n3 bs s' le' add. now_ms os n = (now, n1)
      \<Longrightarrow> cancelled os n1 = (False, n2) \<Longrightarrow> now_ms os n2 = (later, n3)
      \<Longrightarrow> wire (rx s) = bs @ wire (rx s') \<Longrightarrow> d + length bs \<le> FP_TEST_SPEED_MAX_BYTES
      \<Longrightarrow> add = [] \<or> (\<exists>v \<ge> 0. add = [(d + length bs, v)])
      \<Longrightarrow> download_loop os start deadline le d rs s n
          = download_loop os start deadline le' (d + length bs) (rs @ add) s' n3
      \<Longrightarrow> P le' (d + length bs) (rs @ add) s' n3 \<Longrightarrow> P le d rs s n"
  shows "P le d rs s n"
proof (induction "FP_TEST_SPEED_MAX_BYTES - d + length (rx s)" arbitrary: le d rs s n rule: less_induct)
  case (less d s le rs n)
  show ?case
  proof (cases "FP_TEST_SPEED_MAX_BYTES \<le> d")
    case True
    then show ?thesis by (intro full) (simp_all add: download_loop_full)
  next
    case False
    then have d: "d < FP_TEST_SPEED_MAX_BYTES" by simp
    obtain now n1 where t: "now_ms os n = (now, n1)" by force
    obtain stop n2 where c: "cancelled os n1 = (stop, n2)" by force
    obtain later n3 where l: "now_ms os n2 = (later, n3)" by force
    obtain x s1 where r: "sys_recv (min (FP_TEST_SPEED_MAX_BYTES - d) SPEED_BUFFER) s = (x, s1)" by force
    note pass = download_loop_pass [OF d t c r l, of start deadline le rs]
    show ?thesis
    proof (cases "stop \<or> now < 0 \<or> deadline < now")
      case True
      with pass show ?thesis by (intro ended [OF t c, of s le d rs s]) auto
    next
      case go: False
      then have c: "cancelled os n1 = (False, n2)" using c by simp
      have "0 < min (FP_TEST_SPEED_MAX_BYTES - d) SPEED_BUFFER" using d by (simp add: SPEED_BUFFER_def)
      with r show ?thesis
      proof (cases rule: recv_cases)
        case intr
        with pass go show ?thesis by (intro again [OF t c intr(2)] less) auto
      next
        case ended
        with pass go show ?thesis by (intro assms(2) [OF t c, of s le d rs s1]) (auto split: recv_result.splits)
      next
        case (got bs)
        let ?d = "d + length bs"
        let ?emit = "later > 0 \<and> (later - le \<ge> 200 \<or> ?d \<ge> FP_TEST_SPEED_MAX_BYTES)"
        let ?v = "if later > start then rate ?d (later - start) else 0"
        have m: "?d \<le> FP_TEST_SPEED_MAX_BYTES" and
          "FP_TEST_SPEED_MAX_BYTES - ?d + length (rx s1) < FP_TEST_SPEED_MAX_BYTES - d + length (rx s)"
          using got d by (cases bs; auto)+
        then have "P le' ?d rs' s1 n3" for le' rs' by (intro less)
        with pass go got rate_nonneg [of "later - start" ?d] show ?thesis
          by (intro more [OF t c l got(4) m, where add = "if ?emit then [(?d, ?v)] else []"
                and rs = rs and le = le and le' = "if ?emit then later else le"])
            (auto simp: Let_def)
      qed
    qed
  qed
qed

lemma download_loop_counts:
  assumes "download_loop os start deadline last_emit downloaded reports s n = ((stopped, downloaded', reports', s'), n')"
    and "downloaded \<le> FP_TEST_SPEED_MAX_BYTES"
  shows "counted_on downloaded reports s downloaded' reports'"
  using assms
proof (induction last_emit downloaded reports s n rule: download_induct [of os start deadline])
  case (again le d rs s n now n1 n2 s1)
  then show ?case by (simp add: counted_on_def)
next
  case (more le d rs s n now n1 n2 later n3 bs s1 le' add)
  then show ?case by (intro counted_on_more [OF _ more(4,6)]) simp
qed (simp_all add: counted_on_refl)

text \<open>When nothing cuts the download short, the loop counts all of the body, up to the limit.\<close>

definition in_time :: "net_os \<Rightarrow> nat \<Rightarrow> int \<Rightarrow> bool" where
  "in_time os k deadline \<longleftrightarrow> (\<forall>j \<ge> k. \<exists>t. clock_value os j = Some t \<and> 0 \<le> t \<and> t \<le> deadline)"

lemma in_time_now:
  assumes "in_time os (clock_reads n) deadline" and "now_ms os n = (now, n1)"
  shows "0 \<le> now" "now \<le> deadline" "in_time os (clock_reads n1) deadline" "clock_reads n \<le> clock_reads n1"
  using assms by (auto simp: in_time_def now_ms_def split: option.splits)

lemma download_loop_all:
  assumes "never_cancelled os" and "in_time os (clock_reads n) deadline" and "downloaded \<le> FP_TEST_SPEED_MAX_BYTES"
  shows "\<exists>reports' s' n'. download_loop os start deadline last_emit downloaded reports s n
      = ((False, min FP_TEST_SPEED_MAX_BYTES (downloaded + length (wire (rx s))), reports', s'), n')
    \<and> clock_reads n \<le> clock_reads n'"
  using assms(2,3)
proof (induction last_emit downloaded reports s n rule: download_induct [of os start deadline])
  case (full le d rs s n)
  then show ?case by simp
next
  case (ended le d rs s n now n1 stop n2 s')
  with in_time_now [OF ended(5,1)] assms(1) show ?case by auto
next
  case (again le d rs s n now n1 n2 s1)
  with in_time_now [OF again(6,1)] assms(1) show ?case by fastforce
next
  case (more le d rs s n now n1 n2 later n3 bs s1 le' add)
  note i = in_time_now [OF more(9,1)]
  have n2: "n2 = n1" using more(2) assms(1) by simp
  note i2 = in_time_now [OF i(3) more(3) [unfolded n2]]
  from more(8) [OF i2(3) more(5)] i(4) i2(4) more(4,7) show ?case by (auto simp: add.assoc intro: order_trans)
qed

text \<open>
  C34: A download never counts more than 10 MB, and its progress reports never run backwards or past the
  final count. It succeeds only with at least one byte and a positive time, and then its speed is the
  bytes over that time; when it fails or is cancelled the speed is 0.
\<close>

theorem speed_bounded:
  assumes "measure_speed os target n = ((r, bytes, speed, reports), n')"
  shows "bytes \<le> 10 * 1024 * 1024
    \<and> (if r = ok then 0 < bytes \<and> (\<exists>ms > 0. speed = rate bytes ms) else speed = 0)
    \<and> sorted (map fst reports)
    \<and> (\<forall>(b, v) \<in> set reports. 0 \<le> v \<and> b \<le> 10 * 1024 * 1024 \<and> (r = ok \<longrightarrow> b \<le> bytes))"
proof (cases "reports = [] \<and> bytes = 0 \<and> speed = 0 \<and> r \<noteq> ok")
  case False
  obtain start n1 d s1 n2 stopped d' s2 where
    l: "download_loop os start (start + FP_TEST_SPEED_TOTAL_MS) start d [] s1 n1 = ((stopped, d', reports, s2), n2)"
    and d: "d \<le> FP_TEST_SPEED_MAX_BYTES"
    and m: "if stopped then r = -2 \<and> bytes = 0 \<and> speed = 0
      else bytes = d' \<and> (if fst (now_ms os n2) \<le> start \<or> d' = 0 then r = fail \<and> speed = 0
        else r = ok \<and> speed = rate d' (fst (now_ms os n2) - start))"
    using assms False unfolding measure_speed_def
    by (auto simp: Let_def simp del: now_ms_frame split: prod.splits option.splits if_splits)
  from download_loop_counts [OF l d] have c: "counted_on d [] s1 d' reports" .
  then show ?thesis using m
    by (auto simp: counted_on_def FP_TEST_SPEED_MAX_BYTES_def simp del: now_ms_frame split: if_splits
        intro!: exI [of _ "fst (now_ms os n2) - start"])
qed auto
text \<open>
  C35: A download that nobody cancels, whose connection and request succeed and that stays within the minute counts
  exactly the body: of the bytes the peer sends, those after the header, at most 10 MB, no matter how
  they arrive; and its speed is that count over the time between the first and the last look at the
  clock.
\<close>

theorem speed_counts_body:
  assumes "never_cancelled os"
    and "connect_through_forwarder os (speed_host target) (speed_port target) n = (Some s, n1)"
    and "length (http_request target) < 256" and "fst (write_all (ascii (http_request target)) s) = ok"
    and "clock_value os (clock_reads n1) = Some start" and "0 \<le> start"
    and "in_time os (clock_reads n1) (start + FP_TEST_SPEED_TOTAL_MS)"
    and "empty_line (wire (rx s)) = Some i" and "i + 4 < SPEED_BUFFER" and "http_response_success (wire (rx s)) (i + 4)"
  shows "\<exists>r bytes speed reports n' last.
      measure_speed os target n = ((r, bytes, speed, reports), n')
    \<and> bytes = min (10 * 1024 * 1024) (length (drop (i + 4) (wire (rx s))))
    \<and> clock_reads n1 < clock_reads n' - 1 \<and> clock_value os (clock_reads n' - 1) = Some last
    \<and> (if start < last \<and> 0 < bytes then r = ok \<and> speed = rate bytes (last - start) else r = fail)"
proof -
  note c = not_cancelled [OF assms(1)]
  obtain s1 where w: "write_all (ascii (http_request target)) s = (ok, s1)" using assms(4) by (metis prod.collapse)
  have rx: "rx s1 = rx s" using write_all_result [OF w] by (auto simp: same_in_def)
  obtain n2 where t: "now_ms os n1 = (start, n2)" "clock_reads n2 = Suc (clock_reads n1)"
    using assms(5) by (auto simp: now_ms_def)
  have ne: "empty_line (wire (rx s)) \<noteq> Some (SPEED_BUFFER - 4)" using assms(8,9) by simp
  obtain r off got s2 where h: "skip_http_headers os SPEED_BUFFER [] s1 n2 = (((r, off, got), s2), n2)"
    and k: "skipped SPEED_BUFFER (wire (rx s)) ((r, off, got), s2)"
    using skip_headers_general [OF assms(1), of "[]" SPEED_BUFFER s1 "wire (rx s)" n2] ne rx by auto
  have k: "r = ok" "off = i + 4" "off \<le> length got" "length got \<le> SPEED_BUFFER" "got @ wire (rx s2) = wire (rx s)"
    using k assms(8-10) by (auto simp: skipped_def)
  have i: "in_time os (clock_reads n2) (start + FP_TEST_SPEED_TOTAL_MS)"
    using assms(7) t(2) by (auto simp: in_time_def)
  let ?d = "length got - off"
  have d: "?d \<le> FP_TEST_SPEED_MAX_BYTES" using k(4) by (simp add: SPEED_BUFFER_def FP_TEST_SPEED_MAX_BYTES_def)
  obtain reports s3 n3 where l: "download_loop os start (start + FP_TEST_SPEED_TOTAL_MS) start ?d [] s2 n2
      = ((False, min FP_TEST_SPEED_MAX_BYTES (?d + length (wire (rx s2))), reports, s3), n3)"
    and n3: "clock_reads n2 \<le> clock_reads n3"
    using download_loop_all [OF assms(1) i d] by blast
  have b: "?d + length (wire (rx s2)) = length (drop (i + 4) (wire (rx s)))"
    using k(2,3) by (simp flip: k(5))
  obtain last where last: "clock_value os (clock_reads n3) = Some last"
    using i n3 by (auto simp: in_time_def)
  obtain n4 where e: "now_ms os n3 = (last, n4)" "clock_reads n4 = Suc (clock_reads n3)"
    using last by (auto simp: now_ms_def)
  let ?b = "min FP_TEST_SPEED_MAX_BYTES (length (drop (i + 4) (wire (rx s))))"
  have "measure_speed os target n = (if last \<le> start \<or> ?b = 0 then ((fail, ?b, 0, reports), n4)
      else ((ok, ?b, rate ?b (last - start), reports), n4))"
    using assms(3,6) k(1,3) min_absorb1 [OF d]
    by (simp add: measure_speed_def Let_def c assms(2) w t(1) h l [unfolded b] e(1) del: length_drop)
  then show ?thesis using last e(2) n3 t(2) by (auto simp: FP_TEST_SPEED_MAX_BYTES_def simp del: length_drop)
qed

text \<open>A server that answers in pieces, with an interruption inside the header.\<close>

definition sample_answer :: "recv_event list" where
  "sample_answer = [Chunk (ascii ''HTTP/1.1 200 OK''), RIntr, Chunk [13, 10, 13], Chunk [10, 1, 2], Chunk [3], REof]"

definition sample_server :: sock where
  "sample_server = \<lparr>rx = sample_answer, plan = [], tx = [], shut_wr = False\<rparr>"

definition sample_net_os :: net_os where
  "sample_net_os = \<lparr>has_flag = False, flag_value = (\<lambda>_. False), clock_value = (\<lambda>k. Some (if k = 0 then 1000 else 1500)),
     lookups = (\<lambda>_. Answered 0 [(16909060, 80)]),
     test_dials = (\<lambda>_. \<lparr>socket_ok = True, getfl_ok = True, setfl_ok = True, connect_answer = Connected, restore_ok = True,
       rcvtimeo_ok = True, sndtimeo_ok = True, is_open = False, peer = sample_server, errno_left = 0, poll_timed_out = False\<rparr>)\<rparr>"

definition fresh_net :: net where
  "fresh_net = \<lparr>flag_reads = 0, clock_reads = 0, lookup_count = 0, dial_count = 0, probe_count = 0\<rparr>"

definition sample_target :: speed_target where
  "sample_target = \<lparr>speed_name = ''OVH 10MB'', speed_host = ''proof.ovh.net'', speed_port = 80, speed_path = ''/files/10Mb.dat''\<rparr>"

lemma sample_never_cancelled: "never_cancelled sample_net_os"
  by (simp add: never_cancelled_def sample_net_os_def)

lemma sample_wire: "wire (rx sample_server) = ascii ''HTTP/1.1 200 OK'' @ [13, 10, 13, 10, 1, 2, 3]"
  by (simp add: sample_server_def sample_answer_def ascii_def)

lemma sample_header:
  "empty_line (wire (rx sample_server)) = Some 15" "http_response_success (wire (rx sample_server)) 19"
  by (simp_all add: sample_wire ascii_def http_response_success_def version_end_def is_digit_byte_def Let_def)

lemma sample_connects:
  "\<exists>n1. connect_through_forwarder sample_net_os (speed_host sample_target) (speed_port sample_target) fresh_net
     = (Some sample_server, n1) \<and> clock_reads n1 = 0"
  by (simp add: connect_through_forwarder_def resolve_ipv4_def sample_target_def snprintf_def not_cancelled [OF sample_never_cancelled]
      Let_def) (simp add: sample_net_os_def fresh_net_def next_dial_def cancelled_def test_connect_with_timeout_def
      test_set_socket_timeouts_def)

theorem skip_headers_exact_witness:
  "\<exists>got s'. skip_http_headers sample_net_os 16384 [] sample_server fresh_net = (((ok, 19, got), s'), fresh_net)
     \<and> drop 19 got @ wire (rx s') = [1, 2, 3]"
proof -
  have "empty_line (wire (rx sample_server)) \<noteq> Some (16384 - 4)" by (simp add: sample_header)
  from skip_headers_exact [OF sample_never_cancelled this, of fresh_net]
  obtain r off got s' where s: "skip_http_headers sample_net_os 16384 [] sample_server fresh_net = (((r, off, got), s'), fresh_net)"
    and r: "r = ok" and o: "(15 :: nat) = off - 4" "drop off got @ wire (rx s') = drop off (wire (rx sample_server))"
    by (auto simp: sample_header)
  from o(1) have "off = 19" by simp
  moreover have "drop 19 (wire (rx sample_server)) = [1, 2, 3]" by (simp add: sample_wire ascii_def)
  ultimately show ?thesis using s r o(2) by auto
qed

theorem speed_bounded_witness:
  "\<exists>r bytes speed reports n'. measure_speed sample_net_os sample_target fresh_net = ((r, bytes, speed, reports), n')
     \<and> bytes \<le> 10 * 1024 * 1024"
proof -
  obtain r bytes speed reports n' where
    m: "measure_speed sample_net_os sample_target fresh_net = ((r, bytes, speed, reports), n')" by (metis prod.collapse)
  from speed_bounded [OF m] m show ?thesis by blast
qed

theorem speed_counts_body_witness:
  "\<exists>speed reports n'. measure_speed sample_net_os sample_target fresh_net = ((ok, 3, speed, reports), n')
     \<and> speed = rate 3 500"
proof -
  obtain n1 where c: "connect_through_forwarder sample_net_os (speed_host sample_target) (speed_port sample_target) fresh_net
      = (Some sample_server, n1)" "clock_reads n1 = 0" using sample_connects by blast
  have l: "length (http_request sample_target) < 256" by (simp add: http_request_def sample_target_def crlf_def)
  have w: "fst (write_all (ascii (http_request sample_target)) sample_server) = ok"
    by (subst write_all.simps) (simp add: sys_send_def sample_server_def write_all.simps [of "[]"])
  have t: "clock_value sample_net_os (clock_reads n1) = Some 1000" "in_time sample_net_os (clock_reads n1) (1000 + FP_TEST_SPEED_TOTAL_MS)"
    by (simp_all add: c sample_net_os_def in_time_def FP_TEST_SPEED_TOTAL_MS_def)
  have d: "drop (15 + 4) (wire (rx sample_server)) = [1, 2, 3]" by (simp add: sample_wire ascii_def)
  have b: "min (10 * 1024 * 1024) (length (drop (15 + 4) (wire (rx sample_server)))) = 3" by (simp only: d) simp
  obtain r speed reports n' last where
    m: "measure_speed sample_net_os sample_target fresh_net = ((r, 3, speed, reports), n')"
    and k: "clock_reads n1 < clock_reads n' - 1" "clock_value sample_net_os (clock_reads n' - 1) = Some last"
    and r: "if (1000 :: int) < last \<and> 0 < (3 :: nat) then r = ok \<and> speed = rate 3 (last - 1000) else r = fail"
    using speed_counts_body [OF sample_never_cancelled c(1) l w t(1) _ t(2) sample_header(1), unfolded b] sample_header(2)
    by (force simp: SPEED_BUFFER_def)
  have "last = 1500" using k c(2) by (auto simp: sample_net_os_def)
  with m r show ?thesis by simp
qed

end
