(* ===== verification/Web_Probe.thy ===== *)
theory Web_Probe
  imports Download
begin

text \<open>
  One probe of a web site (\<open>src/web_probe.c\<close>). The transfer itself is libcurl's: whether its calls
  succeed, how often it calls the progress function and how the transfer ends are the parameter
  \<open>curl_os\<close>. Its documented behaviour is built in: a transfer whose progress function returns a non-zero
  value ends with \<open>CURLE_ABORTED_BY_CALLBACK\<close>. What is modelled is the rest: the arguments, the URL, the options, the
  cancel flag, and how the answer is judged and rounded.
\<close>

datatype curl_option =
    CURLOPT_URL string | CURLOPT_NOBODY nat | CURLOPT_FOLLOWLOCATION nat | CURLOPT_CONNECTTIMEOUT_MS nat
  | CURLOPT_TIMEOUT_MS nat | CURLOPT_NOSIGNAL nat | CURLOPT_IPRESOLVE_V4 | CURLOPT_PROXY string
  | CURLOPT_FRESH_CONNECT nat | CURLOPT_FORBID_REUSE nat | CURLOPT_DNS_CACHE_TIMEOUT nat
  | CURLOPT_SSL_VERIFYPEER nat | CURLOPT_SSL_VERIFYHOST nat | CURLOPT_USERAGENT string
  | CURLOPT_WRITEFUNCTION | CURLOPT_XFERINFOFUNCTION | CURLOPT_XFERINFODATA | CURLOPT_NOPROGRESS nat

text \<open>How a transfer that is not aborted ends, and what \<open>curl_easy_getinfo\<close> says then.\<close>

datatype transfer_end =
    CurlError
  | CurlAborted
  | CurlOk "int option" "rat option"

record curl_os =
  curl_initialized :: bool
  handle_ok :: "nat \<Rightarrow> bool"
  setopt_ok :: "nat \<Rightarrow> curl_option \<Rightarrow> bool"
  progress_calls :: "nat \<Rightarrow> curl_option list \<Rightarrow> nat"
  transfer :: "nat \<Rightarrow> curl_option list \<Rightarrow> transfer_end"

definition FP_TEST_TIMEOUT_MS :: nat where "FP_TEST_TIMEOUT_MS = 3000"
definition INT_MAX :: int where "INT_MAX = 2147483647"

text \<open>\<open>fp_web_probe_init\<close>: the once-only initialisation has one result for the whole run.\<close>

definition fp_web_probe_init :: "curl_os \<Rightarrow> int" where
  "fp_web_probe_init curl = (if curl_initialized curl then ok else fail)"

definition probe_options :: "string \<Rightarrow> curl_option list" where
  "probe_options url =
     [CURLOPT_URL url, CURLOPT_NOBODY 1, CURLOPT_FOLLOWLOCATION 0,
      CURLOPT_CONNECTTIMEOUT_MS FP_TEST_TIMEOUT_MS, CURLOPT_TIMEOUT_MS FP_TEST_TIMEOUT_MS,
      CURLOPT_NOSIGNAL 1, CURLOPT_IPRESOLVE_V4, CURLOPT_PROXY '''', CURLOPT_FRESH_CONNECT 1,
      CURLOPT_FORBID_REUSE 1, CURLOPT_DNS_CACHE_TIMEOUT 0, CURLOPT_SSL_VERIFYPEER 1, CURLOPT_SSL_VERIFYHOST 2,
      CURLOPT_USERAGENT ''free_proxy/1.0'', CURLOPT_WRITEFUNCTION, CURLOPT_XFERINFOFUNCTION,
      CURLOPT_XFERINFODATA, CURLOPT_NOPROGRESS 0]"

definition probe_url :: "string \<Rightarrow> nat \<Rightarrow> string" where
  "probe_url domain port = (if port = 443 then ''https'' else ''http'') @ ''://'' @ domain @ '':'' @ dec port @ ''/''"

text \<open>The calls of \<open>probe_progress\<close>: whether one of them aborts the transfer.\<close>

fun probe_progress :: "net_os \<Rightarrow> nat \<Rightarrow> net \<Rightarrow> bool \<times> net" where
  "probe_progress os 0 n = (False, n)"
| "probe_progress os (Suc k) n =
     (let (stop, n) = cancelled os n in if stop then (True, n) else probe_progress os k n)"

definition curl_easy_perform :: "curl_os \<Rightarrow> net_os \<Rightarrow> nat \<Rightarrow> curl_option list \<Rightarrow> net \<Rightarrow> transfer_end \<times> net" where
  "curl_easy_perform curl os k options n =
     (let (aborted, n) = probe_progress os (progress_calls curl k options) n in
      (if aborted then CurlAborted else transfer curl k options, n))"

text \<open>\<open>(int)(first_byte_seconds * 1000.0 + 0.5)\<close>.\<close>

definition latency_of :: "rat \<Rightarrow> int" where
  "latency_of first_byte_seconds = \<lfloor>fl (fl (first_byte_seconds * 1000) + 1 / 2)\<rfloor>"

text \<open>The result, and the latency when it is 0.\<close>

definition fp_web_probe :: "curl_os \<Rightarrow> net_os \<Rightarrow> string \<Rightarrow> nat \<Rightarrow> net \<Rightarrow> (int \<times> int) \<times> net" where
  "fp_web_probe curl os domain port n =
     (if domain = '''' \<or> port = 0 \<or> fp_web_probe_init curl \<noteq> ok then ((fail, 0), n)
      else let (stop, n) = cancelled os n in
      if stop then ((-2, 0), n)
      else if length (probe_url domain port) \<ge> 384 then ((fail, 0), n)
      else
        let k = probe_count n; n = n\<lparr>probe_count := Suc k\<rparr>; options = probe_options (probe_url domain port) in
        if \<not> handle_ok curl k then ((fail, 0), n)
        else if \<not> list_all (setopt_ok curl k) options then ((fail, 0), n)
        else (case curl_easy_perform curl os k options n of
            (CurlAborted, n) \<Rightarrow>
              (let (stop, n) = cancelled os n in ((if stop then -2 else fail, 0), n))
          | (CurlError, n) \<Rightarrow> ((fail, 0), n)
          | (CurlOk response_code first_byte_seconds, n) \<Rightarrow>
              (case (response_code, first_byte_seconds) of
                 (Some code, Some seconds) \<Rightarrow>
                   if code < 100 \<or> code \<ge> 600 \<or> seconds < 0 \<or> seconds > fl (of_int INT_MAX / 1000)
                   then ((fail, 0), n) else ((ok, latency_of seconds), n)
               | _ \<Rightarrow> ((fail, 0), n))))"

section \<open>The latency\<close>

lemma cancelled_result: "cancelled os n = (True, n') \<Longrightarrow> \<exists>k. flag_value os k"
  by (auto simp: cancelled_def split: if_splits)

lemma longest_latency:
  assumes "0 \<le> s" "s \<le> fl (of_int INT_MAX / 1000)"
  shows "0 \<le> latency_of s \<and> latency_of s \<le> INT_MAX"
proof -
  have "fl (of_int INT_MAX / 1000) \<le> of_nat 4611686016279905 / 2 ^ 31"
    by (rule fl_le) (simp_all add: INT_MAX_def)
  then have s: "s * 1000 \<le> of_nat 8589934589 / 2 ^ 2" using assms(2) by simp
  have "fl (s * 1000) \<le> of_nat 8589934589 / 2 ^ 2"
    by (rule fl_le) (use s assms(1) in simp_all)
  moreover have z: "0 \<le> fl (s * 1000)" using assms(1) by (intro fl_nonneg) simp
  ultimately have "fl (fl (s * 1000) + 1 / 2) \<le> of_nat 8589934591 / 2 ^ 2" by (intro fl_le) simp_all
  moreover have "0 \<le> fl (fl (s * 1000) + 1 / 2)" using z by (intro fl_nonneg) simp
  ultimately show ?thesis by (simp add: latency_of_def INT_MAX_def floor_le_iff)
qed

text \<open>
  A probe that succeeds reports a latency that an \<open>int\<close> holds: the conversion of the rounded number
  of milliseconds never overflows, whatever libcurl measured. A result of -2 means that the user has
  cancelled; every other outcome is -1.
\<close>

theorem web_probe_bounds:
  assumes "fp_web_probe curl os domain port n = ((r, latency), n')"
  shows "r \<in> {0, -1, -2} \<and> (r = 0 \<longrightarrow> 0 \<le> latency \<and> latency \<le> 2147483647) \<and> (r = -2 \<longrightarrow> (\<exists>k. flag_value os k))"
  using assms longest_latency
  by (auto simp: fp_web_probe_def Let_def INT_MAX_def dest: cancelled_result
      split: if_splits prod.splits transfer_end.splits option.splits)

definition sample_curl :: "curl_os" where
  "sample_curl = \<lparr>curl_initialized = True, handle_ok = (\<lambda>_. True), setopt_ok = (\<lambda>_ _. True), progress_calls = (\<lambda>_ _. 3),
     transfer = (\<lambda>_ _. CurlOk (Some 200) (Some (1 / 8)))\<rparr>"

lemma one_eighth_ok: "1 / 8 \<le> fl (of_int INT_MAX / 1000)"
  using fl_half [of "of_int INT_MAX / 1000"] by (simp add: INT_MAX_def)

lemma sample_url: "length (probe_url ''github.com'' 443) < 384"
  using length_dec_le [of 443 3] by (simp add: probe_url_def)

lemma probe_progress_never [simp]: "never_cancelled os \<Longrightarrow> probe_progress os k n = (False, n)"
  by (induction k) simp_all

lemma sample_probe_ok: "\<exists>latency n'. fp_web_probe sample_curl sample_net_os ''github.com'' 443 n = ((ok, latency), n')"
  using one_eighth_ok sample_url unfolding fp_web_probe_def
  by (simp add: Let_def not_cancelled [OF sample_never_cancelled] sample_curl_def
    fp_web_probe_init_def curl_easy_perform_def probe_progress_never [OF sample_never_cancelled] list_all_iff not_less)

theorem web_probe_bounds_witness:
  "\<exists>latency n'. fp_web_probe sample_curl sample_net_os ''github.com'' 443 fresh_net = ((0, latency), n')
     \<and> 0 \<le> latency \<and> latency \<le> 2147483647"
proof -
  obtain latency n' where p: "fp_web_probe sample_curl sample_net_os ''github.com'' 443 fresh_net = ((0, latency), n')"
    using sample_probe_ok by blast
  then show ?thesis using web_probe_bounds [OF p] by auto
qed

end
