(* ===== verification/Net_Test.thy ===== *)
theory Net_Test
  imports Operations_Correct Web_Probe
begin

text \<open>
  The network tests (\<open>fp_test_run\<close> in \<open>src/test.c\<close>): checks of web sites with one or three probes
  each, downloads from three servers, the report they fill and the events they send to the user
  interface. The events are collected in a list, in the order of the calls of \<open>on_event\<close>.
\<close>

section \<open>Data\<close>

datatype fp_test_mode = FP_TEST_MODE_CONNECTIVITY | FP_TEST_MODE_LATENCY | FP_TEST_MODE_SPEED

datatype fp_test_phase =
    FP_TEST_PHASE_PREFLIGHT | FP_TEST_PHASE_CONNECTIVITY | FP_TEST_PHASE_LATENCY | FP_TEST_PHASE_SPEED
  | FP_TEST_PHASE_DONE

datatype fp_test_site_state =
    FP_TEST_SITE_PENDING | FP_TEST_SITE_RUNNING | FP_TEST_SITE_OK | FP_TEST_SITE_FAIL | FP_TEST_SITE_CANCELLED

record fp_test_site_result =
  site_name :: string
  site_domain :: string
  site_state :: fp_test_site_state
  latency_ms :: int
  speed_bps :: rat
  bytes_downloaded :: nat

text \<open>The arrays are lists, and their lengths are \<open>site_count\<close> and \<open>speed_count\<close>.\<close>

record fp_test_report =
  mode :: fp_test_mode
  listener_ok :: bool
  was_cancelled :: bool
  sites :: "fp_test_site_result list"
  sites_passed :: nat
  speeds :: "fp_test_site_result list"
  speed_passed :: nat
  best_speed_bps :: rat
  failures :: string

record fp_test_progress_event =
  ev_phase :: fp_test_phase
  ev_index :: nat
  ev_total :: nat
  ev_state :: fp_test_site_state
  ev_latency_ms :: int
  ev_speed_bps :: rat
  ev_bytes :: nat
  ev_name :: string
  ev_domain :: string

text \<open>\<open>memset(&event, 0, sizeof(event))\<close>.\<close>

definition zero_event :: fp_test_progress_event where
  "zero_event = \<lparr>ev_phase = FP_TEST_PHASE_PREFLIGHT, ev_index = 0, ev_total = 0, ev_state = FP_TEST_SITE_PENDING,
     ev_latency_ms = 0, ev_speed_bps = 0, ev_bytes = 0, ev_name = '''', ev_domain = ''''\<rparr>"

definition FP_TEST_FAILURES_SIZE :: nat where "FP_TEST_FAILURES_SIZE = 1024"
definition FP_TEST_MAX_SITES :: nat where "FP_TEST_MAX_SITES = 25"
definition FP_TEST_MAX_SPEED :: nat where "FP_TEST_MAX_SPEED = 3"

record test_target =
  target_name :: string
  target_domain :: string
  target_port :: nat

definition target :: "string \<Rightarrow> string \<Rightarrow> nat \<Rightarrow> test_target" where
  "target name domain port = \<lparr>target_name = name, target_domain = domain, target_port = port\<rparr>"

definition SITE_TARGETS :: "test_target list" where
  "SITE_TARGETS =
    [target ''GitHub'' ''github.com'' 443,
     target ''GitLab'' ''gitlab.com'' 443,
     target ''OpenAI API'' ''api.openai.com'' 443,
     target ''ChatGPT'' ''chatgpt.com'' 443,
     target ''Google'' ''www.google.com'' 443,
     target ''YouTube'' ''www.youtube.com'' 443,
     target ''Wikipedia'' ''en.wikipedia.org'' 443,
     target ''X'' ''x.com'' 443,
     target ''Reddit'' ''www.reddit.com'' 443,
     target ''Discord'' ''discord.com'' 443,
     target ''Telegram'' ''web.telegram.org'' 443,
     target ''Cloudflare'' ''www.cloudflare.com'' 443,
     target ''Microsoft'' ''www.microsoft.com'' 443,
     target ''Apple'' ''www.apple.com'' 443,
     target ''Amazon'' ''www.amazon.com'' 443,
     target ''Netflix'' ''www.netflix.com'' 443,
     target ''Spotify'' ''www.spotify.com'' 443,
     target ''Docker Hub'' ''hub.docker.com'' 443,
     target ''npm'' ''registry.npmjs.org'' 443,
     target ''PyPI'' ''pypi.org'' 443,
     target ''Hugging Face'' ''huggingface.co'' 443,
     target ''Stack Overflow'' ''stackoverflow.com'' 443,
     target ''Vercel'' ''vercel.com'' 443,
     target ''Ubuntu'' ''archive.ubuntu.com'' 80,
     target ''Ubuntu Security'' ''security.ubuntu.com'' 80]"

definition speed_target :: "string \<Rightarrow> string \<Rightarrow> nat \<Rightarrow> string \<Rightarrow> speed_target" where
  "speed_target name host port path = \<lparr>speed_name = name, speed_host = host, speed_port = port, speed_path = path\<rparr>"

definition SPEED_TARGETS :: "speed_target list" where
  "SPEED_TARGETS =
    [speed_target ''Tele2 10MB'' ''speedtest.tele2.net'' 80 ''/10MB.zip'',
     speed_target ''OVH 10MB'' ''proof.ovh.net'' 80 ''/files/10Mb.dat'',
     speed_target ''CacheFly 10MB'' ''cachefly.cachefly.net'' 80 ''/10mb.test'']"

definition fill_site :: "string \<Rightarrow> string \<Rightarrow> fp_test_site_result" where
  "fill_site name domain = \<lparr>site_name = snprintf 32 name, site_domain = snprintf 64 domain, site_state = FP_TEST_SITE_PENDING,
     latency_ms = -1, speed_bps = 0, bytes_downloaded = 0\<rparr>"

section \<open>Operations\<close>

text \<open>One more name in the fixed buffer of failures.\<close>

definition append_failed :: "string \<Rightarrow> string \<Rightarrow> string" where
  "append_failed text name =
     (if length text < FP_TEST_FAILURES_SIZE
      then text @ snprintf (FP_TEST_FAILURES_SIZE - length text) ((if text = '''' then '''' else '', '') @ name)
      else text)"

text \<open>The samples of \<open>measure_latency\<close>: the first result that is not 0 ends it.\<close>

fun take_samples ::
    "curl_os \<Rightarrow> net_os \<Rightarrow> string \<Rightarrow> nat \<Rightarrow> nat \<Rightarrow> int list \<Rightarrow> net \<Rightarrow> (int \<times> int list) \<times> net" where
  "take_samples curl os domain port 0 samples n = ((ok, samples), n)"
| "take_samples curl os domain port (Suc k) samples n =
     (let ((result, latency), n) = fp_web_probe curl os domain port n in
      if result \<noteq> 0 then ((result, samples), n)
      else take_samples curl os domain port k (samples @ [latency]) n)"

text \<open>One comparison of the sorting network: exchange the samples at \<open>i\<close> and \<open>j\<close> if they are out of order.\<close>

definition exchange :: "nat \<Rightarrow> nat \<Rightarrow> int list \<Rightarrow> int list" where
  "exchange i j xs = (if xs ! i > xs ! j then xs[i := xs ! j, j := xs ! i] else xs)"

definition FP_LATENCY_SAMPLE_COUNT :: nat where "FP_LATENCY_SAMPLE_COUNT = 3"

definition measure_latency ::
    "curl_os \<Rightarrow> net_os \<Rightarrow> string \<Rightarrow> nat \<Rightarrow> nat \<Rightarrow> net \<Rightarrow> (int \<times> int) \<times> net" where
  "measure_latency curl os domain port sample_total n =
     (if sample_total \<noteq> 1 \<and> sample_total \<noteq> FP_LATENCY_SAMPLE_COUNT then ((fail, -1), n)
      else (case take_samples curl os domain port sample_total [] n of ((result, samples), n) \<Rightarrow>
        if result \<noteq> 0 then ((result, -1), n)
        else if sample_total = FP_LATENCY_SAMPLE_COUNT
        then ((ok, exchange 0 1 (exchange 1 2 (exchange 0 1 samples)) ! 1), n)
        else ((ok, samples ! 0), n)))"

text \<open>The state of a test: the report, the events so far and the surroundings.\<close>

record test_state =
  report :: fp_test_report
  events :: "fp_test_progress_event list"
  net :: net

definition emit_event :: "fp_test_progress_event \<Rightarrow> test_state \<Rightarrow> test_state" where
  "emit_event e st = st\<lparr>events := events st @ [e]\<rparr>"

definition update_site ::
    "nat \<Rightarrow> (fp_test_site_result \<Rightarrow> fp_test_site_result) \<Rightarrow> test_state \<Rightarrow> test_state" where
  "update_site i f st = st\<lparr>report := (report st)\<lparr>sites := (sites (report st))[i := f (sites (report st) ! i)]\<rparr>\<rparr>"

definition update_speed ::
    "nat \<Rightarrow> (fp_test_site_result \<Rightarrow> fp_test_site_result) \<Rightarrow> test_state \<Rightarrow> test_state" where
  "update_speed i f st = st\<lparr>report := (report st)\<lparr>speeds := (speeds (report st))[i := f (speeds (report st) ! i)]\<rparr>\<rparr>"

definition check_cancelled :: "net_os \<Rightarrow> test_state \<Rightarrow> bool \<times> test_state" where
  "check_cancelled os st = (let (stop, n) = cancelled os (net st) in (stop, st\<lparr>net := n\<rparr>))"

definition set_cancelled :: "test_state \<Rightarrow> test_state" where
  "set_cancelled st = st\<lparr>report := (report st)\<lparr>was_cancelled := True\<rparr>\<rparr>"

text \<open>One pass of \<open>run_site_tests\<close>: whether the loop goes on.\<close>

definition test_site :: "curl_os \<Rightarrow> net_os \<Rightarrow> fp_test_mode \<Rightarrow> nat \<Rightarrow> test_state \<Rightarrow> bool \<times> test_state" where
  "test_site curl os m index st =
     (let (stop, st) = check_cancelled os st in
      if stop then (False, update_site index (\<lambda>s. s\<lparr>site_state := FP_TEST_SITE_CANCELLED\<rparr>) (set_cancelled st))
      else
        let st = update_site index (\<lambda>s. s\<lparr>site_state := FP_TEST_SITE_RUNNING\<rparr>) st;
            site = sites (report st) ! index;
            event = zero_event\<lparr>ev_phase := (if m = FP_TEST_MODE_LATENCY then FP_TEST_PHASE_LATENCY else FP_TEST_PHASE_CONNECTIVITY),
              ev_index := index + 1, ev_total := length (sites (report st)), ev_state := FP_TEST_SITE_RUNNING,
              ev_name := snprintf 32 (site_name site), ev_domain := snprintf 64 (site_domain site)\<rparr>;
            st = emit_event event st;
            t = SITE_TARGETS ! index;
            ((result, latency), n) = measure_latency curl os (target_domain t) (target_port t)
              (if m = FP_TEST_MODE_LATENCY then 3 else 1) (net st);
            st = st\<lparr>net := n\<rparr>;
            (stop, st) = (if result = -2 then (True, st) else check_cancelled os st) in
        if stop then (False, update_site index (\<lambda>s. s\<lparr>site_state := FP_TEST_SITE_CANCELLED\<rparr>) (set_cancelled st))
        else if result = 0 then
          let st = update_site index (\<lambda>s. s\<lparr>site_state := FP_TEST_SITE_OK, latency_ms := latency\<rparr>) st;
              st = st\<lparr>report := (report st)\<lparr>sites_passed := sites_passed (report st) + 1\<rparr>\<rparr> in
          (True, emit_event (event\<lparr>ev_state := FP_TEST_SITE_OK, ev_latency_ms := latency\<rparr>) st)
        else
          let st = update_site index (\<lambda>s. s\<lparr>site_state := FP_TEST_SITE_FAIL\<rparr>) st;
              st = st\<lparr>report := (report st)\<lparr>failures := append_failed (failures (report st)) (site_domain site)\<rparr>\<rparr> in
          (True, emit_event (event\<lparr>ev_state := FP_TEST_SITE_FAIL, ev_latency_ms := -1\<rparr>) st))"

text \<open>The loop over the indices that are left.\<close>

fun run_site_tests :: "curl_os \<Rightarrow> net_os \<Rightarrow> fp_test_mode \<Rightarrow> nat list \<Rightarrow> test_state \<Rightarrow> int \<times> test_state" where
  "run_site_tests curl os m [] st = (ok, st)"
| "run_site_tests curl os m (i # is) st =
     (let (continue, st) = test_site curl os m i st in
      if \<not> continue then (fail, st) else run_site_tests curl os m is st)"

definition test_speed :: "net_os \<Rightarrow> nat \<Rightarrow> test_state \<Rightarrow> bool \<times> test_state" where
  "test_speed os index st =
     (let (stop, st) = check_cancelled os st in
      if stop then (False, update_speed index (\<lambda>s. s\<lparr>site_state := FP_TEST_SITE_CANCELLED\<rparr>) (set_cancelled st))
      else
        let st = update_speed index (\<lambda>s. s\<lparr>site_state := FP_TEST_SITE_RUNNING\<rparr>) st;
            site = speeds (report st) ! index;
            event = zero_event\<lparr>ev_phase := FP_TEST_PHASE_SPEED, ev_index := index + 1,
              ev_total := length (speeds (report st)), ev_state := FP_TEST_SITE_RUNNING,
              ev_name := snprintf 32 (site_name site), ev_domain := snprintf 64 (site_domain site)\<rparr>;
            st = emit_event event st;
            t = SPEED_TARGETS ! index;
            ((result, bytes, speed, progress), n) = measure_speed os t (net st);
            st = st\<lparr>net := n, events := events st @ map (\<lambda>(b, v).
              event\<lparr>ev_name := snprintf 32 (speed_name t), ev_domain := snprintf 64 (speed_host t),
                ev_bytes := b, ev_speed_bps := v\<rparr>) progress\<rparr>;
            (stop, st) = (if result = -2 then (True, st) else check_cancelled os st);
            measured = (\<lambda>s. s\<lparr>bytes_downloaded := bytes, speed_bps := speed\<rparr>) in
        if stop then (False, update_speed index (\<lambda>s. measured (s\<lparr>site_state := FP_TEST_SITE_CANCELLED\<rparr>)) (set_cancelled st))
        else if result = 0 then
          let st = update_speed index (\<lambda>s. measured (s\<lparr>site_state := FP_TEST_SITE_OK\<rparr>)) st;
              st = st\<lparr>report := (report st)\<lparr>speed_passed := speed_passed (report st) + 1,
                best_speed_bps := (if speed > best_speed_bps (report st) then speed else best_speed_bps (report st))\<rparr>\<rparr> in
          (True, emit_event (event\<lparr>ev_state := FP_TEST_SITE_OK, ev_bytes := bytes, ev_speed_bps := speed\<rparr>) st)
        else
          let st = update_speed index (\<lambda>s. measured (s\<lparr>site_state := FP_TEST_SITE_FAIL\<rparr>)) st;
              st = st\<lparr>report := (report st)\<lparr>failures := append_failed (failures (report st)) (site_domain site)\<rparr>\<rparr> in
          (True, emit_event (event\<lparr>ev_state := FP_TEST_SITE_FAIL, ev_bytes := bytes, ev_speed_bps := speed\<rparr>) st))"

fun run_speed_tests :: "net_os \<Rightarrow> nat list \<Rightarrow> test_state \<Rightarrow> int \<times> test_state" where
  "run_speed_tests os [] st = (ok, st)"
| "run_speed_tests os (i # is) st =
     (let (continue, st) = test_speed os i st in
      if \<not> continue then (fail, st) else run_speed_tests os is st)"

text \<open>The daemon's port answers.\<close>

definition listener_ready :: "net_os \<Rightarrow> net \<Rightarrow> int \<times> net" where
  "listener_ready os n =
     (let (d, n) = next_dial os n in
      (if \<not> socket_ok d \<or> fst (test_connect_with_timeout d) \<noteq> ok then fail else ok, n))"

definition empty_report :: "fp_test_mode \<Rightarrow> fp_test_report" where
  "empty_report m = \<lparr>mode = m, listener_ok = False, was_cancelled = False,
     sites = map (\<lambda>t. fill_site (target_name t) (target_domain t)) SITE_TARGETS, sites_passed = 0,
     speeds = map (\<lambda>t. fill_site (speed_name t) (speed_host t)) SPEED_TARGETS, speed_passed = 0,
     best_speed_bps = 0, failures = ''''\<rparr>"

text \<open>
  \<open>fp_test_run\<close>: the counts of targets never exceed the arrays (lemma below), so the early return for that case
  does not arise.
\<close>

definition fp_test_run ::
    "'k os \<Rightarrow> curl_os \<Rightarrow> net_os \<Rightarrow> fp_test_mode \<Rightarrow> 'k world \<Rightarrow> net \<Rightarrow> (int \<times> test_state) \<times> 'k world" where
  "fp_test_run os curl nos m w n =
     (let preflight = zero_event\<lparr>ev_phase := FP_TEST_PHASE_PREFLIGHT, ev_total := 1, ev_index := 1, ev_name := ''preflight''\<rparr>;
          st = emit_event preflight \<lparr>report = empty_report m, events = [], net = n\<rparr>;
          ((loaded, config), w) = fp_config_load os empty_config w;
          (enabled, w) = (if loaded = ok then fp_firewall_is_enabled os config w else (False, w));
          (listening, n) = (if enabled then listener_ready nos n else (fail, n));
          st = st\<lparr>net := n\<rparr> in
      if listening \<noteq> ok
      then ((fail, emit_event (preflight\<lparr>ev_phase := FP_TEST_PHASE_DONE, ev_state := FP_TEST_SITE_FAIL\<rparr>) st), w)
      else
        let st = st\<lparr>report := (report st)\<lparr>listener_ok := True\<rparr>\<rparr>;
            st = (if m = FP_TEST_MODE_SPEED then snd (run_speed_tests nos [0..<length (speeds (report st))] st)
                  else snd (run_site_tests curl nos m [0..<length (sites (report st))] st));
            passed = (\<not> was_cancelled (report st)
              \<and> (if m = FP_TEST_MODE_SPEED then speed_passed (report st) = length (speeds (report st))
                 else sites_passed (report st) = length (sites (report st))));
            event = zero_event\<lparr>ev_phase := FP_TEST_PHASE_DONE,
              ev_state := (if was_cancelled (report st) then FP_TEST_SITE_CANCELLED
                           else if passed then FP_TEST_SITE_OK else FP_TEST_SITE_FAIL)\<rparr> in
        ((if passed then ok else fail, emit_event event st), w))"

section \<open>The median\<close>

lemma take_samples_length:
  "take_samples curl os domain port k samples n = ((ok, samples'), n') \<Longrightarrow> length samples' = length samples + k"
  by (induction k arbitrary: samples n) (auto split: prod.splits if_splits)

lemma exchange_sorts:
  assumes "length xs = 3"
  shows "exchange 0 1 (exchange 1 2 (exchange 0 1 xs)) = sort xs"
proof -
  obtain a b c where "xs = [a, b, c]" using assms by (auto simp: length_Suc_conv numeral_3_eq_3)
  then show ?thesis by (auto simp: exchange_def)
qed

text \<open>
  C33: The three compare-and-exchange steps of the latency test sort: with three samples the reported
  latency is the median of what the probes measured, the middle one of the sorted samples.
\<close>

theorem latency_is_median:
  assumes "take_samples curl os domain port FP_LATENCY_SAMPLE_COUNT [] n = ((ok, samples), n')"
  shows "length samples = 3
    \<and> measure_latency curl os domain port FP_LATENCY_SAMPLE_COUNT n = ((ok, sort samples ! 1), n')"
proof -
  have l: "length samples = 3" using take_samples_length [OF assms] by (simp add: FP_LATENCY_SAMPLE_COUNT_def)
  from exchange_sorts [OF l] assms l show ?thesis by (simp add: measure_latency_def)
qed

section \<open>The report\<close>

definition list_text :: "string list \<Rightarrow> string" where
  "list_text names = (case names of [] \<Rightarrow> [] | d # ds \<Rightarrow> d @ concat (map (\<lambda>s. '', '' @ s) ds))"

lemma list_text_snoc: "list_text (ds @ [d]) = (if ds = [] then d else list_text ds @ '', '' @ d)"
  by (auto simp: list_text_def split: list.splits)

lemma list_text_empty: "[] \<notin> set ds \<Longrightarrow> list_text ds = [] \<longleftrightarrow> ds = []"
  by (auto simp: list_text_def split: list.splits)

lemma list_text_length: "length (list_text ds) \<le> sum_list (map (\<lambda>d. length d + 2) ds)"
proof -
  have c: "length (concat (map ((@) '', '') ds)) = sum_list (map (\<lambda>d. length d + 2) ds)" for ds :: "string list"
    by (induction ds) auto
  show ?thesis by (cases ds) (simp_all add: list_text_def c)
qed

lemma append_failed_list:
  assumes "[] \<notin> set ds" "length (list_text (ds @ [d])) < FP_TEST_FAILURES_SIZE"
  shows "append_failed (list_text ds) d = list_text (ds @ [d])"
proof (cases "ds = []")
  case True
  with assms(2) show ?thesis by (simp add: append_failed_def list_text_def)
next
  case False
  then have "list_text ds \<noteq> []" using list_text_empty [OF assms(1)] by simp
  with assms(2) False show ?thesis by (simp add: append_failed_def list_text_snoc)
qed

definition in_state :: "fp_test_site_state \<Rightarrow> fp_test_site_result list \<Rightarrow> fp_test_site_result list" where
  "in_state s xs = filter (\<lambda>x. site_state x = s) xs"

lemma in_state_simps [simp]:
  "in_state s [] = []" "in_state s (xs @ ys) = in_state s xs @ in_state s ys"
  "in_state s (x # xs) = (if site_state x = s then [x] else []) @ in_state s xs"
  by (simp_all add: in_state_def)

lemma in_state_none: "\<forall>x \<in> set xs. site_state x = t \<Longrightarrow> s \<noteq> t \<Longrightarrow> in_state s xs = []"
  by (simp add: in_state_def)

definition failed_text :: "fp_test_site_result list \<Rightarrow> string" where
  "failed_text xs = list_text (map site_domain (in_state FP_TEST_SITE_FAIL xs))"

text \<open>
  The entries of a run: named, and short enough for the buffer of failures. After \<open>k\<close> passes the
  first \<open>k\<close> are settled and the others pending; a cancelled run leaves one more entry marked.
\<close>

definition fits :: "fp_test_site_result list \<Rightarrow> bool" where
  "fits xs \<longleftrightarrow> (\<forall>x \<in> set xs. site_domain x \<noteq> []) \<and> sum_list (map (\<lambda>x. length (site_domain x) + 2) xs) < FP_TEST_FAILURES_SIZE"

definition done_states :: "fp_test_site_state set" where
  "done_states = {FP_TEST_SITE_OK, FP_TEST_SITE_FAIL}"

definition settled :: "fp_test_site_result list \<Rightarrow> nat \<Rightarrow> nat \<Rightarrow> string \<Rightarrow> bool" where
  "settled xs k passed text \<longleftrightarrow> k \<le> length xs
     \<and> (\<forall>x \<in> set (take k xs). site_state x \<in> done_states)
     \<and> (\<forall>x \<in> set (drop k xs). site_state x = FP_TEST_SITE_PENDING)
     \<and> passed = length (in_state FP_TEST_SITE_OK xs) \<and> text = failed_text xs"

definition stopped :: "fp_test_site_result list \<Rightarrow> nat \<Rightarrow> nat \<Rightarrow> string \<Rightarrow> bool" where
  "stopped xs k passed text \<longleftrightarrow> k < length xs
     \<and> (\<forall>x \<in> set (take k xs). site_state x \<in> done_states)
     \<and> site_state (xs ! k) = FP_TEST_SITE_CANCELLED
     \<and> (\<forall>x \<in> set (drop (Suc k) xs). site_state x = FP_TEST_SITE_PENDING)
     \<and> passed = length (in_state FP_TEST_SITE_OK xs) \<and> text = failed_text xs"

lemma fits_fail:
  assumes "fits xs" and "k < length xs"
  shows "append_failed (list_text (map site_domain (in_state FP_TEST_SITE_FAIL (take k xs)))) (site_domain (xs ! k))
      = list_text (map site_domain (in_state FP_TEST_SITE_FAIL (take k xs)) @ [site_domain (xs ! k)])"
proof (rule append_failed_list)
  let ?ds = "map site_domain (in_state FP_TEST_SITE_FAIL (take k xs))"
  show "[] \<notin> set ?ds" using assms(1) by (fastforce simp: fits_def in_state_def dest: in_set_takeD)
  have q: "sum_list (map (\<lambda>x. length (site_domain x) + 2) (in_state FP_TEST_SITE_FAIL ys))
      \<le> sum_list (map (\<lambda>x. length (site_domain x) + 2) ys)" for ys by (induction ys) auto
  have "length (list_text (?ds @ [site_domain (xs ! k)]))
      \<le> sum_list (map (\<lambda>x. length (site_domain x) + 2) (take (Suc k) xs))"
    using list_text_length [of "?ds @ [site_domain (xs ! k)]"] assms(2) q [of "take k xs"]
    by (simp add: take_Suc_conv_app_nth comp_def)
  also have "\<dots> \<le> sum_list (map (\<lambda>x. length (site_domain x) + 2) (take (Suc k) xs @ drop (Suc k) xs))"
    unfolding map_append sum_list_append by simp
  also have "\<dots> < FP_TEST_FAILURES_SIZE" using assms(1) by (simp add: fits_def)
  finally show "length (list_text (?ds @ [site_domain (xs ! k)])) < FP_TEST_FAILURES_SIZE" .
qed

lemma settled_split:
  assumes "settled xs k passed text" and "k < length xs" and "site_domain y = site_domain (xs ! k)"
  shows "take k (xs[k := y]) = take k xs" "drop (Suc k) (xs[k := y]) = drop (Suc k) xs"
    and "site_state y \<noteq> s \<Longrightarrow> s \<noteq> FP_TEST_SITE_PENDING \<Longrightarrow> in_state s (xs[k := y]) = in_state s xs"
    and "site_state y = s \<Longrightarrow> s \<noteq> FP_TEST_SITE_PENDING \<Longrightarrow> in_state s (xs[k := y]) = in_state s xs @ [y]"
    and "s \<noteq> FP_TEST_SITE_PENDING \<Longrightarrow> in_state s (take k xs) = in_state s xs"
proof -
  let ?a = "take k xs" and ?b = "drop (Suc k) xs"
  have xs: "xs = ?a @ xs ! k # ?b" and ys: "xs[k := y] = ?a @ y # ?b"
    using assms(2) by (simp_all add: id_take_nth_drop upd_conv_take_nth_drop)
  have p: "\<forall>x \<in> set (xs ! k # ?b). site_state x = FP_TEST_SITE_PENDING"
    using assms(1,2) by (simp add: settled_def Cons_nth_drop_Suc)
  have b: "in_state s (xs ! k # ?b) = []" "in_state s ?b = []" if "s \<noteq> FP_TEST_SITE_PENDING"
    using p that by (auto intro!: in_state_none)
  have x: "in_state s xs = in_state s ?a" if "s \<noteq> FP_TEST_SITE_PENDING"
    by (subst xs) (simp only: in_state_simps(2) b(1) [OF that] append_Nil2)
  show "take k (xs[k := y]) = take k xs" "drop (Suc k) (xs[k := y]) = drop (Suc k) xs" by simp_all
  show "in_state s (take k xs) = in_state s xs" if "s \<noteq> FP_TEST_SITE_PENDING" using x [OF that] by simp
  show "in_state s (xs[k := y]) = in_state s xs" if "site_state y \<noteq> s" "s \<noteq> FP_TEST_SITE_PENDING"
    unfolding ys x [OF that(2)] using that b(2) by simp
  show "in_state s (xs[k := y]) = in_state s xs @ [y]" if "site_state y = s" "s \<noteq> FP_TEST_SITE_PENDING"
    unfolding ys x [OF that(2)] using that b(2) by simp
qed

lemma settled_rest:
  "settled xs k passed text \<Longrightarrow> k < length xs \<Longrightarrow> \<forall>x \<in> set (drop (Suc k) xs). site_state x = FP_TEST_SITE_PENDING"
  by (auto simp: settled_def simp flip: Cons_nth_drop_Suc)

lemma settled_ok:
  assumes "settled xs k passed text" "k < length xs" "site_domain y = site_domain (xs ! k)" "site_state y = FP_TEST_SITE_OK"
  shows "settled (xs[k := y]) (Suc k) (Suc passed) text"
proof -
  note s = settled_split [OF assms(1-3)] settled_rest [OF assms(1,2)]
  have "take (Suc k) (xs[k := y]) = take k xs @ [y]" using assms(2) by (simp add: take_Suc_conv_app_nth)
  with assms s show ?thesis by (auto simp: settled_def failed_text_def done_states_def)
qed

lemma settled_fail:
  assumes "settled xs k passed text" "k < length xs" "site_domain y = site_domain (xs ! k)" "site_state y = FP_TEST_SITE_FAIL"
    and "fits xs"
  shows "settled (xs[k := y]) (Suc k) passed (append_failed text (site_domain (xs ! k)))"
proof -
  note s = settled_split [OF assms(1-3)] settled_rest [OF assms(1,2)]
  have t: "text = list_text (map site_domain (in_state FP_TEST_SITE_FAIL (take k xs)))"
    using assms(1) s(5) by (simp add: settled_def failed_text_def)
  have "take (Suc k) (xs[k := y]) = take k xs @ [y]" using assms(2) by (simp add: take_Suc_conv_app_nth)
  with assms s fits_fail [OF assms(5,2)] show ?thesis
    by (auto simp: settled_def failed_text_def done_states_def t)
qed

lemma settled_cancel:
  assumes "settled xs k passed text" "k < length xs" "site_domain y = site_domain (xs ! k)" "site_state y = FP_TEST_SITE_CANCELLED"
  shows "stopped (xs[k := y]) k passed text"
proof -
  note s = settled_split [OF assms(1-3)] settled_rest [OF assms(1,2)]
  with assms show ?thesis by (auto simp: settled_def stopped_def failed_text_def)
qed

lemma fits_by_domains:
  "fits xs \<longleftrightarrow> (\<forall>d \<in> set (map site_domain xs). d \<noteq> [])
     \<and> sum_list (map (\<lambda>d. length d + 2) (map site_domain xs)) < FP_TEST_FAILURES_SIZE"
  by (simp add: fits_def comp_def)

lemma fits_domains: "map site_domain ys = map site_domain xs \<Longrightarrow> fits ys = fits xs"
  by (simp only: fits_by_domains)

lemma domains_update:
  "k < length xs \<Longrightarrow> site_domain y = site_domain (xs ! k) \<Longrightarrow> map site_domain (xs[k := y]) = map site_domain xs"
  by (metis list_update_id map_update nth_map)

text \<open>What one pass does to the entries of the report that the test at hand is about.\<close>

definition passes :: "fp_test_site_result list \<Rightarrow> bool \<Rightarrow> fp_test_site_result list \<Rightarrow> nat \<Rightarrow> nat \<Rightarrow> string \<Rightarrow> bool \<Rightarrow> bool" where
  "passes xs go xs' k passed text cancelled' \<longleftrightarrow> map site_domain xs' = map site_domain xs \<and> cancelled' = (\<not> go)
     \<and> (if go then settled xs' (Suc k) passed text else stopped xs' k passed text)"

lemma test_site_passes:
  assumes "test_site curl os m k st = (go, st')" and "k < length (sites (report st))" and "fits (sites (report st))"
    and "settled (sites (report st)) k (sites_passed (report st)) (failures (report st))" and "\<not> was_cancelled (report st)"
  shows "passes (sites (report st)) go (sites (report st')) k (sites_passed (report st')) (failures (report st')) (was_cancelled (report st'))"
    and "speeds (report st') = speeds (report st) \<and> listener_ok (report st') = listener_ok (report st) \<and> mode (report st') = mode (report st)"
  using assms(1,2,5)
  by (auto simp: test_site_def Let_def check_cancelled_def update_site_def set_cancelled_def emit_event_def passes_def
      domains_update intro!: settled_ok [OF assms(4)] settled_fail [OF assms(4) _ _ _ assms(3)] settled_cancel [OF assms(4)]
      split: prod.splits if_splits)

lemma test_speed_passes:
  assumes "test_speed os k st = (go, st')" and "k < length (speeds (report st))" and "fits (speeds (report st))"
    and "settled (speeds (report st)) k (speed_passed (report st)) (failures (report st))" and "\<not> was_cancelled (report st)"
  shows "passes (speeds (report st)) go (speeds (report st')) k (speed_passed (report st')) (failures (report st')) (was_cancelled (report st'))"
    and "sites (report st') = sites (report st) \<and> listener_ok (report st') = listener_ok (report st) \<and> mode (report st') = mode (report st)"
  using assms(1,2,5)
  by (auto simp: test_speed_def Let_def check_cancelled_def update_speed_def set_cancelled_def emit_event_def passes_def
      domains_update intro!: settled_ok [OF assms(4)] settled_fail [OF assms(4) _ _ _ assms(3)] settled_cancel [OF assms(4)]
      split: prod.splits if_splits)

text \<open>A whole run over the entries from \<open>k\<close> on.\<close>

definition ended :: "fp_test_site_result list \<Rightarrow> nat \<Rightarrow> string \<Rightarrow> bool \<Rightarrow> bool" where
  "ended xs passed text cancelled' \<longleftrightarrow>
     (if cancelled' then \<exists>k. stopped xs k passed text else settled xs (length xs) passed text)"

lemma run_site_tests_ended:
  assumes "run_site_tests curl os m [k..<length (sites (report st))] st = (r, st')"
    and "k \<le> length (sites (report st))" and "fits (sites (report st))"
    and "settled (sites (report st)) k (sites_passed (report st)) (failures (report st))" and "\<not> was_cancelled (report st)"
  shows "ended (sites (report st')) (sites_passed (report st')) (failures (report st')) (was_cancelled (report st'))
    \<and> map site_domain (sites (report st')) = map site_domain (sites (report st))
    \<and> speeds (report st') = speeds (report st) \<and> listener_ok (report st') = listener_ok (report st) \<and> mode (report st') = mode (report st)"
  using assms
proof (induction "length (sites (report st)) - k" arbitrary: k st)
  case 0
  then show ?case by (simp add: ended_def)
next
  case (Suc d)
  let ?xs = "sites (report st)"
  have k: "k < length ?xs" using Suc.hyps(2) by simp
  obtain go st1 where s: "test_site curl os m k st = (go, st1)" by force
  note p = test_site_passes [OF s k Suc.prems(3,4,5)]
  have m: "map site_domain (sites (report st1)) = map site_domain ?xs" using p(1) by (simp add: passes_def)
  have l: "length (sites (report st1)) = length ?xs" by (rule map_eq_imp_length_eq [OF m])
  have f: "fits (sites (report st1))" using fits_domains [OF m] Suc.prems(3) by simp
  have up: "[k..<length ?xs] = k # [Suc k..<length ?xs]" using k by (rule upt_conv_Cons)
  show ?case
  proof (cases go)
    case False
    with Suc.prems(1) s p show ?thesis by (auto simp: up ended_def passes_def)
  next
    case True
    then have "run_site_tests curl os m [Suc k..<length (sites (report st1))] st1 = (r, st')"
      using Suc.prems(1) s l by (simp add: up)
    moreover have "d = length (sites (report st1)) - Suc k" "Suc k \<le> length (sites (report st1))"
      using Suc.hyps(2) k l by simp_all
    moreover have "settled (sites (report st1)) (Suc k) (sites_passed (report st1)) (failures (report st1))" "\<not> was_cancelled (report st1)"
      using p(1) True by (simp_all add: passes_def)
    ultimately have "ended (sites (report st')) (sites_passed (report st')) (failures (report st')) (was_cancelled (report st'))
      \<and> map site_domain (sites (report st')) = map site_domain (sites (report st1)) \<and> speeds (report st') = speeds (report st1)
      \<and> listener_ok (report st') = listener_ok (report st1) \<and> mode (report st') = mode (report st1)"
      using Suc.hyps(1) [of st1 "Suc k"] f by blast
    with p show ?thesis unfolding passes_def by argo
  qed
qed

lemma run_speed_tests_ended:
  assumes "run_speed_tests os [k..<length (speeds (report st))] st = (r, st')"
    and "k \<le> length (speeds (report st))" and "fits (speeds (report st))"
    and "settled (speeds (report st)) k (speed_passed (report st)) (failures (report st))" and "\<not> was_cancelled (report st)"
  shows "ended (speeds (report st')) (speed_passed (report st')) (failures (report st')) (was_cancelled (report st'))
    \<and> map site_domain (speeds (report st')) = map site_domain (speeds (report st))
    \<and> sites (report st') = sites (report st) \<and> listener_ok (report st') = listener_ok (report st) \<and> mode (report st') = mode (report st)"
  using assms
proof (induction "length (speeds (report st)) - k" arbitrary: k st)
  case 0
  then show ?case by (simp add: ended_def)
next
  case (Suc d)
  let ?xs = "speeds (report st)"
  have k: "k < length ?xs" using Suc.hyps(2) by simp
  obtain go st1 where s: "test_speed os k st = (go, st1)" by force
  note p = test_speed_passes [OF s k Suc.prems(3,4,5)]
  have m: "map site_domain (speeds (report st1)) = map site_domain ?xs" using p(1) by (simp add: passes_def)
  have l: "length (speeds (report st1)) = length ?xs" by (rule map_eq_imp_length_eq [OF m])
  have f: "fits (speeds (report st1))" using fits_domains [OF m] Suc.prems(3) by simp
  have up: "[k..<length ?xs] = k # [Suc k..<length ?xs]" using k by (rule upt_conv_Cons)
  show ?case
  proof (cases go)
    case False
    with Suc.prems(1) s p show ?thesis by (auto simp: up ended_def passes_def)
  next
    case True
    then have "run_speed_tests os [Suc k..<length (speeds (report st1))] st1 = (r, st')"
      using Suc.prems(1) s l by (simp add: up)
    moreover have "d = length (speeds (report st1)) - Suc k" "Suc k \<le> length (speeds (report st1))"
      using Suc.hyps(2) k l by simp_all
    moreover have "settled (speeds (report st1)) (Suc k) (speed_passed (report st1)) (failures (report st1))" "\<not> was_cancelled (report st1)"
      using p(1) True by (simp_all add: passes_def)
    ultimately have "ended (speeds (report st')) (speed_passed (report st')) (failures (report st')) (was_cancelled (report st'))
      \<and> map site_domain (speeds (report st')) = map site_domain (speeds (report st1)) \<and> sites (report st') = sites (report st1)
      \<and> listener_ok (report st') = listener_ok (report st1) \<and> mode (report st') = mode (report st1)"
      using Suc.hyps(1) [of st1 "Suc k"] f by blast
    with p show ?thesis unfolding passes_def by argo
  qed
qed

text \<open>The constant targets: they fill the arrays, are short enough for the fields and the buffer, and start pending.\<close>

lemma targets_fill: "length SITE_TARGETS = FP_TEST_MAX_SITES" "length SPEED_TARGETS = FP_TEST_MAX_SPEED"
  by (simp_all add: SITE_TARGETS_def SPEED_TARGETS_def FP_TEST_MAX_SITES_def FP_TEST_MAX_SPEED_def)

lemma target_domains:
  "map site_domain (sites (empty_report m)) = map target_domain SITE_TARGETS"
  "map site_domain (speeds (empty_report m)) = map speed_host SPEED_TARGETS"
proof -
  have "\<forall>t \<in> set SITE_TARGETS. length (target_domain t) < 64" "\<forall>t \<in> set SPEED_TARGETS. length (speed_host t) < 64"
    by code_simp+
  then show "map site_domain (sites (empty_report m)) = map target_domain SITE_TARGETS"
    "map site_domain (speeds (empty_report m)) = map speed_host SPEED_TARGETS"
    by (simp_all add: empty_report_def fill_site_def)
qed

lemma targets_fit: "fits (sites (empty_report m))" "fits (speeds (empty_report m))"
  unfolding fits_by_domains target_domains by code_simp+

lemma pending_settled:
  assumes "\<And>t. site_state (f t) = FP_TEST_SITE_PENDING"
  shows "settled (map f ts) 0 0 []"
  using assms in_state_none [of "map f ts" FP_TEST_SITE_PENDING]
  by (auto simp: settled_def failed_text_def list_text_def)

lemma empty_settled:
  "settled (sites (empty_report m)) 0 0 []" "settled (speeds (empty_report m)) 0 0 []"
  unfolding empty_report_def fp_test_report.select_convs by (rule pending_settled, simp add: fill_site_def)+

lemma empty_report_sel [simp]:
  "sites_passed (empty_report m) = 0" "speed_passed (empty_report m) = 0" "failures (empty_report m) = []"
  "was_cancelled (empty_report m) = False"
  by (simp_all add: empty_report_def)

definition all_ok :: "fp_test_site_result list \<Rightarrow> bool" where
  "all_ok xs \<longleftrightarrow> (\<forall>x \<in> set xs. site_state x = FP_TEST_SITE_OK)"

lemma passed_all_ok: "length (in_state FP_TEST_SITE_OK xs) = length xs \<longleftrightarrow> all_ok xs"
proof (induction xs)
  case (Cons x xs)
  have "length (in_state FP_TEST_SITE_OK xs) \<le> length xs" by (simp add: in_state_def)
  with Cons show ?case by (auto simp: all_ok_def)
qed (simp add: all_ok_def)

lemma stopped_not_ok: "stopped xs k passed text \<Longrightarrow> \<not> all_ok xs"
  using nth_mem [of k xs] by (force simp: stopped_def all_ok_def)

lemma ended_all_ok:
  assumes "ended xs passed text c"
  shows "\<not> c \<and> passed = length xs \<longleftrightarrow> all_ok xs"
proof (cases c)
  case True
  with assms stopped_not_ok show ?thesis by (auto simp: ended_def)
next
  case False
  with assms show ?thesis by (simp add: ended_def settled_def passed_all_ok)
qed

text \<open>The entries a test in mode \<open>m\<close> is about, and the others.\<close>

definition tested :: "fp_test_mode \<Rightarrow> fp_test_report \<Rightarrow> fp_test_site_result list" where
  "tested m rep = (if m = FP_TEST_MODE_SPEED then speeds rep else sites rep)"

definition untested :: "fp_test_mode \<Rightarrow> fp_test_report \<Rightarrow> fp_test_site_result list" where
  "untested m rep = (if m = FP_TEST_MODE_SPEED then sites rep else speeds rep)"

definition count_passed :: "fp_test_mode \<Rightarrow> fp_test_report \<Rightarrow> nat" where
  "count_passed m rep = (if m = FP_TEST_MODE_SPEED then speed_passed rep else sites_passed rep)"

section \<open>What was measured\<close>

text \<open>
  The plain account of a test, beside the code that fills the report: one entry after the other, ask whether to
  stop, measure, ask again. It gives the results of the entries measured to the end and whether it was stopped.
  Latency, bytes and speed go together, with the values an entry starts with in the places that are not measured.
\<close>

type_synonym measurement = "int \<times> int \<times> nat \<times> rat"

definition site_measure :: "curl_os \<Rightarrow> net_os \<Rightarrow> fp_test_mode \<Rightarrow> test_target \<Rightarrow> net \<Rightarrow> measurement \<times> net" where
  "site_measure curl os m t n =
     (case measure_latency curl os (target_domain t) (target_port t) (if m = FP_TEST_MODE_LATENCY then 3 else 1) n of
        ((result, latency), n) \<Rightarrow> ((result, if result = 0 then latency else -1, 0, 0), n))"

definition speed_measure :: "net_os \<Rightarrow> speed_target \<Rightarrow> net \<Rightarrow> measurement \<times> net" where
  "speed_measure os t n = (case measure_speed os t n of ((result, bytes, speed, _), n) \<Rightarrow> ((result, -1, bytes, speed), n))"

definition attempt :: "('t \<Rightarrow> net \<Rightarrow> measurement \<times> net) \<Rightarrow> net_os \<Rightarrow> 't \<Rightarrow> net \<Rightarrow> measurement option \<times> net" where
  "attempt f os t n =
     (let (stop, n) = cancelled os n in
      if stop then (None, n)
      else let (v, n) = f t n; (stop, n) = (if fst v = -2 then (True, n) else cancelled os n) in
      (if stop then None else Some v, n))"

fun outcomes :: "('t \<Rightarrow> net \<Rightarrow> measurement \<times> net) \<Rightarrow> net_os \<Rightarrow> 't list \<Rightarrow> net \<Rightarrow> measurement list \<times> bool" where
  "outcomes f os [] n = ([], False)"
| "outcomes f os (t # ts) n =
     (case attempt f os t n of
        (None, n) \<Rightarrow> ([], True)
      | (Some v, n) \<Rightarrow> (let (vs, c) = outcomes f os ts n in (v # vs, c)))"

definition test_outcomes :: "curl_os \<Rightarrow> net_os \<Rightarrow> fp_test_mode \<Rightarrow> net \<Rightarrow> measurement list \<times> bool" where
  "test_outcomes curl os m n =
     (if m = FP_TEST_MODE_SPEED then outcomes (speed_measure os) os SPEED_TARGETS n
      else outcomes (site_measure curl os m) os SITE_TARGETS n)"

definition verdict :: "measurement \<Rightarrow> fp_test_site_state" where
  "verdict v = (if fst v = 0 then FP_TEST_SITE_OK else FP_TEST_SITE_FAIL)"

definition shown_values :: "fp_test_site_result \<Rightarrow> int \<times> nat \<times> rat" where
  "shown_values x = (latency_ms x, bytes_downloaded x, speed_bps x)"

text \<open>
  A list of entries shows these results: the entries measured say so and carry the values, and after a stop there is one marked
  and the rest is as it was.
\<close>

definition shows_results :: "fp_test_site_result list \<Rightarrow> measurement list \<Rightarrow> bool \<Rightarrow> bool" where
  "shows_results xs vs c \<longleftrightarrow>
     map site_state xs = map verdict vs
       @ (if c then FP_TEST_SITE_CANCELLED # replicate (length xs - Suc (length vs)) FP_TEST_SITE_PENDING else [])
     \<and> map shown_values (take (length vs) xs) = map snd vs"

lemma shows_nil: "shows_results [] [] False"
  by (simp add: shows_results_def)

lemma shows_cons:
  "site_state y = verdict v \<Longrightarrow> shown_values y = snd v \<Longrightarrow> shows_results ys vs c \<Longrightarrow> shows_results (y # ys) (v # vs) c"
  by (simp add: shows_results_def)

lemma shows_stop:
  assumes "site_state y = FP_TEST_SITE_CANCELLED" and "\<forall>x \<in> set ys. site_state x = FP_TEST_SITE_PENDING"
  shows "shows_results (y # ys) [] True"
proof -
  have "map site_state ys = replicate (length ys) FP_TEST_SITE_PENDING" using assms(2) by (induction ys) auto
  with assms(1) show ?thesis by (simp add: shows_results_def)
qed

text \<open>An entry nobody has touched.\<close>

definition untouched :: "fp_test_site_result \<Rightarrow> bool" where
  "untouched x \<longleftrightarrow> site_state x = FP_TEST_SITE_PENDING \<and> shown_values x = (-1, 0, 0)"

text \<open>What one pass does to the list of entries, given what was measured.\<close>

definition enters :: "fp_test_site_result list \<Rightarrow> nat \<Rightarrow> measurement option \<Rightarrow> fp_test_site_result list \<Rightarrow> bool" where
  "enters xs k x xs' \<longleftrightarrow> (\<exists>y. xs' = xs[k := y] \<and> (case x of None \<Rightarrow> site_state y = FP_TEST_SITE_CANCELLED
     | Some v \<Rightarrow> site_state y = verdict v \<and> shown_values y = snd v))"

lemma enters_shows:
  assumes e: "enters xs k x xs1" and k: "k < length xs" and p: "\<forall>z \<in> set (drop k xs). untouched z"
  shows "length xs1 = length xs" "take k xs1 = take k xs" "\<forall>z \<in> set (drop (Suc k) xs1). untouched z"
    and "x = None \<Longrightarrow> shows_results (drop k xs1) [] True"
    and "x = Some v \<Longrightarrow> length xs2 = length xs1 \<Longrightarrow> take (Suc k) xs2 = take (Suc k) xs1 \<Longrightarrow> shows_results (drop (Suc k) xs2) vs c
      \<Longrightarrow> take k xs2 = take k xs \<and> shows_results (drop k xs2) (v # vs) c"
proof -
  from e obtain y where y: "xs1 = xs[k := y]"
    "case x of None \<Rightarrow> site_state y = FP_TEST_SITE_CANCELLED | Some v \<Rightarrow> site_state y = verdict v \<and> shown_values y = snd v"
    by (auto simp: enters_def)
  show l: "length xs1 = length xs" and t: "take k xs1 = take k xs" by (simp_all add: y(1))
  have "set (drop (Suc k) xs) \<subseteq> set (drop k xs)" by (rule set_drop_subset_set_drop) simp
  with p show u: "\<forall>z \<in> set (drop (Suc k) xs1). untouched z" by (auto simp: y(1))
  have d: "drop k xs1 = y # drop (Suc k) xs1" using k by (simp add: y(1) flip: Cons_nth_drop_Suc)
  show "shows_results (drop k xs1) [] True" if "x = None"
    unfolding d by (rule shows_stop) (use that y(2) u in \<open>auto simp: untouched_def\<close>)
  assume "x = Some v" and l2: "length xs2 = length xs1" and t2: "take (Suc k) xs2 = take (Suc k) xs1"
    and s: "shows_results (drop (Suc k) xs2) vs c"
  have "xs2 ! k = (take (Suc k) xs2) ! k" by simp
  also have "\<dots> = y" unfolding t2 using k by (simp add: y(1))
  finally have "drop k xs2 = y # drop (Suc k) xs2" using k l l2 by (simp flip: Cons_nth_drop_Suc)
  moreover have "take k xs2 = take k (take (Suc k) xs2)" by (simp add: min_def)
  then have "take k xs2 = take k xs" unfolding t2 using t by (simp add: min_def)
  ultimately show "take k xs2 = take k xs \<and> shows_results (drop k xs2) (v # vs) c"
    using s y(2) \<open>x = Some v\<close> by (simp add: shows_cons)
qed

lemma test_site_enters:
  assumes t: "test_site curl os m k st = (go, st')" and a: "attempt (site_measure curl os m) os (SITE_TARGETS ! k) (net st) = (x, n')"
    and k: "k < length (sites (report st))" and u: "untouched (sites (report st) ! k)" and c: "\<not> was_cancelled (report st)"
  shows "go = (x \<noteq> None) \<and> net st' = n' \<and> was_cancelled (report st') = (\<not> go) \<and> best_speed_bps (report st') = best_speed_bps (report st)
    \<and> enters (sites (report st)) k x (sites (report st'))"
proof -
  obtain stop n1 where 1: "cancelled os (net st) = (stop, n1)" by force
  obtain result latency n2 where 2: "measure_latency curl os (target_domain (SITE_TARGETS ! k)) (target_port (SITE_TARGETS ! k))
      (if m = FP_TEST_MODE_LATENCY then 3 else 1) n1 = ((result, latency), n2)" by (metis prod.collapse)
  obtain stop' n3 where 3: "(if result = -2 then (True, n2) else cancelled os n2) = (stop', n3)" by force
  have x: "x = (if stop \<or> stop' then None else Some (result, if result = 0 then latency else -1, 0, 0))" "n' = (if stop then n1 else n3)"
    using a 1 2 3 by (simp_all add: attempt_def site_measure_def Let_def split: if_splits)
  note d = t [unfolded test_site_def, simplified check_cancelled_def update_site_def set_cancelled_def emit_event_def Let_def, simplified]
  show ?thesis
  proof (cases "stop \<or> stop'")
    case True
    with d k 1 2 3 c show ?thesis unfolding x by (auto simp: enters_def split: if_splits)
  next
    case False
    with d k u 1 2 3 c show ?thesis unfolding x
      by (cases "result = -2"; cases "result = 0") (auto simp: enters_def verdict_def untouched_def shown_values_def)
  qed
qed

lemma test_speed_enters:
  assumes t: "test_speed os k st = (go, st')" and a: "attempt (speed_measure os) os (SPEED_TARGETS ! k) (net st) = (x, n')"
    and k: "k < length (speeds (report st))" and u: "untouched (speeds (report st) ! k)" and c: "\<not> was_cancelled (report st)"
  shows "go = (x \<noteq> None) \<and> net st' = n' \<and> was_cancelled (report st') = (\<not> go)
    \<and> best_speed_bps (report st') = (case x of Some (result, _, _, v) \<Rightarrow> if result = 0 then max v (best_speed_bps (report st))
         else best_speed_bps (report st) | None \<Rightarrow> best_speed_bps (report st))
    \<and> enters (speeds (report st)) k x (speeds (report st'))"
proof -
  obtain stop n1 where 1: "cancelled os (net st) = (stop, n1)" by force
  obtain result bytes speed progress n2 where 2: "measure_speed os (SPEED_TARGETS ! k) n1 = ((result, bytes, speed, progress), n2)"
    by (metis prod.collapse)
  obtain stop' n3 where 3: "(if result = -2 then (True, n2) else cancelled os n2) = (stop', n3)" by force
  have x: "x = (if stop \<or> stop' then None else Some (result, -1, bytes, speed))" "n' = (if stop then n1 else n3)"
    using a 1 2 3 by (simp_all add: attempt_def speed_measure_def Let_def split: if_splits)
  note d = t [unfolded test_speed_def, simplified check_cancelled_def update_speed_def set_cancelled_def emit_event_def Let_def, simplified]
  show ?thesis
  proof (cases "stop \<or> stop'")
    case True
    with d k 1 2 3 c show ?thesis unfolding x by (auto simp: enters_def split: if_splits)
  next
    case False
    with d k u 1 2 3 c show ?thesis unfolding x
      by (cases "result = -2"; cases "result = 0") (auto simp: enters_def verdict_def untouched_def shown_values_def max_def)
  qed
qed

text \<open>
  The loops of the two kinds of test differ in what a pass measures, in the list it fills and in what it makes of
  the best speed so far; what a pass promises is the same.
\<close>

locale entry_loop =
  fixes one :: "nat \<Rightarrow> test_state \<Rightarrow> bool \<times> test_state"
    and run :: "nat list \<Rightarrow> test_state \<Rightarrow> int \<times> test_state"
    and entries :: "fp_test_report \<Rightarrow> fp_test_site_result list"
    and targets :: "'t list" and measure :: "'t \<Rightarrow> net \<Rightarrow> measurement \<times> net" and os :: net_os
    and gain :: "measurement \<Rightarrow> rat \<Rightarrow> rat"
  assumes run_simps: "run [] st = (ok, st)"
      "run (i # is) st = (case one i st of (go, st) \<Rightarrow> if \<not> go then (fail, st) else run is st)"
    and one_enters: "one k st = (go, st') \<Longrightarrow> attempt measure os (targets ! k) (net st) = (x, n')
      \<Longrightarrow> k < length (entries (report st)) \<Longrightarrow> untouched (entries (report st) ! k) \<Longrightarrow> \<not> was_cancelled (report st)
      \<Longrightarrow> go = (x \<noteq> None) \<and> net st' = n' \<and> was_cancelled (report st') = (\<not> go)
        \<and> best_speed_bps (report st') = (case x of None \<Rightarrow> best_speed_bps (report st) | Some v \<Rightarrow> gain v (best_speed_bps (report st)))
        \<and> enters (entries (report st)) k x (entries (report st'))"
begin

lemma run_shows:
  assumes "run [k..<length targets] st = (r, st')"
    and "outcomes measure os (drop k targets) (net st) = (vs, c)"
    and "length (entries (report st)) = length targets" and "k \<le> length targets"
    and "\<forall>z \<in> set (drop k (entries (report st))). untouched z" and "\<not> was_cancelled (report st)"
  shows "was_cancelled (report st') = c \<and> best_speed_bps (report st') = fold gain vs (best_speed_bps (report st))
    \<and> length (entries (report st')) = length (entries (report st)) \<and> take k (entries (report st')) = take k (entries (report st))
    \<and> shows_results (drop k (entries (report st'))) vs c"
  using assms
proof (induction "length targets - k" arbitrary: k st vs c)
  case 0
  then show ?case by (simp add: run_simps shows_nil)
next
  case (Suc d)
  let ?xs = "entries (report st)"
  have k: "k < length targets" "k < length ?xs" using Suc.hyps(2) Suc.prems(3) by simp_all
  obtain go st1 where s: "one k st = (go, st1)" by force
  obtain x n1 where a: "attempt measure os (targets ! k) (net st) = (x, n1)" by force
  have "?xs ! k \<in> set (drop k ?xs)" using k by (simp flip: Cons_nth_drop_Suc)
  with Suc.prems(5) have u: "untouched (?xs ! k)" by blast
  note e = one_enters [OF s a k(2) u Suc.prems(6)]
  note E = enters_shows [OF e [THEN conjunct2, THEN conjunct2, THEN conjunct2, THEN conjunct2] k(2) Suc.prems(5)]
  have go: "run [k..<length targets] st = (if \<not> go then (fail, st1) else run [Suc k..<length targets] st1)"
    using k(1) s by (simp add: upt_conv_Cons run_simps)
  have out: "outcomes measure os (drop k targets) (net st) = (case x of None \<Rightarrow> ([], True) | Some v \<Rightarrow>
         (let (vs, c) = outcomes measure os (drop (Suc k) targets) n1 in (v # vs, c)))"
    using a k(1) by (simp flip: Cons_nth_drop_Suc split: option.split)
  show ?case
  proof (cases x)
    case None
    with e E(1,2,4) go out Suc.prems(1,2) show ?thesis by simp
  next
    case (Some v)
    obtain vs' where o: "outcomes measure os (drop (Suc k) targets) (net st1) = (vs', c)" "vs = v # vs'"
      using out Suc.prems(2) Some e by (auto split: prod.splits)
    have "was_cancelled (report st') = c \<and> best_speed_bps (report st') = fold gain vs' (best_speed_bps (report st1))
      \<and> length (entries (report st')) = length (entries (report st1)) \<and> take (Suc k) (entries (report st')) = take (Suc k) (entries (report st1))
      \<and> shows_results (drop (Suc k) (entries (report st'))) vs' c"
      by (rule Suc.hyps(1)) (use Some e go o E(1,3) Suc.prems(1,3) Suc.hyps(2) k in auto)
    moreover from this have "take k (entries (report st')) = take k ?xs \<and> shows_results (drop k (entries (report st'))) (v # vs') c"
      by (intro E(5) [OF Some]) simp_all
    ultimately show ?thesis using E(1) e Some o(2) by simp
  qed
qed

end

interpretation site_loop: entry_loop "test_site curl os m" "run_site_tests curl os m" sites SITE_TARGETS
  "site_measure curl os m" os "\<lambda>v b. b" for curl os m
  by unfold_locales (use test_site_enters [of curl os m] in \<open>auto split: option.split\<close>)

definition best_of :: "measurement \<Rightarrow> rat \<Rightarrow> rat" where
  "best_of v best = (if fst v = 0 then max (snd (snd (snd v))) best else best)"

interpretation speed_loop: entry_loop "test_speed os" "run_speed_tests os" speeds SPEED_TARGETS
  "speed_measure os" os best_of for os
  by unfold_locales (use test_speed_enters [of os] in \<open>auto simp: best_of_def split: option.splits\<close>)

text \<open>What a test that got past its preflight shows.\<close>

lemma fresh_entries: "\<forall>z \<in> set (sites (empty_report m)). untouched z" "\<forall>z \<in> set (speeds (empty_report m)). untouched z"
  by (auto simp: empty_report_def fill_site_def untouched_def shown_values_def)

lemma fold_best_of:
  assumes "length vs \<le> length xs" and "map site_state (take (length vs) xs) = map verdict vs"
    and "map shown_values (take (length vs) xs) = map snd vs"
    and "\<forall>x \<in> set (drop (length vs) xs). site_state x \<noteq> FP_TEST_SITE_OK"
  shows "fold best_of vs b = fold max (map speed_bps (in_state FP_TEST_SITE_OK xs)) b"
  using assms
proof (induction vs arbitrary: xs b)
  case Nil
  then show ?case by (simp add: in_state_def)
next
  case (Cons v vs)
  then obtain y ys where xs: "xs = y # ys" by (cases xs) auto
  have "fold best_of vs c = fold max (map speed_bps (in_state FP_TEST_SITE_OK ys)) c" for c
    by (rule Cons.IH) (use Cons.prems xs in auto)
  moreover have "site_state y = verdict v" "speed_bps y = snd (snd (snd v))"
    using Cons.prems(2,3) by (auto simp: xs shown_values_def prod_eq_iff)
  ultimately show ?case by (simp add: xs best_of_def [of v] verdict_def)
qed

lemma shows_best:
  assumes "shows_results xs vs c"
  shows "fold best_of vs b = fold max (map speed_bps (in_state FP_TEST_SITE_OK xs)) b"
proof (rule fold_best_of)
  let ?t = "if c then FP_TEST_SITE_CANCELLED # replicate (length xs - Suc (length vs)) FP_TEST_SITE_PENDING else []"
  have m: "map site_state xs = map verdict vs @ ?t" using assms by (simp add: shows_results_def)
  from arg_cong [OF m, of length] show "length vs \<le> length xs" by simp
  from arg_cong [OF m, of "take (length vs)"] show "map site_state (take (length vs) xs) = map verdict vs" by (simp add: take_map)
  from arg_cong [OF m, of "drop (length vs)"] have "map site_state (drop (length vs) xs) = ?t" by (simp add: drop_map)
  from arg_cong [OF this, of set] have "site_state ` set (drop (length vs) xs) = set ?t" by simp
  moreover have "FP_TEST_SITE_OK \<notin> set ?t" by auto
  ultimately have "FP_TEST_SITE_OK \<notin> site_state ` set (drop (length vs) xs)" by blast
  then show "\<forall>x \<in> set (drop (length vs) xs). site_state x \<noteq> FP_TEST_SITE_OK" by force
qed (use assms in \<open>simp add: shows_results_def\<close>)

lemma tests_shown:
  assumes "report st0 = (empty_report m)\<lparr>listener_ok := True\<rparr>"
    and "if m = FP_TEST_MODE_SPEED then run_speed_tests nos [0..<length (speeds (report st0))] st0 = (q, st1)
      else run_site_tests curl nos m [0..<length (sites (report st0))] st0 = (q, st1)"
    and "test_outcomes curl nos m (net st0) = (vs, c)"
  shows "was_cancelled (report st1) = c" and "shows_results (tested m (report st1)) vs c"
    and "m = FP_TEST_MODE_SPEED \<Longrightarrow> best_speed_bps (report st1) = fold best_of vs 0"
    and "m \<noteq> FP_TEST_MODE_SPEED \<Longrightarrow> best_speed_bps (report st1) = 0"
proof -
  have l: "length (sites (empty_report m)) = length SITE_TARGETS" "length (speeds (empty_report m)) = length SPEED_TARGETS"
    and b: "best_speed_bps (empty_report k) = 0" for k by (simp_all add: empty_report_def)
  have keep: "fold (\<lambda>_ b. b) us b = b" for us :: "measurement list" and b :: rat by (induction us) auto
  have "was_cancelled (report st1) = c \<and> shows_results (tested m (report st1)) vs c
    \<and> best_speed_bps (report st1) = (if m = FP_TEST_MODE_SPEED then fold best_of vs 0 else 0)"
  proof (cases "m = FP_TEST_MODE_SPEED")
    case True
    then show ?thesis
      using speed_loop.run_shows [where k = 0 and os = nos and st = st0 and r = q and st' = st1 and vs = vs and c = c] assms l fresh_entries(2) [of m]
      by (simp add: test_outcomes_def tested_def b)
  next
    case False
    then show ?thesis
      using site_loop.run_shows [where k = 0 and curl = curl and os = nos and m = m and st = st0 and r = q and st' = st1 and vs = vs and c = c] assms l fresh_entries(1) [of m]
      by (simp add: test_outcomes_def tested_def b keep)
  qed
  then show "was_cancelled (report st1) = c" and "shows_results (tested m (report st1)) vs c"
    and "m = FP_TEST_MODE_SPEED \<Longrightarrow> best_speed_bps (report st1) = fold best_of vs 0"
    and "m \<noteq> FP_TEST_MODE_SPEED \<Longrightarrow> best_speed_bps (report st1) = 0" by simp_all
qed

section \<open>The exact report\<close>

lemma fp_test_run_go:
  assumes "fp_test_run os curl nos m w n = ((r, st), w')"
    and "fp_config_load os empty_config w = ((ok, config), w1)" and "fp_firewall_is_enabled os config w1 = (True, w2)"
    and "listener_ready nos n = (ok, n1)"
  obtains st0 st1 q where "report st0 = (empty_report m)\<lparr>listener_ok := True\<rparr>"
    and "net st0 = snd (listener_ready nos n)"
    and "if m = FP_TEST_MODE_SPEED then run_speed_tests nos [0..<length (speeds (report st0))] st0 = (q, st1)
      else run_site_tests curl nos m [0..<length (sites (report st0))] st0 = (q, st1)"
    and "report st = report st1"
    and "r = (if \<not> was_cancelled (report st1) \<and> count_passed m (report st1) = length (tested m (report st1)) then ok else fail)"
    and "ev_state (last (events st)) = (if was_cancelled (report st1) then FP_TEST_SITE_CANCELLED
        else if \<not> was_cancelled (report st1) \<and> count_passed m (report st1) = length (tested m (report st1))
        then FP_TEST_SITE_OK else FP_TEST_SITE_FAIL)"
proof -
  define preflight where "preflight = zero_event\<lparr>ev_phase := FP_TEST_PHASE_PREFLIGHT, ev_total := 1, ev_index := 1, ev_name := ''preflight''\<rparr>"
  define st0 where "st0 = \<lparr>report = (empty_report m)\<lparr>listener_ok := True\<rparr>, events = [preflight], net = n1\<rparr>"
  define x where "x = (if m = FP_TEST_MODE_SPEED then run_speed_tests nos [0..<length (speeds (report st0))] st0
    else run_site_tests curl nos m [0..<length (sites (report st0))] st0)"
  obtain q st1 where x: "x = (q, st1)" by force
  have "fp_test_run os curl nos m w n = (let st = snd x;
      passed = (\<not> was_cancelled (report st) \<and> count_passed m (report st) = length (tested m (report st)));
      event = zero_event\<lparr>ev_phase := FP_TEST_PHASE_DONE,
        ev_state := (if was_cancelled (report st) then FP_TEST_SITE_CANCELLED
                     else if passed then FP_TEST_SITE_OK else FP_TEST_SITE_FAIL)\<rparr> in
    ((if passed then ok else fail, emit_event event st), w2))"
    using assms(2-4) by (simp add: fp_test_run_def Let_def emit_event_def x_def st0_def count_passed_def tested_def preflight_def)
  with assms(1) x have "r = (if \<not> was_cancelled (report st1) \<and> count_passed m (report st1) = length (tested m (report st1)) then ok else fail)"
    and "report st = report st1"
    and "ev_state (last (events st)) = (if was_cancelled (report st1) then FP_TEST_SITE_CANCELLED
        else if \<not> was_cancelled (report st1) \<and> count_passed m (report st1) = length (tested m (report st1))
        then FP_TEST_SITE_OK else FP_TEST_SITE_FAIL)"
    by (auto simp: Let_def emit_event_def)
  then show ?thesis using that [of st0 q st1] x assms(4) by (simp add: st0_def x_def split: if_splits)
qed

lemma fp_test_run_past_preflight:
  assumes "fp_test_run os curl nos m w n = ((r, st), w')" and "listener_ok (report st)"
  obtains st0 st1 q where "report st0 = (empty_report m)\<lparr>listener_ok := True\<rparr>"
    and "net st0 = snd (listener_ready nos n)"
    and "if m = FP_TEST_MODE_SPEED then run_speed_tests nos [0..<length (speeds (report st0))] st0 = (q, st1)
      else run_site_tests curl nos m [0..<length (sites (report st0))] st0 = (q, st1)"
    and "report st = report st1"
    and "r = (if \<not> was_cancelled (report st1) \<and> count_passed m (report st1) = length (tested m (report st1)) then ok else fail)"
    and "ev_state (last (events st)) = (if was_cancelled (report st1) then FP_TEST_SITE_CANCELLED
        else if \<not> was_cancelled (report st1) \<and> count_passed m (report st1) = length (tested m (report st1))
        then FP_TEST_SITE_OK else FP_TEST_SITE_FAIL)"
proof -
  obtain c config w1 where 1: "fp_config_load os empty_config w = ((c, config), w1)" by (metis prod.collapse)
  obtain b w2 where 2: "(if c = ok then fp_firewall_is_enabled os config w1 else (False, w1)) = (b, w2)" by force
  obtain l n1 where 3: "(if b then listener_ready nos n else (fail, n)) = (l, n1)" by force
  have "l = ok"
  proof (rule ccontr)
    assume "l \<noteq> ok"
    then have "\<not> listener_ok (report st)"
      using assms(1) 1 2 3 by (auto simp: fp_test_run_def Let_def emit_event_def empty_report_def)
    with assms(2) show False by simp
  qed
  then have c: "c = ok" "b" "listener_ready nos n = (ok, n1)" using 2 3 by (auto split: if_splits)
  then have 2: "fp_firewall_is_enabled os config w1 = (True, w2)" using 2 by simp
  show ?thesis by (rule fp_test_run_go [OF assms(1) 1 [unfolded c(1)] 2 c(3)]) (rule that)
qed

text \<open>
  C32: The report of a test that got past its preflight tells exactly what happened. Beside it stands the plain account of what was
  measured (\<open>test_outcomes\<close>: entry after entry, from the listener's check on, with the questions whether to stop): the entries
  measured are marked passed exactly if their measurement returned 0 and failed otherwise, and carry the latency, the bytes
  and the speed that were measured; if the test was cancelled, one entry after them is marked so and the rest is untouched. The
  counter is the number of entries that passed, the text lists the domains of exactly those that failed, in
  order and uncut, the best speed is the greatest of those that passed, the other kind of entries is untouched, the
  result is 0 exactly if all entries passed, and the last event says the same.
\<close>

theorem test_report_exact:
  assumes "fp_test_run os curl nos m w n = ((r, st), w')" and "listener_ok (report st)" and "xs = tested m (report st)"
  shows "map site_domain xs = map site_domain (tested m (empty_report m))
    \<and> (case test_outcomes curl nos m (snd (listener_ready nos n)) of (measured, stop) \<Rightarrow>
         was_cancelled (report st) = stop
         \<and> map site_state xs = map (\<lambda>(result, _). if result = 0 then FP_TEST_SITE_OK else FP_TEST_SITE_FAIL) measured
             @ (if stop then FP_TEST_SITE_CANCELLED # replicate (length xs - Suc (length measured)) FP_TEST_SITE_PENDING else [])
         \<and> map (\<lambda>x. (latency_ms x, bytes_downloaded x, speed_bps x)) (take (length measured) xs) = map snd measured)
    \<and> count_passed m (report st) = length (in_state FP_TEST_SITE_OK xs)
    \<and> failures (report st) = list_text (map site_domain (in_state FP_TEST_SITE_FAIL xs))
    \<and> best_speed_bps (report st) = fold max (map speed_bps (in_state FP_TEST_SITE_OK (speeds (report st)))) 0
    \<and> untested m (report st) = untested m (empty_report m)
    \<and> (r = ok \<longleftrightarrow> all_ok xs)
    \<and> ev_state (last (events st)) = (if was_cancelled (report st) then FP_TEST_SITE_CANCELLED
        else if all_ok xs then FP_TEST_SITE_OK else FP_TEST_SITE_FAIL)"
proof -
  obtain st0 st1 q where st0: "report st0 = (empty_report m)\<lparr>listener_ok := True\<rparr>" "net st0 = snd (listener_ready nos n)"
    and run: "if m = FP_TEST_MODE_SPEED then run_speed_tests nos [0..<length (speeds (report st0))] st0 = (q, st1)
      else run_site_tests curl nos m [0..<length (sites (report st0))] st0 = (q, st1)"
    and fin: "report st = report st1"
      "r = (if \<not> was_cancelled (report st1) \<and> count_passed m (report st1) = length (tested m (report st1)) then ok else fail)"
      "ev_state (last (events st)) = (if was_cancelled (report st1) then FP_TEST_SITE_CANCELLED
        else if \<not> was_cancelled (report st1) \<and> count_passed m (report st1) = length (tested m (report st1))
        then FP_TEST_SITE_OK else FP_TEST_SITE_FAIL)"
    by (rule fp_test_run_past_preflight [OF assms(1,2)])
  have e: "ended (tested m (report st1)) (count_passed m (report st1)) (failures (report st1)) (was_cancelled (report st1))
    \<and> map site_domain (tested m (report st1)) = map site_domain (tested m (empty_report m))
    \<and> untested m (report st1) = untested m (empty_report m)"
    using run run_speed_tests_ended [of nos 0 st0] run_site_tests_ended [of curl nos m 0 st0] targets_fit [of m] empty_settled [of m]
    by (auto simp: st0 tested_def untested_def count_passed_def)
  obtain measured stop where o: "test_outcomes curl nos m (net st0) = (measured, stop)" by force
  note shown = tests_shown [OF st0(1) run o]
  have v: "verdict = (\<lambda>(result, _). if result = 0 then FP_TEST_SITE_OK else FP_TEST_SITE_FAIL)"
    by (rule ext) (simp add: verdict_def split_beta)
  note rows = shown(2) [unfolded shows_results_def v shown_values_def [abs_def]]
  have e1: "ended xs (count_passed m (report st)) (failures (report st)) (was_cancelled (report st))"
    using e assms(3) fin(1) by simp
  note a = ended_all_ok [OF e1]
  have counted: "count_passed m (report st) = length (in_state FP_TEST_SITE_OK xs)"
    "failures (report st) = list_text (map site_domain (in_state FP_TEST_SITE_FAIL xs))"
    using e1 by (auto simp: ended_def settled_def stopped_def failed_text_def split: if_splits)
  have none: "in_state FP_TEST_SITE_OK (speeds (empty_report m)) = []"
    using fresh_entries(2) [of m] by (auto simp: in_state_def filter_empty_conv untouched_def)
  have "best_speed_bps (report st) = fold max (map speed_bps (in_state FP_TEST_SITE_OK (speeds (report st)))) 0"
    using shown(3,4) shows_best [OF shown(2), of 0] e fin(1) by (cases "m = FP_TEST_MODE_SPEED") (auto simp: tested_def untested_def none)
  moreover have "r = ok \<longleftrightarrow> all_ok xs" using a fin(1,2) assms(3) by auto
  moreover have "ev_state (last (events st)) = (if was_cancelled (report st) then FP_TEST_SITE_CANCELLED
      else if all_ok xs then FP_TEST_SITE_OK else FP_TEST_SITE_FAIL)"
    using a fin(1,3) assms(3) by auto
  ultimately show ?thesis using counted e rows shown(1) o fin(1) assms(3) by (simp add: st0(2))
qed

theorem latency_is_median_witness:
  "\<exists>samples n'. measure_latency sample_curl sample_net_os ''github.com'' 443 FP_LATENCY_SAMPLE_COUNT fresh_net
     = ((ok, sort samples ! 1), n') \<and> length samples = 3"
proof -
  have one: "\<exists>l n'. fp_web_probe sample_curl sample_net_os ''github.com'' 443 n = ((ok, l), n')" for n
    using sample_probe_ok by blast
  have "\<exists>samples' n'. take_samples sample_curl sample_net_os ''github.com'' 443 k samples n = ((ok, samples'), n')" for k samples n
  proof (induction k arbitrary: samples n)
    case (Suc k)
    obtain l n1 where "fp_web_probe sample_curl sample_net_os ''github.com'' 443 n = ((ok, l), n1)" using one by blast
    with Suc show ?case by simp
  qed simp
  then obtain samples n' where "take_samples sample_curl sample_net_os ''github.com'' 443 FP_LATENCY_SAMPLE_COUNT [] fresh_net
      = ((ok, samples), n')" by blast
  from latency_is_median [OF this] show ?thesis by blast
qed

lemma sample_run:
  defines "w \<equiv> stored_world\<lparr>nat_tab := nat_tab after_enable\<rparr>"
  obtains r st w' where "fp_test_run working_os sample_curl sample_net_os m w fresh_net = ((r, st), w')" "listener_ok (report st)"
proof -
  obtain r st w' where run: "fp_test_run working_os sample_curl sample_net_os m w fresh_net = ((r, st), w')" by (metis prod.collapse)
  have "stored_config w = Some sample_config" using stored_world_sel(1) by (simp add: w_def stored_config_def)
  then obtain w1 where 1: "fp_config_load working_os empty_config w = ((ok, sample_config), w1)" "nat_tab w1 = nat_tab after_enable"
    using fp_config_load_found [of w sample_config working_os empty_config]
      fp_config_load_stored(2) [of working_os empty_config w] by (auto simp: same_kernel_def w_def) (metis prod.collapse)
  obtain b w2 where 2: "fp_firewall_is_enabled working_os sample_config w1 = (b, w2)" by force
  have b2: "b = True" using fp_firewall_is_enabled_exact [OF working_os_exact 2] 1(2) after_enable_view by simp
  obtain l n1 where 3: "listener_ready sample_net_os fresh_net = (l, n1)" by force
  have l: "l = ok" using 3 by (simp add: listener_ready_def next_dial_def sample_net_os_def test_connect_with_timeout_def)
  obtain st0 st1 q where st0: "report st0 = (empty_report m)\<lparr>listener_ok := True\<rparr>"
    and x: "if m = FP_TEST_MODE_SPEED then run_speed_tests sample_net_os [0..<length (speeds (report st0))] st0 = (q, st1)
      else run_site_tests sample_curl sample_net_os m [0..<length (sites (report st0))] st0 = (q, st1)"
    and st: "report st = report st1"
    by (rule fp_test_run_go [OF run 1(1) 2 [unfolded b2] 3 [unfolded l]])
  have "listener_ok (report st1)"
    using x run_site_tests_ended [of sample_curl sample_net_os m 0 st0 q st1] run_speed_tests_ended [of sample_net_os 0 st0 q st1]
      targets_fit [of m] empty_settled [of m] by (simp add: st0 split: if_splits)
  with st have "listener_ok (report st)" by simp
  with run that show ?thesis by blast
qed

theorem test_report_exact_witness:
  "\<exists>r st w'. fp_test_run working_os sample_curl sample_net_os FP_TEST_MODE_LATENCY
       (stored_world\<lparr>nat_tab := nat_tab after_enable\<rparr>) fresh_net = ((r, st), w')
     \<and> listener_ok (report st) \<and> (r = ok \<longleftrightarrow> all_ok (sites (report st)))"
proof -
  obtain r st w' where run: "fp_test_run working_os sample_curl sample_net_os FP_TEST_MODE_LATENCY
      (stored_world\<lparr>nat_tab := nat_tab after_enable\<rparr>) fresh_net = ((r, st), w')" "listener_ok (report st)"
    by (rule sample_run)
  from test_report_exact [OF run refl] run show ?thesis by (auto simp: tested_def)
qed

end
