(* ===== verification/Diagnostic.thy ===== *)
theory Diagnostic
  imports Operations_Correct Download
begin

text \<open>
  The step-by-step diagnosis (\<open>fp_diagnostic_run\<close> in \<open>src/test.c\<close>): nine steps from the
  configuration to a page fetched through the proxy. Each is announced, then passed, failed or
  cancelled; the first that does not pass ends the run. A step either goes on with a value or has
  returned from the whole run with a result (\<open>Inl\<close>).
\<close>

section \<open>Data\<close>

datatype fp_diagnostic_step =
    FP_DIAGNOSTIC_CONFIG | FP_DIAGNOSTIC_DAEMON | FP_DIAGNOSTIC_LISTENER | FP_DIAGNOSTIC_FIREWALL
  | FP_DIAGNOSTIC_PROXY_TCP | FP_DIAGNOSTIC_SOCKS5 | FP_DIAGNOSTIC_DNS | FP_DIAGNOSTIC_SOCKS_CONNECT
  | FP_DIAGNOSTIC_TRANSPARENT | FP_DIAGNOSTIC_DONE

datatype fp_diagnostic_state =
    FP_DIAGNOSTIC_PENDING | FP_DIAGNOSTIC_RUNNING | FP_DIAGNOSTIC_OK | FP_DIAGNOSTIC_FAIL | FP_DIAGNOSTIC_CANCELLED

datatype fp_diagnostic_reason =
    REASON_NONE | REASON_CANCELLED | REASON_CONFIG_MISSING | REASON_CONFIG_INVALID | REASON_DAEMON_STOPPED
  | REASON_DAEMON_CONFIG_MISMATCH | REASON_LISTENER_UNREACHABLE | REASON_FIREWALL_INCOMPLETE
  | REASON_PROXY_UNREACHABLE | REASON_SOCKS_IO | REASON_SOCKS_VERSION | REASON_SOCKS_AUTH | REASON_DNS_FAILED
  | REASON_SOCKS_CONNECT_REJECTED | REASON_TRANSPARENT_FAILED | REASON_INTERNAL

text \<open>The enumeration as an index into the report, and back.\<close>

definition all_steps :: "fp_diagnostic_step list" where
  "all_steps = [FP_DIAGNOSTIC_CONFIG, FP_DIAGNOSTIC_DAEMON, FP_DIAGNOSTIC_LISTENER, FP_DIAGNOSTIC_FIREWALL,
     FP_DIAGNOSTIC_PROXY_TCP, FP_DIAGNOSTIC_SOCKS5, FP_DIAGNOSTIC_DNS, FP_DIAGNOSTIC_SOCKS_CONNECT,
     FP_DIAGNOSTIC_TRANSPARENT]"

text \<open>The steps are numbered in the order of their declaration, and compared by number.\<close>

fun step_number :: "fp_diagnostic_step \<Rightarrow> nat" where
  "step_number FP_DIAGNOSTIC_CONFIG = 0"
| "step_number FP_DIAGNOSTIC_DAEMON = 1"
| "step_number FP_DIAGNOSTIC_LISTENER = 2"
| "step_number FP_DIAGNOSTIC_FIREWALL = 3"
| "step_number FP_DIAGNOSTIC_PROXY_TCP = 4"
| "step_number FP_DIAGNOSTIC_SOCKS5 = 5"
| "step_number FP_DIAGNOSTIC_DNS = 6"
| "step_number FP_DIAGNOSTIC_SOCKS_CONNECT = 7"
| "step_number FP_DIAGNOSTIC_TRANSPARENT = 8"
| "step_number FP_DIAGNOSTIC_DONE = 9"

lemma step_number_inject: "step_number a = step_number b \<Longrightarrow> a = b"
  by (cases a; cases b; simp)

instantiation fp_diagnostic_step :: linorder
begin

definition less_eq_fp_diagnostic_step :: "fp_diagnostic_step \<Rightarrow> fp_diagnostic_step \<Rightarrow> bool" where
  "less_eq_fp_diagnostic_step a b \<longleftrightarrow> step_number a \<le> step_number b"

definition less_fp_diagnostic_step :: "fp_diagnostic_step \<Rightarrow> fp_diagnostic_step \<Rightarrow> bool" where
  "less_fp_diagnostic_step a b \<longleftrightarrow> step_number a < step_number b"

instance
  by intro_classes
    (auto simp: less_eq_fp_diagnostic_step_def less_fp_diagnostic_step_def intro: step_number_inject)

end

definition FP_DIAGNOSTIC_STEP_COUNT :: nat where "FP_DIAGNOSTIC_STEP_COUNT = 9"

record fp_diagnostic_item =
  item_step :: fp_diagnostic_step
  item_state :: fp_diagnostic_state
  item_reason :: fp_diagnostic_reason
  error_code :: int
  detail_code :: int

record fp_diagnostic_report =
  diag_items :: "fp_diagnostic_item list"
  completed :: nat
  success :: bool
  diag_cancelled :: bool

record fp_diagnostic_event =
  event_item :: fp_diagnostic_item
  event_index :: nat
  event_total :: nat

record 'k diag =
  diag_report :: fp_diagnostic_report
  diag_events :: "fp_diagnostic_event list"
  diag_net :: net
  diag_world :: "'k world"

definition ENOENT_CODE :: int where "ENOENT_CODE = 2"
definition ESRCH_CODE :: int where "ESRCH_CODE = 3"
definition EINVAL_CODE :: int where "EINVAL_CODE = 22"
definition EPROTO_CODE :: int where "EPROTO_CODE = 71"
definition ECONNRESET_CODE :: int where "ECONNRESET_CODE = 104"

section \<open>Reporting\<close>

definition diagnostic_emit ::
    "nat \<Rightarrow> fp_diagnostic_state \<Rightarrow> fp_diagnostic_reason \<Rightarrow> int \<Rightarrow> int \<Rightarrow> 'k diag \<Rightarrow> 'k diag" where
  "diagnostic_emit index state reason e detail st =
     (let item = \<lparr>item_step = all_steps ! index, item_state = state, item_reason = reason,
            error_code = e, detail_code = detail\<rparr>;
          rep = (diag_report st)\<lparr>diag_items := (diag_items (diag_report st))[index := item]\<rparr>;
          rep = (if state \<in> {FP_DIAGNOSTIC_OK, FP_DIAGNOSTIC_FAIL, FP_DIAGNOSTIC_CANCELLED}
                 then rep\<lparr>completed := index + 1\<rparr> else rep) in
      st\<lparr>diag_report := rep, diag_events := diag_events st @
        [\<lparr>event_item = item, event_index = index + 1, event_total = FP_DIAGNOSTIC_STEP_COUNT\<rparr>]\<rparr>)"

definition diagnostic_done :: "'k diag \<Rightarrow> 'k diag" where
  "diagnostic_done st =
     (let rep = diag_report st;
          item = \<lparr>item_step = FP_DIAGNOSTIC_DONE,
            item_state = (if diag_cancelled rep then FP_DIAGNOSTIC_CANCELLED
                          else if success rep then FP_DIAGNOSTIC_OK else FP_DIAGNOSTIC_FAIL),
            item_reason = (if diag_cancelled rep then REASON_CANCELLED else REASON_NONE),
            error_code = 0, detail_code = 0\<rparr> in
      st\<lparr>diag_events := diag_events st @
        [\<lparr>event_item = item, event_index = completed rep, event_total = FP_DIAGNOSTIC_STEP_COUNT\<rparr>]\<rparr>)"

definition diag_flag :: "net_os \<Rightarrow> 'k diag \<Rightarrow> bool \<times> 'k diag" where
  "diag_flag nos st = (let (stop, n) = cancelled nos (diag_net st) in (stop, st\<lparr>diag_net := n\<rparr>))"

definition diagnostic_cancel :: "net_os \<Rightarrow> nat \<Rightarrow> 'k diag \<Rightarrow> bool \<times> 'k diag" where
  "diagnostic_cancel nos index st =
     (let (stop, st) = diag_flag nos st in
      if \<not> stop then (False, st)
      else (True, diagnostic_done (diagnostic_emit index FP_DIAGNOSTIC_CANCELLED REASON_CANCELLED 0 0
        (st\<lparr>diag_report := (diag_report st)\<lparr>diag_cancelled := True\<rparr>\<rparr>))))"

type_synonym ('k, 'a) stage = "((int + 'a) \<times> 'k diag) option"

definition diagnostic_fail :: "nat \<Rightarrow> fp_diagnostic_reason \<Rightarrow> int \<Rightarrow> int \<Rightarrow> 'k diag \<Rightarrow> ('k, 'a) stage" where
  "diagnostic_fail index reason e detail st =
     Some (Inl fail, diagnostic_done (diagnostic_emit index FP_DIAGNOSTIC_FAIL reason e detail st))"

definition begin_step :: "nat \<Rightarrow> 'k diag \<Rightarrow> 'k diag" where
  "begin_step index st = diagnostic_emit index FP_DIAGNOSTIC_RUNNING REASON_NONE 0 0 st"

definition pass_step :: "nat \<Rightarrow> 'a \<Rightarrow> 'k diag \<Rightarrow> ('k, 'a) stage" where
  "pass_step index x st = Some (Inr x, diagnostic_emit index FP_DIAGNOSTIC_OK REASON_NONE 0 0 st)"

text \<open>What a failed step does when the failure may be the user's: it is cancelled if the flag is set, failed otherwise.\<close>

definition cancel_or_fail :: "net_os \<Rightarrow> nat \<Rightarrow> fp_diagnostic_reason \<Rightarrow> int \<Rightarrow> int \<Rightarrow> 'k diag \<Rightarrow> ('k, 'a) stage" where
  "cancel_or_fail nos index reason e detail st =
     (let (stop, st) = diagnostic_cancel nos index st in
      if stop then Some (Inl fail, st) else diagnostic_fail index reason e detail st)"

section \<open>Talking to the proxy\<close>

text \<open>Exactly \<open>len\<close> more bytes: the result, whether the stream ended, and the bytes read.\<close>

function read_all_diagnostic :: "byte list \<Rightarrow> nat \<Rightarrow> sock \<Rightarrow> (int \<times> bool \<times> byte list) \<times> sock" where
  "read_all_diagnostic got len s =
     (if len = 0 then ((ok, False, got), s)
      else case sys_recv len s of
          (RecvErr e, s') \<Rightarrow> if e = E_INTR then read_all_diagnostic got len s' else ((fail, False, got), s')
        | (Received bs, s') \<Rightarrow>
            if bs = [] then ((fail, True, got), s')
            else read_all_diagnostic (got @ bs) (len - length bs) s')"
  by pat_completeness auto
termination
  by (relation "measures [\<lambda>(got, len, s). len, \<lambda>(got, len, s). length (rx s)]")
    (auto dest!: sym [of _ "sys_recv _ _"] dest: recv_intr_smaller)

declare read_all_diagnostic.simps [simp del]

text \<open>A failed read leaves \<open>ECONNRESET\<close> if the stream ended, what the system call left otherwise.\<close>

definition read_errno :: "test_dial \<Rightarrow> bool \<Rightarrow> int" where
  "read_errno d ended = (if ended then ECONNRESET_CODE else errno_left d)"

text \<open>\<open>diagnostic_proxy_tcp\<close>: the result (a connection, or not) and \<open>errno\<close> of a failure.\<close>

definition diagnostic_proxy_tcp :: "test_dial \<Rightarrow> int \<times> int" where
  "diagnostic_proxy_tcp d =
     (if \<not> socket_ok d then (fail, errno_left d)
      else case test_connect_with_timeout d of (r, e) \<Rightarrow>
        if r \<noteq> ok then (fail, e)
        else if test_set_socket_timeouts d \<noteq> ok then (fail, errno_left d) else (ok, 0))"

text \<open>The reason, and the two codes as they stand afterwards.\<close>

definition diagnostic_socks_handshake ::
    "test_dial \<Rightarrow> sock \<Rightarrow> int \<Rightarrow> int \<Rightarrow> (fp_diagnostic_reason \<times> int \<times> int) \<times> sock" where
  "diagnostic_socks_handshake d s e detail =
     (let (sent, s) = write_all [5, 1, 0] s in
      if sent \<noteq> ok then ((REASON_SOCKS_IO, errno_left d, detail), s)
      else (case read_all_diagnostic [] 2 s of ((r, ended, response), s) \<Rightarrow>
        if r \<noteq> ok then ((REASON_SOCKS_IO, read_errno d ended, detail), s)
        else if response ! 0 \<noteq> 5 then ((REASON_SOCKS_VERSION, e, uint (response ! 0)), s)
        else if response ! 1 \<noteq> 0 then ((REASON_SOCKS_AUTH, e, uint (response ! 1)), s)
        else ((REASON_NONE, e, detail), s)))"

definition diagnostic_socks_connect ::
    "net_os \<Rightarrow> ip \<times> port \<Rightarrow> int \<Rightarrow> int \<Rightarrow> net \<Rightarrow> ((fp_diagnostic_reason \<times> int \<times> int) \<times> net) option" where
  "diagnostic_socks_connect nos destination e detail n =
     (let (d, n) = next_dial nos n; (connected, errno) = diagnostic_proxy_tcp d in
      if connected \<noteq> ok then Some ((REASON_PROXY_UNREACHABLE, errno, detail), n)
      else (case diagnostic_socks_handshake d (peer d) e detail of ((reason, e, detail), s) \<Rightarrow>
        if reason \<noteq> REASON_NONE then Some ((reason, e, detail), n)
        else let (stop, n) = cancelled nos n in
        if stop then Some ((REASON_CANCELLED, e, detail), n)
        else let (sent, s) = write_all (connect_request (fst destination) (snd destination)) s in
        if sent \<noteq> ok then Some ((REASON_SOCKS_IO, errno_left d, detail), n)
        else (case read_all_diagnostic [] 2 s of ((r, ended, response), s) \<Rightarrow>
          if r \<noteq> ok then Some ((REASON_SOCKS_IO, read_errno d ended, detail), n)
          else if response ! 0 \<noteq> 5 then Some ((REASON_SOCKS_VERSION, e, uint (response ! 0)), n)
          else if response ! 1 \<noteq> 0 then Some ((REASON_SOCKS_CONNECT_REJECTED, e, uint (response ! 1)), n)
          else do {
            (drained, s) \<leftarrow> fp_socks5_drain_bind s;
            if drained \<noteq> ok then Some ((REASON_SOCKS_IO, errno_left d, detail), n)
            else Some ((REASON_NONE, e, detail), n) })))"

text \<open>The loop over the addresses of the test host: the last reason, its codes, and the address it stands for.\<close>

fun connect_any ::
    "net_os \<Rightarrow> (ip \<times> port) list \<Rightarrow> fp_diagnostic_reason \<times> int \<times> int \<times> (ip \<times> port) \<Rightarrow> net \<Rightarrow>
     ((fp_diagnostic_reason \<times> int \<times> int \<times> (ip \<times> port)) \<times> net) option" where
  "connect_any nos [] found n = Some (found, n)"
| "connect_any nos (a # as) found n = do {
     ((reason, e, detail), n) \<leftarrow> diagnostic_socks_connect nos a 0 0 n;
     let (stop, n) = (if reason = REASON_NONE then (True, n) else cancelled nos n);
     if stop then Some ((reason, e, detail, a), n) else connect_any nos as (reason, e, detail, a) n }"

definition transparent_request :: string where
  "transparent_request = ''GET / HTTP/1.0'' @ crlf @ ''Host: github.com'' @ crlf @ ''Connection: close'' @ crlf @ crlf"

text \<open>The result (0, -1, or -2 if cancelled) and \<open>error_code\<close>, which a cancelled call leaves as it was.\<close>

definition diagnostic_transparent_http :: "net_os \<Rightarrow> int \<Rightarrow> net \<Rightarrow> (int \<times> int) \<times> net" where
  "diagnostic_transparent_http nos e n =
     (let (d, n) = next_dial nos n; (connected, errno) = diagnostic_proxy_tcp d in
      if connected \<noteq> ok then ((fail, errno), n)
      else let (stop, n) = cancelled nos n in
      if stop then ((-2, e), n)
      else let (sent, s) = write_all (ascii transparent_request) (peer d) in
      if sent \<noteq> ok then ((fail, errno_left d), n)
      else (case read_all_diagnostic [] 5 s of ((r, ended, response), s) \<Rightarrow>
        if r \<noteq> ok then ((fail, read_errno d ended), n)
        else if response \<noteq> ascii ''HTTP/'' then ((fail, EPROTO_CODE), n)
        else ((ok, e), n)))"

section \<open>The nine steps\<close>

text \<open>A step followed by the rest, unless it has returned.\<close>

definition and_then :: "('k, 'a) stage \<Rightarrow> ('a \<Rightarrow> 'k diag \<Rightarrow> ('k, 'b) stage) \<Rightarrow> ('k, 'b) stage" where
  "and_then m f = do {
     (x, st) \<leftarrow> m;
     case x of Inl r \<Rightarrow> Some (Inl r, st) | Inr a \<Rightarrow> f a st }"

definition diagnose_config :: "'k os \<Rightarrow> 'k diag \<Rightarrow> ('k, fp_config) stage" where
  "diagnose_config os st =
     (let st = begin_step 0 st; (exists, w) = fp_config_exists os (diag_world st); st = st\<lparr>diag_world := w\<rparr> in
      if \<not> exists then diagnostic_fail 0 REASON_CONFIG_MISSING ENOENT_CODE 0 st
      else (case fp_config_load os empty_config w of ((r, config), w) \<Rightarrow>
        let st = st\<lparr>diag_world := w\<rparr> in
        if r \<noteq> ok then diagnostic_fail 0 REASON_CONFIG_INVALID EINVAL_CODE 0 st
        else pass_step 0 config st))"

definition diagnose_daemon :: "'k os \<Rightarrow> net_os \<Rightarrow> fp_config \<Rightarrow> 'k diag \<Rightarrow> ('k, unit) stage" where
  "diagnose_daemon os nos config st =
     (let (stop, st) = diagnostic_cancel nos 1 st in
      if stop then Some (Inl fail, st)
      else
        let st = begin_step 1 st; (matches, w) = fp_daemon_matches_config os config (diag_world st) in
        if \<not> matches
        then let (pid, w) = fp_read_pid os w in
          diagnostic_fail 1 (if pid > 1 then REASON_DAEMON_CONFIG_MISMATCH else REASON_DAEMON_STOPPED) ESRCH_CODE 0
            (st\<lparr>diag_world := w\<rparr>)
        else pass_step 1 () (st\<lparr>diag_world := w\<rparr>))"

definition diagnose_listener :: "net_os \<Rightarrow> 'k diag \<Rightarrow> ('k, unit) stage" where
  "diagnose_listener nos st =
     (let st = begin_step 2 st; (d, n) = next_dial nos (diag_net st); st = st\<lparr>diag_net := n\<rparr>;
          (r, e) = (if \<not> socket_ok d then (fail, errno_left d) else test_connect_with_timeout d) in
      if r \<noteq> ok then diagnostic_fail 2 REASON_LISTENER_UNREACHABLE e 0 st else pass_step 2 () st)"

definition diagnose_firewall :: "'k os \<Rightarrow> fp_config \<Rightarrow> 'k diag \<Rightarrow> ('k, unit) stage" where
  "diagnose_firewall os config st =
     (let st = begin_step 3 st; (enabled, w) = fp_firewall_is_enabled os config (diag_world st);
          st = st\<lparr>diag_world := w\<rparr> in
      if \<not> enabled then diagnostic_fail 3 REASON_FIREWALL_INCOMPLETE 0 0 st else pass_step 3 () st)"

definition diagnose_proxy_tcp :: "net_os \<Rightarrow> 'k diag \<Rightarrow> ('k, test_dial) stage" where
  "diagnose_proxy_tcp nos st =
     (let st = begin_step 4 st; (d, n) = next_dial nos (diag_net st); st = st\<lparr>diag_net := n\<rparr>;
          (r, e) = diagnostic_proxy_tcp d in
      if r \<noteq> ok then diagnostic_fail 4 REASON_PROXY_UNREACHABLE e 0 st else pass_step 4 d st)"

definition diagnose_socks5 :: "test_dial \<Rightarrow> 'k diag \<Rightarrow> ('k, unit) stage" where
  "diagnose_socks5 d st =
     (let st = begin_step 5 st in
      case diagnostic_socks_handshake d (peer d) 0 0 of ((reason, e, detail), _) \<Rightarrow>
        if reason \<noteq> REASON_NONE then diagnostic_fail 5 reason e detail st else pass_step 5 () st)"

definition diagnose_dns :: "net_os \<Rightarrow> 'k diag \<Rightarrow> ('k, (ip \<times> port) list) stage" where
  "diagnose_dns nos st =
     (let st = begin_step 6 st in
      case resolve_ipv4 nos ''github.com'' ''80'' (diag_net st) of ((r, addresses, resolver_error), n) \<Rightarrow>
        let st = st\<lparr>diag_net := n\<rparr> in
        if r \<noteq> ok \<or> addresses = [] then cancel_or_fail nos 6 REASON_DNS_FAILED resolver_error 0 st
        else pass_step 6 addresses st)"

definition diagnose_socks_connect :: "net_os \<Rightarrow> (ip \<times> port) list \<Rightarrow> 'k diag \<Rightarrow> ('k, ip \<times> port) stage" where
  "diagnose_socks_connect nos addresses st =
     (let st = begin_step 7 st in do {
        ((reason, e, detail, destination), n) \<leftarrow>
          connect_any nos addresses (REASON_INTERNAL, 0, 0, hd addresses) (diag_net st);
        let st = st\<lparr>diag_net := n\<rparr>;
        if reason \<noteq> REASON_NONE then cancel_or_fail nos 7 reason e detail st
        else pass_step 7 destination st })"

definition diagnose_transparent :: "net_os \<Rightarrow> ip \<times> port \<Rightarrow> 'k diag \<Rightarrow> ('k, unit) stage" where
  "diagnose_transparent nos destination st =
     (let st = begin_step 8 st in
      case diagnostic_transparent_http nos 0 (diag_net st) of ((r, e), n) \<Rightarrow>
        let st = st\<lparr>diag_net := n\<rparr> in
        if r \<noteq> ok then cancel_or_fail nos 8 REASON_TRANSPARENT_FAILED e 0 st else pass_step 8 () st)"

definition empty_diagnosis :: fp_diagnostic_report where
  "empty_diagnosis = \<lparr>diag_items = map (\<lambda>s. \<lparr>item_step = s, item_state = FP_DIAGNOSTIC_PENDING, item_reason = REASON_NONE,
     error_code = 0, detail_code = 0\<rparr>) all_steps, completed = 0, success = False, diag_cancelled = False\<rparr>"

definition fp_diagnostic_run :: "'k os \<Rightarrow> net_os \<Rightarrow> 'k world \<Rightarrow> net \<Rightarrow> ('k, unit) stage" where
  "fp_diagnostic_run os nos w n =
     and_then (diagnose_config os \<lparr>diag_report = empty_diagnosis, diag_events = [], diag_net = n, diag_world = w\<rparr>) (\<lambda>config st.
     and_then (diagnose_daemon os nos config st) (\<lambda>_ st.
     and_then (diagnose_listener nos st) (\<lambda>_ st.
     and_then (diagnose_firewall os config st) (\<lambda>_ st.
     and_then (diagnose_proxy_tcp nos st) (\<lambda>d st.
     and_then (diagnose_socks5 d st) (\<lambda>_ st.
     and_then (diagnose_dns nos st) (\<lambda>addresses st.
     and_then (diagnose_socks_connect nos addresses st) (\<lambda>destination st.
     and_then (diagnose_transparent nos destination st) (\<lambda>_ st.
       Some (Inl ok, diagnostic_done (st\<lparr>diag_report := (diag_report st)\<lparr>success := True\<rparr>\<rparr>)))))))))))"

section \<open>What a run reports\<close>

text \<open>The report a listener rebuilds from the events alone.\<close>

definition replay_event :: "fp_diagnostic_event \<Rightarrow> fp_diagnostic_item list \<Rightarrow> fp_diagnostic_item list" where
  "replay_event ev items =
     (if item_step (event_item ev) = FP_DIAGNOSTIC_DONE then items else items[event_index ev - 1 := event_item ev])"

definition replay :: "fp_diagnostic_event list \<Rightarrow> fp_diagnostic_item list" where
  "replay evs = fold replay_event evs (diag_items empty_diagnosis)"

definition consistent :: "'k diag \<Rightarrow> bool" where
  "consistent st \<longleftrightarrow> replay (diag_events st) = diag_items (diag_report st) \<and> length (diag_items (diag_report st)) = 9
     \<and> map item_step (diag_items (diag_report st)) = all_steps"

abbreviation state_at :: "'k diag \<Rightarrow> nat \<Rightarrow> fp_diagnostic_state" where
  "state_at st i \<equiv> item_state (diag_items (diag_report st) ! i)"

abbreviation event_step :: "fp_diagnostic_event \<Rightarrow> fp_diagnostic_step" where
  "event_step ev \<equiv> item_step (event_item ev)"

text \<open>
  The events so far are in the order of the steps and of the first \<open>k\<close> steps only; and closed by the one
  event that says the run is over.
\<close>

definition steps_before :: "nat \<Rightarrow> 'k diag \<Rightarrow> bool" where
  "steps_before k st \<longleftrightarrow> sorted (map event_step (diag_events st))
     \<and> list_all (\<lambda>e. step_number (event_step e) < k) (diag_events st)"

definition closed_events :: "'k diag \<Rightarrow> bool" where
  "closed_events st \<longleftrightarrow> diag_events st \<noteq> [] \<and> event_step (last (diag_events st)) = FP_DIAGNOSTIC_DONE
     \<and> list_all (\<lambda>e. event_step e \<noteq> FP_DIAGNOSTIC_DONE) (butlast (diag_events st))
     \<and> sorted (map event_step (diag_events st))"

text \<open>After \<open>k\<close> passed steps; and at the end of a run that stopped in step \<open>k\<close>.\<close>

definition passed :: "nat \<Rightarrow> 'k diag \<Rightarrow> bool" where
  "passed k st \<longleftrightarrow> consistent st \<and> steps_before k st \<and> completed (diag_report st) = k \<and> \<not> success (diag_report st) \<and> \<not> diag_cancelled (diag_report st)
     \<and> (\<forall>i < 9. state_at st i = (if i < k then FP_DIAGNOSTIC_OK else FP_DIAGNOSTIC_PENDING))"

definition running :: "nat \<Rightarrow> 'k diag \<Rightarrow> bool" where
  "running k st \<longleftrightarrow> consistent st \<and> steps_before (Suc k) st \<and> completed (diag_report st) = k \<and> \<not> success (diag_report st) \<and> \<not> diag_cancelled (diag_report st)
     \<and> (\<forall>i < 9. i \<noteq> k \<longrightarrow> state_at st i = (if i < k then FP_DIAGNOSTIC_OK else FP_DIAGNOSTIC_PENDING))"

definition stopped_at :: "nat \<Rightarrow> 'k diag \<Rightarrow> bool" where
  "stopped_at k st \<longleftrightarrow> consistent st \<and> completed (diag_report st) = Suc k \<and> \<not> success (diag_report st)
     \<and> state_at st k = (if diag_cancelled (diag_report st) then FP_DIAGNOSTIC_CANCELLED else FP_DIAGNOSTIC_FAIL)
     \<and> (\<forall>i < 9. i \<noteq> k \<longrightarrow> state_at st i = (if i < k then FP_DIAGNOSTIC_OK else FP_DIAGNOSTIC_PENDING))
     \<and> closed_events st \<and> item_state (event_item (last (diag_events st))) = state_at st k"

lemma replay_snoc: "replay (evs @ [ev]) = replay_event ev (replay evs)"
  by (simp add: replay_def)

lemma step_number_nth: "k < 9 \<Longrightarrow> step_number (all_steps ! k) = k"
  by (auto simp: all_steps_def less_Suc_eq eval_nat_numeral)

lemma step_not_done: "k < 9 \<Longrightarrow> all_steps ! k \<noteq> FP_DIAGNOSTIC_DONE"
  using step_number_nth [of k] by force

lemma emit_consistent:
  assumes "consistent st" "k < 9"
  shows "consistent (diagnostic_emit k s r e d st)"
proof -
  note n = step_not_done [OF assms(2)]
  have "map item_step (diag_items (diag_report st)) = all_steps" using assms(1) by (simp add: consistent_def)
  then have "map item_step ((diag_items (diag_report st))[k := x]) = all_steps" if "item_step x = all_steps ! k" for x
    using that by (simp add: map_update)
  then show ?thesis
    using assms n by (simp add: consistent_def diagnostic_emit_def Let_def replay_snoc replay_event_def)
qed

lemma emit_sel:
  assumes "consistent st" "k < 9"
  shows "state_at (diagnostic_emit k s r e d st) i = (if i = k then s else state_at st i)"
    and "completed (diag_report (diagnostic_emit k s r e d st)) = (if s \<in> {FP_DIAGNOSTIC_OK, FP_DIAGNOSTIC_FAIL, FP_DIAGNOSTIC_CANCELLED}
      then k + 1 else completed (diag_report st))"
    and "success (diag_report (diagnostic_emit k s r e d st)) = success (diag_report st)"
    and "diag_cancelled (diag_report (diagnostic_emit k s r e d st)) = diag_cancelled (diag_report st)"
  using assms by (auto simp: consistent_def diagnostic_emit_def Let_def nth_list_update)

lemma steps_before_mono: "steps_before j st \<Longrightarrow> j \<le> k \<Longrightarrow> steps_before k st"
  by (auto simp: steps_before_def list_all_iff)

lemma emit_steps: "steps_before (Suc k) st \<Longrightarrow> k < 9 \<Longrightarrow> steps_before (Suc k) (diagnostic_emit k s r e d st)"
  by (auto simp: steps_before_def diagnostic_emit_def Let_def step_number_nth sorted_append list_all_iff
      less_eq_fp_diagnostic_step_def)

lemma done_closed:
  assumes "steps_before k st" "k \<le> 9"
  shows "closed_events (diagnostic_done st)"
proof -
  have n: "step_number (event_step e) < 9" if "e \<in> set (diag_events st)" for e
    using assms that by (fastforce simp: steps_before_def list_all_iff)
  then have "event_step e \<noteq> FP_DIAGNOSTIC_DONE" if "e \<in> set (diag_events st)" for e
    using that by fastforce
  with n assms(1) show ?thesis
    by (auto simp: closed_events_def steps_before_def diagnostic_done_def Let_def list_all_iff sorted_append
        less_eq_fp_diagnostic_step_def order_less_imp_le)
qed

lemma done_sel:
  "diag_report (diagnostic_done st) = diag_report st"
  "consistent (diagnostic_done st) = consistent st"
  "diag_events (diagnostic_done st) \<noteq> []"
  "item_step (event_item (last (diag_events (diagnostic_done st)))) = FP_DIAGNOSTIC_DONE"
  "item_state (event_item (last (diag_events (diagnostic_done st)))) =
     (if diag_cancelled (diag_report st) then FP_DIAGNOSTIC_CANCELLED
      else if success (diag_report st) then FP_DIAGNOSTIC_OK else FP_DIAGNOSTIC_FAIL)"
  by (simp_all add: diagnostic_done_def Let_def consistent_def replay_snoc replay_event_def)

lemma surroundings [simp]:
  "consistent (st\<lparr>diag_net := n\<rparr>) = consistent st" "consistent (st\<lparr>diag_world := w\<rparr>) = consistent st"
  "steps_before k (st\<lparr>diag_net := n\<rparr>) = steps_before k st"
  "steps_before k (st\<lparr>diag_world := w\<rparr>) = steps_before k st"
  "steps_before k (st\<lparr>diag_report := rep\<rparr>) = steps_before k st"
  by (simp_all add: consistent_def steps_before_def)

lemma surroundings_running [simp]:
  "running k (st\<lparr>diag_net := n\<rparr>) = running k st" "running k (st\<lparr>diag_world := w\<rparr>) = running k st"
  "passed k (st\<lparr>diag_net := n\<rparr>) = passed k st" "passed k (st\<lparr>diag_world := w\<rparr>) = passed k st"
  by (simp_all add: running_def passed_def)

lemma begin_running: "passed k st \<Longrightarrow> k < 9 \<Longrightarrow> running k (begin_step k st)"
  by (simp add: passed_def running_def begin_step_def emit_consistent emit_sel emit_steps steps_before_mono [of k])

lemma passed_running: "passed k st \<Longrightarrow> running k st"
  by (simp add: passed_def running_def steps_before_mono [of k])

text \<open>A step's outcome: it returns with the run stopped there, or goes on with one more step passed.\<close>

definition good_stage :: "nat \<Rightarrow> ('k, 'a) stage \<Rightarrow> ('a \<Rightarrow> bool) \<Rightarrow> bool" where
  "good_stage k m P \<longleftrightarrow> (\<exists>x st. m = Some (x, st)
     \<and> (case x of Inl r \<Rightarrow> r = fail \<and> stopped_at k st | Inr a \<Rightarrow> passed (Suc k) st \<and> P a))"

lemma good_fail: "running k st \<Longrightarrow> k < 9 \<Longrightarrow> good_stage k (diagnostic_fail k r e d st) P"
  by (simp add: good_stage_def diagnostic_fail_def stopped_at_def running_def emit_consistent emit_sel emit_steps done_sel
      done_closed [of "Suc k"])

lemma good_pass: "running k st \<Longrightarrow> k < 9 \<Longrightarrow> P a \<Longrightarrow> good_stage k (pass_step k a st) P"
  by (auto simp: good_stage_def pass_step_def passed_def running_def emit_consistent emit_sel emit_steps)

lemma cancel_cases:
  assumes "running k st" "k < 9" "diagnostic_cancel nos k st = (stop, st')"
  shows "if stop then stopped_at k st' else running k st' \<and> (passed k st \<longrightarrow> passed k st')"
proof (cases stop)
  case True
  then obtain n where st': "st' = diagnostic_done (diagnostic_emit k FP_DIAGNOSTIC_CANCELLED REASON_CANCELLED 0 0
      (st\<lparr>diag_net := n, diag_report := (diag_report st)\<lparr>diag_cancelled := True\<rparr>\<rparr>))"
    using assms(3) by (auto simp: diagnostic_cancel_def diag_flag_def Let_def split: prod.splits if_splits)
  let ?st = "st\<lparr>diag_net := n, diag_report := (diag_report st)\<lparr>diag_cancelled := True\<rparr>\<rparr>"
  have c: "consistent ?st" using assms(1) by (simp add: running_def consistent_def)
  from True assms(1,2) show ?thesis
    by (simp add: st' stopped_at_def running_def emit_consistent [OF c] emit_sel [OF c] emit_steps done_sel
        done_closed [of "Suc k"])
next
  case False
  then obtain n where "st' = st\<lparr>diag_net := n\<rparr>"
    using assms(3) by (auto simp: diagnostic_cancel_def diag_flag_def Let_def split: prod.splits if_splits)
  with False assms(1) show ?thesis by simp
qed

lemma good_cancel_or_fail: "running k st \<Longrightarrow> k < 9 \<Longrightarrow> good_stage k (cancel_or_fail nos k r e d st) P"
proof -
  assume r: "running k st" "k < 9"
  obtain stop st' where c: "diagnostic_cancel nos k st = (stop, st')" by force
  from cancel_cases [OF r c] good_fail r(2) show ?thesis
    by (cases stop) (auto simp: cancel_or_fail_def c good_stage_def)
qed
text \<open>The loop over the addresses always ends, and ends well only with an address.\<close>

lemma socks_connect_returns: "\<exists>x n'. diagnostic_socks_connect nos a e d n = Some (x, n')"
proof -
  have d: "\<not> fp_socks5_drain_bind s = None" for s using drain_bind_result [of s] by auto
  have "diagnostic_socks_connect nos a e d n \<noteq> None"
    by (auto simp: diagnostic_socks_connect_def Let_def d simp del: not_None_eq split: prod.splits Option.bind_splits)
  then show ?thesis by auto
qed

lemma connect_any_returns: "\<exists>x n'. connect_any nos as found n = Some (x, n')"
proof (induction "as" arbitrary: found n)
  case (Cons a "as")
  obtain x n1 where "diagnostic_socks_connect nos a 0 0 n = Some (x, n1)" using socks_connect_returns by blast
  with Cons show ?case by (auto split: prod.splits)
qed auto

lemma diagnose_config_good: "passed 0 st \<Longrightarrow> good_stage 0 (diagnose_config os st) (\<lambda>_. True)"
  by (auto simp: diagnose_config_def Let_def begin_running intro!: good_fail good_pass split: prod.splits)

lemma diagnose_daemon_good:
  assumes "passed 1 st"
  shows "good_stage 1 (diagnose_daemon os nos config st) (\<lambda>_. True)"
proof -
  obtain stop st' where c: "diagnostic_cancel nos 1 st = (stop, st')" by force
  have "if stop then stopped_at 1 st' else passed 1 st'"
    using cancel_cases [OF passed_running [OF assms] _ c] assms by auto
  then show ?thesis
  proof (cases stop)
    case True
    with \<open>if stop then stopped_at 1 st' else passed 1 st'\<close> show ?thesis by (simp add: diagnose_daemon_def c good_stage_def del: One_nat_def)
  next
    case False
    with \<open>if stop then stopped_at 1 st' else passed 1 st'\<close> show ?thesis
      by (auto simp: diagnose_daemon_def Let_def c begin_running simp del: One_nat_def
          intro!: good_fail good_pass split: prod.splits)
  qed
qed

lemma diagnose_listener_good: "passed 2 st \<Longrightarrow> good_stage 2 (diagnose_listener nos st) (\<lambda>_. True)"
  by (auto simp: diagnose_listener_def Let_def begin_running intro!: good_fail good_pass split: prod.splits)

lemma diagnose_firewall_good: "passed 3 st \<Longrightarrow> good_stage 3 (diagnose_firewall os config st) (\<lambda>_. True)"
  by (auto simp: diagnose_firewall_def Let_def begin_running intro!: good_fail good_pass split: prod.splits)

lemma diagnose_proxy_tcp_good: "passed 4 st \<Longrightarrow> good_stage 4 (diagnose_proxy_tcp nos st) (\<lambda>_. True)"
  by (auto simp: diagnose_proxy_tcp_def Let_def begin_running intro!: good_fail good_pass split: prod.splits)

lemma diagnose_socks5_good: "passed 5 st \<Longrightarrow> good_stage 5 (diagnose_socks5 d st) (\<lambda>_. True)"
  by (auto simp: diagnose_socks5_def Let_def begin_running intro!: good_fail good_pass split: prod.splits)

lemma diagnose_dns_good: "passed 6 st \<Longrightarrow> good_stage 6 (diagnose_dns nos st) (\<lambda>as. as \<noteq> [])"
  by (auto simp: diagnose_dns_def Let_def begin_running intro!: good_cancel_or_fail good_pass split: prod.splits)

lemma diagnose_socks_connect_good: "passed 7 st \<Longrightarrow> good_stage 7 (diagnose_socks_connect nos as st) (\<lambda>_. True)"
proof -
  assume p: "passed 7 st"
  obtain x n where "connect_any nos as (REASON_INTERNAL, 0, 0, hd as) (diag_net (begin_step 7 st)) = Some (x, n)"
    using connect_any_returns by blast
  with p show ?thesis
    by (auto simp: diagnose_socks_connect_def Let_def begin_running intro!: good_cancel_or_fail good_pass split: prod.splits)
qed

lemma diagnose_transparent_good: "passed 8 st \<Longrightarrow> good_stage 8 (diagnose_transparent nos a st) (\<lambda>_. True)"
  by (auto simp: diagnose_transparent_def Let_def begin_running intro!: good_cancel_or_fail good_pass split: prod.splits)

text \<open>How a run ends: stopped in one of the steps, or with all of them passed.\<close>

definition run_end :: "('k, unit) stage \<Rightarrow> bool" where
  "run_end m \<longleftrightarrow> (\<exists>r st. m = Some (Inl r, st) \<and> ((r = fail \<and> (\<exists>k < 9. stopped_at k st))
     \<or> (r = ok \<and> consistent st \<and> completed (diag_report st) = 9 \<and> success (diag_report st)
        \<and> \<not> diag_cancelled (diag_report st) \<and> (\<forall>i < 9. state_at st i = FP_DIAGNOSTIC_OK)
        \<and> closed_events st \<and> item_state (event_item (last (diag_events st))) = FP_DIAGNOSTIC_OK)))"

lemma run_end_step:
  assumes "good_stage k m P" and "k < 9" and "j = Suc k" and "\<And>a st. P a \<Longrightarrow> passed j st \<Longrightarrow> run_end (f a st)"
  shows "run_end (and_then m f)"
proof -
  obtain x st where m: "m = Some (x, st)"
    and x: "case x of Inl r \<Rightarrow> r = fail \<and> stopped_at k st | Inr a \<Rightarrow> passed (Suc k) st \<and> P a"
    using assms(1) by (auto simp: good_stage_def)
  show ?thesis
  proof (cases x)
    case (Inl r)
    with x m assms(2) show ?thesis by (auto simp: and_then_def run_end_def)
  next
    case (Inr a)
    with x m assms(3,4) show ?thesis by (simp add: and_then_def)
  qed
qed

lemma run_end_success:
  "passed 9 st \<Longrightarrow> run_end (Some (Inl ok, diagnostic_done (st\<lparr>diag_report := (diag_report st)\<lparr>success := True\<rparr>\<rparr>)))"
  by (simp add: run_end_def passed_def done_sel done_closed [of 9]) (simp add: consistent_def)

lemma diagnosis_starts:
  "passed 0 \<lparr>diag_report = empty_diagnosis, diag_events = [], diag_net = n, diag_world = w\<rparr>"
  by (auto simp: passed_def consistent_def steps_before_def replay_def empty_diagnosis_def all_steps_def less_Suc_eq eval_nat_numeral)

lemma fp_diagnostic_run_end: "run_end (fp_diagnostic_run os nos w n)"
proof -
  show ?thesis
    using diagnosis_starts unfolding fp_diagnostic_run_def
    by (intro run_end_step [OF diagnose_config_good, where j = 1]
        run_end_step [OF diagnose_daemon_good, where j = 2]
        run_end_step [OF diagnose_listener_good, where j = 3]
        run_end_step [OF diagnose_firewall_good, where j = 4]
        run_end_step [OF diagnose_proxy_tcp_good, where j = 5]
        run_end_step [OF diagnose_socks5_good, where j = 6]
        run_end_step [OF diagnose_dns_good, where j = 7]
        run_end_step [OF diagnose_socks_connect_good, where j = 8]
        run_end_step [OF diagnose_transparent_good, where j = 9]
        run_end_success) simp_all
qed

lemma length_items: "map item_step xs = all_steps \<Longrightarrow> length xs = 9"
  by (drule arg_cong [of _ _ length]) (simp add: all_steps_def)

lemma states_passed:
  assumes "map item_step xs = all_steps" "\<forall>i < 9. item_state (xs ! i) = s"
  shows "map item_state xs = replicate 9 s"
  using assms length_items [OF assms(1)] by (intro nth_equalityI) auto

lemma states_stopped:
  assumes "map item_step xs = all_steps" "k < 9"
    and "item_state (xs ! k) = s2" "\<forall>i < 9. i \<noteq> k \<longrightarrow> item_state (xs ! i) = (if i < k then s1 else s3)"
  shows "map item_state xs = replicate k s1 @ s2 # replicate (8 - k) s3"
  using assms length_items [OF assms(1)] by (intro nth_equalityI) (auto simp: nth_append nth_Cons')

lemma closed_events_order:
  assumes "closed_events st"
  shows "sorted (map event_step (diag_events st))"
    and "map (\<lambda>e. event_step e = FP_DIAGNOSTIC_DONE) (diag_events st)
      = replicate (length (diag_events st) - 1) False @ [True]"
proof -
  show "sorted (map event_step (diag_events st))" using assms by (simp add: closed_events_def)
  obtain es e where es: "diag_events st = es @ [e]"
    using assms unfolding closed_events_def by (metis rev_exhaust)
  have "map (\<lambda>e. event_step e = FP_DIAGNOSTIC_DONE) es = replicate (length es) False"
    using assms unfolding closed_events_def es by (intro nth_equalityI) (auto simp: list_all_length)
  then show "map (\<lambda>e. event_step e = FP_DIAGNOSTIC_DONE) (diag_events st)
      = replicate (length (diag_events st) - 1) False @ [True]"
    using assms unfolding closed_events_def es by simp
qed

text \<open>
  C36: A diagnosis always returns, and its report is never contradictory. Either every one of the nine steps is OK and
  the result is 0; or the result is -1 and there is one step at which it stopped: that step is marked cancelled or failed, all before it are OK,
  all after it still pending, and the number of completed steps points just past it. The events, which
  are all the terminal interface sees, come in the order of the steps, end with the only one that says
  the run is over, and replayed they give exactly the report.
\<close>

theorem diagnosis_exact:
  "\<exists>r st. fp_diagnostic_run os nos w n = Some (Inl r, st)
    \<and> replay (diag_events st) = diag_items (diag_report st)
    \<and> sorted (map event_step (diag_events st))
    \<and> map (\<lambda>e. event_step e = FP_DIAGNOSTIC_DONE) (diag_events st)
        = replicate (length (diag_events st) - 1) False @ [True]
    \<and> map item_step (diag_items (diag_report st)) = all_steps
    \<and> (if success (diag_report st)
       then r = ok \<and> completed (diag_report st) = 9 \<and> \<not> diag_cancelled (diag_report st)
         \<and> map item_state (diag_items (diag_report st)) = replicate 9 FP_DIAGNOSTIC_OK
       else r = fail \<and> (\<exists>k < 9. completed (diag_report st) = Suc k
         \<and> map item_state (diag_items (diag_report st)) = replicate k FP_DIAGNOSTIC_OK
              @ [if diag_cancelled (diag_report st) then FP_DIAGNOSTIC_CANCELLED else FP_DIAGNOSTIC_FAIL]
              @ replicate (8 - k) FP_DIAGNOSTIC_PENDING))"
proof -
  obtain r st where m: "fp_diagnostic_run os nos w n = Some (Inl r, st)"
    and c: "(r = fail \<and> (\<exists>k < 9. stopped_at k st))
     \<or> (r = ok \<and> consistent st \<and> completed (diag_report st) = 9 \<and> success (diag_report st)
        \<and> \<not> diag_cancelled (diag_report st) \<and> (\<forall>i < 9. state_at st i = FP_DIAGNOSTIC_OK))"
    and e: "closed_events st"
    using fp_diagnostic_run_end [of os nos w n] by (auto simp: run_end_def stopped_at_def)
  note e = closed_events_order [OF e]
  from c show ?thesis
  proof (elim disjE conjE exE)
    fix k
    assume "r = fail" "k < 9" "stopped_at k st"
    with e show ?thesis
      by (intro exI [of _ r] exI [of _ st]) (auto simp: m stopped_at_def consistent_def intro!: exI [of _ k] states_stopped)
  qed (use e in \<open>auto simp: m consistent_def intro!: states_passed\<close>)
qed

section \<open>What success means\<close>

lemma and_then_ok:
  assumes "and_then m f = Some (Inl ok, st)" and "good_stage k m P"
  obtains a st1 where "m = Some (Inr a, st1)" "f a st1 = Some (Inl ok, st)" "passed (Suc k) st1" "P a"
proof -
  obtain x st1 where m: "m = Some (x, st1)"
    and x: "case x of Inl r \<Rightarrow> r = fail \<and> stopped_at k st1 | Inr a \<Rightarrow> passed (Suc k) st1 \<and> P a"
    using assms(2) by (auto simp: good_stage_def)
  from assms(1) x m that show ?thesis by (cases x) (auto simp: and_then_def)
qed

lemma step_world [simp]:
  "diag_world (begin_step k st) = diag_world st"
  "diag_world (diagnostic_emit k s r e d st) = diag_world st"
  by (simp_all add: begin_step_def diagnostic_emit_def Let_def)

lemma fp_config_exists_kept: "fp_config_exists os w = (b, w') \<Longrightarrow> kept w' = kept w"
  by (auto simp: fp_config_exists_def dest: sys_kept)

lemma diagnose_config_ok:
  assumes "diagnose_config os st = Some (Inr config, st')"
  shows "stored_config (diag_world st) = Some config \<and> nat_tab (diag_world st') = nat_tab (diag_world st)"
proof -
  obtain b w1 where 1: "fp_config_exists os (diag_world st) = (b, w1)" by force
  obtain r c w2 where 2: "fp_config_load os empty_config w1 = ((r, c), w2)" by (metis prod.collapse)
  note k = fp_config_exists_kept [OF 1] fp_config_load_kept [OF 2]
  have "r = ok \<and> c = config \<and> diag_world st' = w2"
    using assms 1 2 by (auto simp: diagnose_config_def Let_def diagnostic_fail_def pass_step_def split: if_splits)
  with fp_config_load_stored(1) [OF 2] k stored_config_same [OF k(1)] show ?thesis by (auto simp: kept_def)
qed

lemma diagnose_daemon_ok:
  assumes "diagnose_daemon os nos config st = Some (Inr u, st')"
  shows "nat_tab (diag_world st') = nat_tab (diag_world st)"
proof -
  obtain stop st1 where c: "diagnostic_cancel nos 1 st = (stop, st1)" by force
  have w: "\<not> stop \<Longrightarrow> diag_world st1 = diag_world st"
    using c by (auto simp: diagnostic_cancel_def diag_flag_def Let_def split: prod.splits if_splits)
  obtain m w1 where 1: "fp_daemon_matches_config os config (diag_world st1) = (m, w1)" by force
  have "\<not> stop \<and> diag_world st' = w1"
    using assms 1 c by (auto simp: diagnose_daemon_def Let_def diagnostic_fail_def pass_step_def split: if_splits prod.splits)
  with w process_kept [THEN kept_parts] 1 show ?thesis by metis
qed

lemma diagnose_listener_ok:
  "diagnose_listener nos st = Some (Inr u, st') \<Longrightarrow> diag_world st' = diag_world st"
  by (auto simp: diagnose_listener_def Let_def diagnostic_fail_def pass_step_def split: if_splits prod.splits)

lemma diagnose_firewall_ok:
  assumes "ipt_sound os view" and "diagnose_firewall os config st = Some (Inr u, st')"
  shows "firewall_on config (view (nat_tab (diag_world st)))"
proof -
  obtain e w1 where 1: "fp_firewall_is_enabled os config (diag_world st) = (e, w1)" by force
  then have "e" using assms(2) by (auto simp: diagnose_firewall_def Let_def diagnostic_fail_def pass_step_def split: if_splits)
  with 1 fp_firewall_is_enabled_sound [OF assms(1)] show ?thesis by metis
qed

text \<open>
  A diagnosis that ends well is to be trusted: the configuration was there and readable, and the
  packet filter jumped to the chain with all the rules for it when the diagnosis began.
\<close>

theorem diagnosis_success_sound:
  assumes "ipt_sound os view" and "fp_diagnostic_run os nos w n = Some (Inl ok, st)"
  shows "\<exists>config. stored_config w = Some config \<and> firewall_on config (view (nat_tab w))"
proof -
  let ?st = "\<lparr>diag_report = empty_diagnosis, diag_events = [], diag_net = n, diag_world = w\<rparr>"
  have init: "passed 0 ?st" by (rule diagnosis_starts)
  note run = assms(2) [unfolded fp_diagnostic_run_def]
  show ?thesis
    apply (rule and_then_ok [OF run diagnose_config_good [OF init]])
    apply (erule and_then_ok [OF _ diagnose_daemon_good], simp)
    apply (erule and_then_ok [OF _ diagnose_listener_good], simp add: eval_nat_numeral)
    apply (erule and_then_ok [OF _ diagnose_firewall_good], simp add: eval_nat_numeral)
    apply (drule diagnose_config_ok, drule diagnose_daemon_ok, drule diagnose_listener_ok, drule diagnose_firewall_ok [OF assms(1)])
    apply auto
    done
qed

text \<open>A machine on which a daemon for the sample configuration runs and everything answers.\<close>

definition running_world :: "nat_view world" where
  "running_world = stored_world\<lparr>procs := [(4242, sample_daemon)], nat_tab := nat_tab after_enable,
     files := (files stored_world)(FP_PID_PATH \<mapsto> record_text 4242 4711 sample_config)\<rparr>"

definition answering_dial :: "byte list \<Rightarrow> test_dial" where
  "answering_dial answer = \<lparr>socket_ok = True, getfl_ok = True, setfl_ok = True, connect_answer = Connected, restore_ok = True,
     rcvtimeo_ok = True, sndtimeo_ok = True, is_open = False,
     peer = \<lparr>rx = [Chunk answer], plan = [], tx = [], shut_wr = False\<rparr>, errno_left = 0, poll_timed_out = False\<rparr>"

definition working_net_os :: net_os where
  "working_net_os = sample_net_os\<lparr>test_dials := (\<lambda>n. answering_dial
     (if n = 1 then [5, 0] else if n = 2 then [5, 0, 5, 0, 0, 1, 1, 2, 3, 4, 0, 80] else ascii ''HTTP/''))\<rparr>"

lemma working_net_os_sel [simp]:
  "test_dials working_net_os n = answering_dial
     (if n = 1 then [5, 0] else if n = 2 then [5, 0, 5, 0, 0, 1, 1, 2, 3, 4, 0, 80] else ascii ''HTTP/'')"
  "lookups working_net_os = (\<lambda>_. Answered 0 [(16909060, 80)])" "never_cancelled working_net_os"
  by (simp_all add: working_net_os_def sample_net_os_def never_cancelled_def)

lemma answering_dial_ok [simp]:
  "socket_ok (answering_dial bs)" "test_connect_with_timeout (answering_dial bs) = (ok, 0)"
  "diagnostic_proxy_tcp (answering_dial bs) = (ok, 0)"
  "peer (answering_dial bs) = \<lparr>rx = [Chunk bs], plan = [], tx = [], shut_wr = False\<rparr>"
  by (simp_all add: answering_dial_def test_connect_with_timeout_def diagnostic_proxy_tcp_def test_set_socket_timeouts_def)

lemma read_all_plain:
  assumes "rx s = [Chunk bs]" "0 < len" "len \<le> length bs"
  shows "read_all_diagnostic got len s = ((ok, False, got @ take len bs),
    s\<lparr>rx := (if len < length bs then [Chunk (drop len bs)] else [])\<rparr>)"
  using assms by (subst read_all_diagnostic.simps) (auto simp: sys_recv_def read_all_diagnostic.simps [of _ 0])

lemma working_handshake:
  "diagnostic_socks_handshake (answering_dial bs) \<lparr>rx = [Chunk bs], plan = [], tx = [], shut_wr = False\<rparr> e d =
     ((REASON_NONE, e, d), \<lparr>rx = (if 2 < length bs then [Chunk (drop 2 bs)] else []), plan = [], tx = [5, 1, 0], shut_wr = False\<rparr>)"
  if "2 \<le> length bs" "bs ! 0 = 5" "bs ! 1 = 0"
  using that by (simp add: diagnostic_socks_handshake_def write_all_plain read_all_plain)

lemma working_connect:
  "\<exists>n'. diagnostic_socks_connect working_net_os a 0 0 (fresh_net\<lparr>dial_count := 2, lookup_count := 1\<rparr>)
     = Some ((REASON_NONE, 0, 0), n') \<and> dial_count n' = 3"
proof -
  let ?s = "\<lparr>rx = [Chunk [0, 1, 1, 2, 3, 4, 0, 80 :: byte]], plan = [], tx = [5, 1, 0] @ connect_request (fst a) (snd a), shut_wr = False\<rparr>"
  have "after_bind (wire (rx ?s)) = Some []" by (simp add: after_bind_def bind_length_def)
  then obtain s' where d: "fp_socks5_drain_bind ?s = Some (ok, s')" using drain_bind_result [of ?s] by (auto split: option.splits)
  have c: "connect_request (fst a) (snd a) \<noteq> []" by (simp add: connect_request_def)
  show ?thesis
    using d by (simp add: diagnostic_socks_connect_def next_dial_def fresh_net_def Let_def working_handshake write_all_plain read_all_plain)
qed

lemma working_transparent:
  "\<exists>n'. diagnostic_transparent_http working_net_os 0 n = ((ok, 0), n')" if "dial_count n = 3"
  using that by (simp add: diagnostic_transparent_http_def next_dial_def Let_def write_all_plain read_all_plain ascii_def)

lemma working_daemon: "\<exists>w'. fp_daemon_matches_config working_os sample_config w = (True, w')"
  if "files w FP_PID_PATH = Some (record_text 4242 4711 sample_config)" "map_of (procs w) 4242 = Some sample_daemon"
proof -
  have "fst (fp_daemon_matches_config working_os sample_config w)"
    by (rule daemon_matches_record [OF that(1) _ _ _ sample_daemon_runs(1) sample_daemon_start sample_daemon_runs(3,2)])
      (simp_all add: that(2))
  then show ?thesis by (metis prod.collapse)
qed

lemma and_then_go: "m = Some (Inr a, st) \<Longrightarrow> and_then m f = f a st"
  by (simp add: and_then_def)

lemma emit_net [simp]: "diag_net (diagnostic_emit k s r e d st) = diag_net st" "diag_net (begin_step k st) = diag_net st"
  by (simp_all add: begin_step_def diagnostic_emit_def Let_def)

lemma working_run: "\<exists>st. fp_diagnostic_run working_os working_net_os running_world fresh_net = Some (Inl ok, st)"
proof -
  note c = not_cancelled [OF working_net_os_sel(3)]
  let ?st = "\<lparr>diag_report = empty_diagnosis, diag_events = [], diag_net = fresh_net, diag_world = running_world\<rparr>"
  obtain w0 where 0: "fp_config_exists working_os running_world = (True, w0)" "files w0 = files running_world"
      "procs w0 = procs running_world" "nat_tab w0 = nat_tab running_world"
    by (simp add: fp_config_exists_def sys_access_def sys_fault_def running_world_def stored_world_def)
  have "stored_config running_world = Some sample_config"
    using stored_world_sel(1) by (simp add: running_world_def stored_config_def PID_neq_config(1) [symmetric])
  then have "stored_config w0 = Some sample_config" using 0(2) by (simp add: stored_config_def)
  then have f: "fst (fp_config_load working_os empty_config w0) = (ok, sample_config)"
    by (rule fp_config_load_found) simp
  define w1 where "w1 = snd (fp_config_load working_os empty_config w0)"
  have 1: "fp_config_load working_os empty_config w0 = ((ok, sample_config), w1)" using f by (simp add: w1_def prod_eq_iff)
  have 1: "fp_config_load working_os empty_config w0 = ((ok, sample_config), w1)" "files w1 = files running_world"
      "procs w1 = procs running_world" "nat_tab w1 = nat_tab running_world"
    using 1 fp_config_load_stored(2,3) [OF 1] 0(2-4) by (simp_all add: same_kernel_def same_files_def)
  obtain w2 where 2: "fp_daemon_matches_config working_os sample_config w1 = (True, w2)"
    using working_daemon [of w1] 1(2,3) by (auto simp: running_world_def)
  have t2: "nat_tab w2 = nat_tab after_enable"
    using fp_daemon_matches_config_kept [OF 2] 1(4) by (simp add: kept_def running_world_def)
  obtain e w3 where 3: "fp_firewall_is_enabled working_os sample_config w2 = (e, w3)" by force
  have e: "e = True" using fp_firewall_is_enabled_exact [OF working_os_exact 3] t2 after_enable_view by simp
  obtain s1 where s1: "diagnose_config working_os ?st = Some (Inr sample_config, s1)" "diag_world s1 = w1" "diag_net s1 = fresh_net"
    by (auto simp: diagnose_config_def Let_def 0(1) 1(1) pass_step_def)
  obtain s2 where s2: "diagnose_daemon working_os working_net_os sample_config s1 = Some (Inr (), s2)" "diag_world s2 = w2" "diag_net s2 = fresh_net"
    using s1(2,3) 2 by (auto simp: diagnose_daemon_def diagnostic_cancel_def diag_flag_def Let_def c pass_step_def)
  obtain s3 where s3: "diagnose_listener working_net_os s2 = Some (Inr (), s3)" "diag_world s3 = w2" "diag_net s3 = fresh_net\<lparr>dial_count := 1\<rparr>"
    using s2(2,3) by (auto simp: diagnose_listener_def next_dial_def fresh_net_def Let_def pass_step_def)
  obtain s4 where s4: "diagnose_firewall working_os sample_config s3 = Some (Inr (), s4)" "diag_net s4 = fresh_net\<lparr>dial_count := 1\<rparr>"
    using s3(2,3) 3 e by (auto simp: diagnose_firewall_def Let_def pass_step_def)
  obtain s5 where s5: "diagnose_proxy_tcp working_net_os s4 = Some (Inr (answering_dial [5, 0]), s5)" "diag_net s5 = fresh_net\<lparr>dial_count := 2\<rparr>"
    using s4(2) by (auto simp: diagnose_proxy_tcp_def next_dial_def fresh_net_def Let_def pass_step_def)
  obtain s6 where s6: "diagnose_socks5 (answering_dial [5, 0]) s5 = Some (Inr (), s6)" "diag_net s6 = fresh_net\<lparr>dial_count := 2\<rparr>"
    using s5(2) by (auto simp: diagnose_socks5_def Let_def working_handshake pass_step_def)
  obtain s7 where s7: "diagnose_dns working_net_os s6 = Some (Inr [(16909060, 80)], s7)" "diag_net s7 = fresh_net\<lparr>dial_count := 2, lookup_count := 1\<rparr>"
    using s6(2) by (auto simp: diagnose_dns_def resolve_ipv4_def Let_def c fresh_net_def pass_step_def)
  obtain s8 where s8: "diagnose_socks_connect working_net_os [(16909060, 80)] s7 = Some (Inr (16909060, 80), s8)" "dial_count (diag_net s8) = 3"
    using s7(2) working_connect [of "(16909060, 80)"] by (auto simp: diagnose_socks_connect_def Let_def pass_step_def)
  obtain s9 where s9: "diagnose_transparent working_net_os (16909060, 80) s8 = Some (Inr (), s9)"
    using s8(2) working_transparent [of "diag_net s8"] by (auto simp: diagnose_transparent_def Let_def pass_step_def)
  show ?thesis
    unfolding fp_diagnostic_run_def
    by (simp add: and_then_go [OF s1(1)] and_then_go [OF s2(1)] and_then_go [OF s3(1)] and_then_go [OF s4(1)] and_then_go [OF s5(1)]
        and_then_go [OF s6(1)] and_then_go [OF s7(1)] and_then_go [OF s8(1)] and_then_go [OF s9])
qed

theorem diagnosis_success_sound_witness:
  "\<exists>config. stored_config running_world = Some config \<and> firewall_on config (nat_tab running_world)"
proof -
  obtain st where "fp_diagnostic_run working_os working_net_os running_world fresh_net = Some (Inl ok, st)"
    using working_run by blast
  from diagnosis_success_sound [OF exact_sound [OF working_os_exact] this] show ?thesis .
qed

end
