(* ===== verification/Tui_Text.thy ===== *)
theory Tui_Text
  imports Config
begin

text \<open>
  The wording of the terminal interface (\<open>UI_TEXT\<close> of \<open>src/tui.c\<close>) and the pieces of \<open>printf\<close> and
  of the wide-character library the screens use. The source is UTF-8: a Chinese text is a string of
  bytes, written here as the encoding of its code points. The locale is assumed to be a UTF-8 one.
\<close>

section \<open>UTF-8\<close>

definition utf8_char :: "nat \<Rightarrow> string" where
  "utf8_char c = map char_of
     (if c < 128 then [c]
      else if c < 2048 then [192 + c div 64, 128 + c mod 64]
      else if c < 65536 then [224 + c div 4096, 128 + c div 64 mod 64, 128 + c mod 64]
      else [240 + c div 262144, 128 + c div 4096 mod 64, 128 + c div 64 mod 64, 128 + c mod 64])"

definition utf8 :: "nat list \<Rightarrow> string" where
  "utf8 cs = concat (map utf8_char cs)"

text \<open>
  \<open>mbrtowc\<close> at the start of a string that is not empty: the code point and the bytes it takes, or
  \<open>None\<close> for an ill-formed or incomplete sequence (-1 and -2).
\<close>

definition continues :: "nat list \<Rightarrow> nat \<Rightarrow> bool" where
  "continues bs n \<longleftrightarrow> n < length bs \<and> 128 \<le> bs ! n \<and> bs ! n < 192"

definition mbrtowc :: "string \<Rightarrow> (nat \<times> nat) option" where
  "mbrtowc s =
     (let bs = map of_char (take 4 s); b = bs ! 0; t = (\<lambda>n. bs ! n - 128);
          c2 = (b - 192) * 64 + t 1; c3 = (b - 224) * 4096 + t 1 * 64 + t 2;
          c4 = (b - 240) * 262144 + t 1 * 4096 + t 2 * 64 + t 3 in
      if bs = [] then None
      else if b < 128 then Some (b, 1)
      else if b < 194 then None
      else if b < 224 then (if continues bs 1 then Some (c2, 2) else None)
      else if b < 240 then
        (if continues bs 1 \<and> continues bs 2 \<and> 2048 \<le> c3 \<and> \<not> (55296 \<le> c3 \<and> c3 < 57344)
         then Some (c3, 3) else None)
      else if b < 245 then
        (if continues bs 1 \<and> continues bs 2 \<and> continues bs 3 \<and> 65536 \<le> c4 \<and> c4 < 1114112
         then Some (c4, 4) else None)
      else None)"

lemma mbrtowc_consumes: "mbrtowc s = Some (c, n) \<Longrightarrow> 0 < n \<and> s \<noteq> ''''"
  by (auto simp: mbrtowc_def Let_def split: if_splits)

text \<open>
  The columns a text takes; \<open>wc\<close> is the library's \<open>wcwidth\<close>. At an ill-formed sequence the C
  function stops and returns what it has.
\<close>

function utf8_display_width :: "(nat \<Rightarrow> int) \<Rightarrow> string \<Rightarrow> int" where
  "utf8_display_width wc s =
     (if s = '''' then 0
      else (case mbrtowc s of
          None \<Rightarrow> 0
        | Some (c, n) \<Rightarrow> (if wc c \<ge> 0 then wc c else 0) + utf8_display_width wc (drop n s)))"
  by pat_completeness auto
termination
  by (relation "measure (\<lambda>(_, s). length s)") (auto dest!: mbrtowc_consumes)

declare utf8_display_width.simps [simp del]

text \<open>A text that a UTF-8 terminal can show.\<close>

function well_formed :: "string \<Rightarrow> bool" where
  "well_formed s =
     (if s = '''' then True
      else (case mbrtowc s of None \<Rightarrow> False | Some (c, n) \<Rightarrow> well_formed (drop n s)))"
  by pat_completeness auto
termination
  by (relation "measure length") (auto dest!: mbrtowc_consumes)

declare well_formed.simps [simp del]

section \<open>Formats\<close>

text \<open>
  \<open>%d\<close>; \<open>%ns\<close> and \<open>%-ns\<close>; \<open>%.ns\<close>,
    where a negative precision counts as none. Widths and precisions count bytes.
\<close>

definition show_int :: "int \<Rightarrow> string" where
  "show_int n = (if n < 0 then CHR ''-'' # dec (nat (- n)) else dec (nat n))"

definition pad_left :: "nat \<Rightarrow> string \<Rightarrow> string" where
  "pad_left n s = replicate (n - length s) CHR '' '' @ s"

definition pad_right :: "nat \<Rightarrow> string \<Rightarrow> string" where
  "pad_right n s = s @ replicate (n - length s) CHR '' ''"

definition precision :: "int \<Rightarrow> string \<Rightarrow> string" where
  "precision n s = (if n < 0 then s else take (nat n) s)"

text \<open>A format with \<open>%d\<close> conversions only.\<close>

fun print_d :: "string \<Rightarrow> int list \<Rightarrow> string" where
  "print_d (c # d # s) (n # ns) =
     (if c = CHR ''%'' \<and> d = CHR ''d'' then show_int n @ print_d s ns else c # print_d (d # s) (n # ns))"
| "print_d s ns = s"

section \<open>The two languages\<close>

record ui_text =
  t_title :: string
  t_terminal_small :: string
  t_resize :: string
  t_proxy :: string
  t_bypass :: string
  t_forwarder :: string
  t_iptables :: string
  t_autostart :: string
  t_configured :: string
  t_invalid :: string
  t_running :: string
  t_stopped :: string
  t_enabled :: string
  t_disabled :: string
  t_commands :: string
  t_start :: string
  t_enable :: string
  t_set_bypass :: string
  t_disable :: string
  t_startup :: string
  t_monitor :: string
  t_test :: string
  t_diagnostic :: string
  t_uninstall :: string
  t_language :: string
  t_refresh :: string
  t_quit :: string
  t_coverage :: string
  t_prompt :: string
  t_bypass_prompt :: string
  t_initial_message :: string
  t_input_cancelled :: string
  t_enable_failed :: string
  t_bypass_failed :: string
  t_disable_failed :: string
  t_startup_failed :: string
  t_language_failed :: string

definition UI_TEXT_ZH :: ui_text where
  "UI_TEXT_ZH = \<lparr>
     t_title = (''free_proxy  |  '' @ utf8 [36879, 26126] @ '' SOCKS5 '' @ utf8 [20195, 29702, 25511, 21046, 21488]),
     t_terminal_small = (utf8 [32456, 31471, 23610, 23544, 19981, 36275, 65306, 33267, 23569, 38656, 35201] @
       '' %d '' @ utf8 [21015, 12289] @ ''%d '' @ utf8 [34892, 12290]),
     t_resize = (utf8 [35831, 35843, 25972, 32456, 31471, 23610, 23544, 65292, 25110, 25353] @ '' q '' @
       utf8 [36864, 20986, 12290]),
     t_proxy = (''SOCKS5 '' @ utf8 [20195, 29702]),
     t_bypass = (utf8 [30452, 36830] @ '' IP/'' @ utf8 [32593, 27573]),
     t_forwarder = (utf8 [36716, 21457, 26381, 21153]),
     t_iptables = ''iptables'',
     t_autostart = (utf8 [24320, 26426, 33258, 21551]),
     t_configured = (utf8 [26410, 37197, 32622]),
     t_invalid = (utf8 [37197, 32622, 26080, 25928]),
     t_running = (utf8 [36816, 34892, 20013]),
     t_stopped = (utf8 [24050, 20572, 27490]),
     t_enabled = (utf8 [24050, 21551, 29992]),
     t_disabled = (utf8 [24050, 31105, 29992]),
     t_commands = (utf8 [25805, 20316]),
     t_start = (''s  '' @ utf8 [21551, 29992, 24050, 20445, 23384, 30340, 20195, 29702, 37197, 32622]),
     t_enable = (''e  '' @ utf8 [20462, 25913] @ '' IPv4:'' @ utf8 [31471, 21475] @ '' '' @ utf8 [24182, 21551,
       29992, 20195, 29702]),
     t_set_bypass = (''b  '' @ utf8 [35774, 32622, 30452, 36830] @ '' IPv4/CIDR'' @ utf8 [65288, 22810, 20010,
       29992, 36887, 21495, 20998, 38548, 65289]),
     t_disable = (''d  '' @ utf8 [20572, 29992, 20195, 29702]),
     t_startup = (''a  '' @ utf8 [20999, 25442, 24320, 26426, 33258, 21551]),
     t_monitor = (''m  '' @ utf8 [27969, 37327, 19982, 36830, 25509, 30417, 25511]),
     t_test = (''t  '' @ utf8 [25171, 24320, 32593, 32476, 27979, 35797, 39029]),
     t_diagnostic = (''c  '' @ utf8 [36830, 25509, 35786, 26029]),
     t_uninstall = (''u  '' @ utf8 [21368, 36733] @ '' free_proxy''),
     t_language = (''l  '' @ utf8 [20999, 25442, 35821, 35328, 65288, 20013, 25991] @ ''/English'' @ utf8 [65289]),
     t_refresh = (''r  '' @ utf8 [31435, 21363, 21047, 26032]),
     t_quit = (''q  '' @ utf8 [36864, 20986]),
     t_coverage = (utf8 [33539, 22260, 65306, 20165] @ '' IPv4 TCP'' @ utf8 [65307] @ ''DNS'' @ utf8 [12289] @
       ''UDP '' @ utf8 [21644] @ '' IPv6 '' @ utf8 [19981, 32463, 36807, 20195, 29702, 12290]),
     t_prompt = (''SOCKS5 '' @ utf8 [26381, 21153, 22120, 65288] @ ''IPv4:'' @ utf8 [31471, 21475, 65289, 65306]),
     t_bypass_prompt = (utf8 [30452, 36830] @ '' IP/'' @ utf8 [32593, 27573, 65288, 30041, 31354, 28165, 38500,
       65292, 22810, 20010, 29992, 36887, 21495, 20998, 38548, 65289, 65306]),
     t_initial_message = (utf8 [25353] @ '' s '' @ utf8 [21551, 29992, 24050, 20445, 23384, 37197, 32622, 65292,
       25110, 25353] @ '' e '' @ utf8 [20462, 25913, 20195, 29702, 22320, 22336, 12290]),
     t_input_cancelled = (utf8 [24050, 21462, 28040, 36755, 20837, 12290]),
     t_enable_failed = (utf8 [26080, 27861, 21551, 29992, 20195, 29702, 65292, 35831, 26816, 26597, 22320,
       22336, 21644, 31995, 32479, 37197, 32622, 12290]),
     t_bypass_failed = (utf8 [26080, 27861, 26356, 26032, 30452, 36830, 21015, 34920, 65292, 35831, 26816,
       26597] @ '' IPv4/CIDR '' @ utf8 [26684, 24335, 12290]),
     t_disable_failed = (utf8 [26080, 27861, 23436, 20840, 20572, 29992, 20195, 29702, 12290]),
     t_startup_failed = (utf8 [26080, 27861, 26356, 25913, 24320, 26426, 33258, 21551, 65307, 35831, 20808,
       25191, 34892] @ '' sudo make install'' @ utf8 [12290]),
     t_language_failed = (utf8 [26080, 27861, 20445, 23384, 35821, 35328, 35774, 32622, 12290])\<rparr>"

definition UI_TEXT_EN :: ui_text where
  "UI_TEXT_EN = \<lparr>
     t_title = ''free_proxy  |  Transparent SOCKS5 controller'',
     t_terminal_small = ''Terminal too small. Need at least %d columns and %d rows.'',
     t_resize = ''Resize the terminal or press q to exit.'',
     t_proxy = ''SOCKS5 proxy'',
     t_bypass = ''Direct IP/CIDR'',
     t_forwarder = ''Forwarder'',
     t_iptables = ''iptables'',
     t_autostart = ''Boot startup'',
     t_configured = ''not configured'',
     t_invalid = ''invalid configuration'',
     t_running = ''running'',
     t_stopped = ''stopped'',
     t_enabled = ''enabled'',
     t_disabled = ''disabled'',
     t_commands = ''Commands'',
     t_start = ''s  Enable saved proxy configuration'',
     t_enable = ''e  Change IPv4:PORT and enable proxy'',
     t_set_bypass = ''b  Set direct IPv4/CIDR entries (comma-separated)'',
     t_disable = ''d  Disable proxy'',
     t_startup = ''a  Toggle boot startup'',
     t_monitor = ''m  Traffic and connection monitor'',
     t_test = ''t  Open network test page'',
     t_diagnostic = ''c  Connection diagnostics'',
     t_uninstall = ''u  Uninstall free_proxy'',
     t_language = (''l  Switch language ('' @ utf8 [20013, 25991] @ ''/English)''),
     t_refresh = ''r  Refresh now'',
     t_quit = ''q  Quit'',
     t_coverage = ''Coverage: IPv4 TCP only. DNS, UDP, and IPv6 are not proxied.'',
     t_prompt = ''SOCKS5 server (IPv4:PORT): '',
     t_bypass_prompt = ''Direct IP/CIDR (empty clears; comma-separated): '',
     t_initial_message = ''Press s to enable saved settings or e to change the proxy.'',
     t_input_cancelled = ''Proxy input cancelled.'',
     t_enable_failed = ''Unable to enable proxy. Check the address and system setup.'',
     t_bypass_failed = ''Unable to update direct list. Check the IPv4/CIDR syntax.'',
     t_disable_failed = ''Unable to fully disable proxy.'',
     t_startup_failed = ''Unable to change boot startup; run sudo make install first.'',
     t_language_failed = ''Unable to save language setting.''\<rparr>"

definition UI_TEXT :: "fp_ui_language \<Rightarrow> ui_text" where
  "UI_TEXT language = (case language of FP_UI_LANGUAGE_ZH \<Rightarrow> UI_TEXT_ZH | FP_UI_LANGUAGE_EN \<Rightarrow> UI_TEXT_EN)"

text \<open>\<open>language == FP_UI_LANGUAGE_ZH ? zh : en\<close>.\<close>

definition wording :: "fp_ui_language \<Rightarrow> string \<Rightarrow> string \<Rightarrow> string" where
  "wording language zh en = (if language = FP_UI_LANGUAGE_ZH then zh else en)"

section \<open>Facts on texts\<close>

lemma length_utf8_char:
  "length (utf8_char c) = (if c < 128 then 1 else if c < 2048 then 2 else if c < 65536 then 3 else 4)"
  by (simp add: utf8_char_def)

lemma utf8_simps [simp]: "utf8 [] = ''''" "utf8 (c # cs) = utf8_char c @ utf8 cs"
  by (simp_all add: utf8_def)

text \<open>Code points that can be encoded, without the terminating NUL.\<close>

definition scalar :: "nat \<Rightarrow> bool" where
  "scalar c \<longleftrightarrow> c < 55296 \<or> 57344 \<le> c \<and> c < 1114112"

lemma of_char_char_of_less: "n < 256 \<Longrightarrow> of_char (char_of n) = (n :: nat)"
  by simp

lemma digit_64: "(c :: nat) = c div 64 * 64 + c mod 64" by simp

lemma div_64_steps:
  "(c :: nat) div 4096 = c div 64 div 64" "(c :: nat) div 262144 = c div 64 div 64 div 64"
  by (simp_all add: div_mult2_eq [symmetric])

lemma decode_char: "scalar c \<Longrightarrow> mbrtowc (utf8_char c @ s) = Some (c, length (utf8_char c))"
proof -
  assume s: "scalar c"
  define d where "d = c div 64" define e where "e = d div 64" define f where "f = e div 64"
  define x where "x = c mod 64" define y where "y = d mod 64" define z where "z = e mod 64"
  have eq: "c = d * 64 + x" "d = e * 64 + y" "e = f * 64 + z"
    unfolding d_def e_def f_def x_def y_def z_def by simp_all
  have b: "x < 64" "y < 64" "z < 64" unfolding x_def y_def z_def by simp_all
  have u: "utf8_char c = map char_of (if c < 128 then [c] else if c < 2048 then [192 + d, 128 + x]
      else if c < 65536 then [224 + e, 128 + y, 128 + x] else [240 + f, 128 + z, 128 + y, 128 + x])"
    by (simp add: utf8_char_def div_64_steps d_def e_def f_def x_def y_def z_def)
  consider "c < 128" | "128 \<le> c" "c < 2048" | "2048 \<le> c" "c < 65536" | "65536 \<le> c" "c < 1114112"
    using s by (cases "c < 128"; cases "c < 2048"; cases "c < 65536") (auto simp: scalar_def)
  then show ?thesis
  proof cases
    case 1 then show ?thesis by (simp add: u mbrtowc_def)
  next
    case 2
    with eq b have "2 \<le> d" "d < 32" "d * 64 + x = c" by linarith+
    with 2 b show ?thesis by (simp add: u mbrtowc_def continues_def)
  next
    case 3
    with eq b have "e < 16" "e * 4096 + y * 64 + x = c" by linarith+
    with 3 b s show ?thesis by (simp add: u mbrtowc_def continues_def scalar_def) linarith
  next
    case 4
    with eq b have "f < 5" "f * 262144 + z * 4096 + y * 64 + x = c" by linarith+
    with 4 b show ?thesis by (simp add: u mbrtowc_def continues_def)
  qed
qed

lemma utf8_char_nonempty [simp]: "utf8_char c \<noteq> ''''" by (simp add: utf8_char_def)

lemma width_char:
  "scalar c \<Longrightarrow> utf8_display_width wc (utf8_char c @
    s) = (if wc c \<ge> 0 then wc c else 0) + utf8_display_width wc s"
  by (subst utf8_display_width.simps) (simp add: decode_char)

lemma well_formed_char: "scalar c \<Longrightarrow> well_formed (utf8_char c @ s) = well_formed s"
  by (subst well_formed.simps) (simp add: decode_char)

lemma utf8_char_ascii: "c < 128 \<Longrightarrow> utf8_char c = [char_of c]"
  by (simp add: utf8_char_def)

lemma ascii_char: "of_char ch < (128 :: nat) \<Longrightarrow> utf8_char (of_char ch) = [ch]"
  by (simp add: utf8_char_ascii)

text \<open>Plain ASCII texts.\<close>

lemma width_ascii:
  "of_char ch < (128 :: nat) \<Longrightarrow>
    utf8_display_width wc (ch # s) = (if wc (of_char ch) \<ge> 0 then wc (of_char ch) else 0) + utf8_display_width wc s"
  using width_char [of "of_char ch" wc s] by (simp add: ascii_char scalar_def)

lemma well_formed_ascii: "of_char ch < (128 :: nat) \<Longrightarrow> well_formed (ch # s) = well_formed s"
  using well_formed_char [of "of_char ch" s] by (simp add: ascii_char scalar_def)

lemma width_Nil [simp]: "utf8_display_width wc '''' = 0"
  by (subst utf8_display_width.simps) simp

lemma well_formed_Nil [simp]: "well_formed ''''"
  by (subst well_formed.simps) simp

lemma well_formed_utf8: "list_all scalar cs \<Longrightarrow> well_formed (utf8 cs @ s) = well_formed s"
  by (induction cs) (simp_all add: well_formed_char)

end
