(* ===== verification/Tui_Screen.thy ===== *)
theory Tui_Screen
  imports Tui_Text Format Operations Net_Test Diagnostic Stats
begin

text \<open>
  What the terminal interface draws (the \<open>draw_\<close> functions of \<open>src/tui.c\<close>). A screen is the list of
  the texts put on it after \<open>erase\<close>, each with its row and column; a text outside the window is not
  shown by the library. Colours and attributes are left out. \<open>lines\<close> and \<open>cols\<close> are the size of the
  window; \<open>wc\<close> is the C library's \<open>wcwidth\<close>,
    \<open>strerror\<close> and \<open>gai_strerror\<close> are its texts for error numbers.
\<close>

type_synonym screen = "(int \<times> int \<times> string) list"

record window =
  lines :: int
  cols :: int
  wc :: "nat \<Rightarrow> int"
  strerror :: "int \<Rightarrow> string"
  gai_strerror :: "int \<Rightarrow> string"

definition MIN_ROWS :: int where "MIN_ROWS = 26"
definition MIN_COLS :: int where "MIN_COLS = 66"
definition LABEL_WIDTH :: int where "LABEL_WIDTH = 18"

section \<open>Pieces\<close>

text \<open>\<open>mvhline(row, 2, '-', COLS - 4)\<close>.\<close>

definition rule_line :: "window \<Rightarrow> int \<Rightarrow> int \<times> int \<times> string" where
  "rule_line t row = (row, 2, replicate (nat (cols t - 4)) CHR ''-'')"

fun blanks :: "int \<Rightarrow> int \<Rightarrow> nat \<Rightarrow> screen" where
  "blanks row column 0 = []"
| "blanks row column (Suc n) = (row, column, '' '') # blanks row (column + 1) n"

definition draw_text_field :: "int \<Rightarrow> int \<Rightarrow> int \<Rightarrow> string \<Rightarrow> screen" where
  "draw_text_field row column width s =
     blanks row column (nat width) @ (if s \<noteq> '''' then [(row, column, s)] else [])"

definition ARROW_WIDTH :: int where "ARROW_WIDTH = 2"

definition draw_arrow :: "int \<Rightarrow> int \<Rightarrow> bool \<Rightarrow> screen" where
  "draw_arrow row column up =
     blanks row column (nat ARROW_WIDTH) @ [(row, column, if up then (utf8 [8593]) else (utf8 [8595]))]"

definition draw_line :: "window \<Rightarrow> int \<Rightarrow> string \<Rightarrow> string \<Rightarrow> screen" where
  "draw_line t row label val =
     (let after = 4 + utf8_display_width (wc t) label; column = max after (4 + LABEL_WIDTH) in
      [(row, 4, label)] @ blanks row after (nat (4 + LABEL_WIDTH - after))
        @ [(row, column, precision (cols t - column - 2) val)])"

section \<open>The main screen\<close>

definition daemon_text :: "ui_text \<Rightarrow> fp_status \<Rightarrow> string" where
  "daemon_text ui status =
     snprintf 64 (if daemon_running status
       then t_running ui @ '' (PID '' @ show_int (daemon_pid status) @ '')'' else t_stopped ui)"

definition draw_screen :: "window \<Rightarrow> fp_status \<Rightarrow> ui_text \<Rightarrow> string \<Rightarrow> screen" where
  "draw_screen t status ui message =
     (if cols t < MIN_COLS \<or> lines t < MIN_ROWS
      then [(1, 2, print_d (t_terminal_small ui) [MIN_COLS, MIN_ROWS]), (3, 2, t_resize ui)]
      else
        (let on_off = (\<lambda>b. if b then t_enabled ui else t_disabled ui) in
        [(1, 4, t_title ui), rule_line t 2]
        @ draw_line t 4 (t_proxy ui) (if config_valid status then proxy_text status
            else if config_present status then t_invalid ui else t_configured ui)
        @ draw_line t 5 (t_bypass ui) (if config_valid status then bypass_shown status else ''-'')
        @ draw_line t 6 (t_forwarder ui) (daemon_text ui status)
        @ draw_line t 7 (t_iptables ui) (on_off (firewall_enabled status))
        @ draw_line t 8 (t_autostart ui) (on_off (autostart_enabled status))
        @ [rule_line t 9, (10, 4, t_commands ui), (11, 4, t_start ui), (12, 4, t_enable ui),
           (13, 4, t_set_bypass ui), (14, 4, t_disable ui), (15, 4, t_startup ui), (16, 4, t_monitor ui),
           (17, 4, t_test ui), (18, 4, t_diagnostic ui), (19, 4, t_uninstall ui), (20, 4, t_language ui),
           (21, 4, t_refresh ui), (22, 4, t_quit ui), (23, 4, t_coverage ui)]
        @ (if message \<noteq> '''' then [(lines t - 2, 4, precision (cols t - 8) message)] else [])))"

section \<open>The test page\<close>

definition draw_test_menu :: "window \<Rightarrow> fp_ui_language \<Rightarrow> screen" where
  "draw_test_menu t l =
     [(2, 4, wording l (utf8 [32593, 32476, 27979, 35797]) ''Network test''), rule_line t 3,
      (5, 4, wording l (utf8 [35831, 36873, 25321, 27979, 35797, 31867, 22411, 65306]) ''Choose a test type:''),
      (7, 4, wording l (''1  '' @ utf8 [32593, 39029, 36830, 36890, 24615]) ''1  Site connectivity''),
      (8, 4, wording l (''2  '' @ utf8 [31471, 21040, 31471, 21709, 24212, 24310, 36831]) ''2  End-to-end response latency''),
      (9, 4, wording l (''3  '' @ utf8 [19979, 36733, 27979, 36895]) ''3  Download speed''),
      (lines t - 2, 4, wording l (''q  '' @ utf8 [36820, 22238, 20027, 30028, 38754]) ''q  Back to main screen'')]"

record test_progress_history =
  items :: "fp_test_progress_event list"
  h_count :: nat
  h_total :: nat

definition empty_history :: test_progress_history where
  "empty_history = \<lparr>items = replicate FP_TEST_MAX_SITES zero_event, h_count = 0, h_total = 0\<rparr>"

definition completed_line :: "fp_ui_language \<Rightarrow> fp_test_mode \<Rightarrow> fp_test_progress_event \<Rightarrow> string" where
  "completed_line l m it =
     snprintf 160 (pad_left 2 (dec (ev_index it)) @ ''. '' @ pad_right 18 (take 18 (ev_name it)) @ '' ''
       @ (if ev_state it = FP_TEST_SITE_OK \<and> m = FP_TEST_MODE_CONNECTIVITY
          then wording l (utf8 [25104, 21151] @ ''  '' @ utf8 [39318, 23383, 33410] @
            '' '') ''OK  first byte '' @ show_int (ev_latency_ms it) @ '' ms''
          else if ev_state it = FP_TEST_SITE_OK then show_int (ev_latency_ms it) @ '' ms''
          else wording l (utf8 [22833, 36133]) ''FAIL''))"

fun draw_rows :: "window \<Rightarrow> int \<Rightarrow> int \<Rightarrow> string list \<Rightarrow> screen" where
  "draw_rows t row last_row [] = []"
| "draw_rows t row last_row (s # ss) =
     (if row \<le> last_row then (row, 4, precision (cols t - 8) s) # draw_rows t (row + 1) last_row ss else [])"

definition draw_completed_test_results ::
    "window \<Rightarrow> fp_ui_language \<Rightarrow> fp_test_mode \<Rightarrow> test_progress_history \<Rightarrow> screen" where
  "draw_completed_test_results t l m h =
     (let first_row = 9; last_row = lines t - 4 in
      if m \<notin> {FP_TEST_MODE_CONNECTIVITY, FP_TEST_MODE_LATENCY} \<or> h_count h = 0 \<or> last_row < first_row then []
      else
        (let capacity = nat (last_row - first_row + 1);
             first = (if h_count h > capacity then h_count h - capacity else 0) in
        (8, 4, wording l (utf8 [24050, 23436, 25104, 65288]) ''Completed ('' @ dec (h_count h) @ ''/'' @
          dec (h_total h) @ wording l (utf8 [65289, 65306]) ''):'')
        # draw_rows t first_row last_row (map (\<lambda>i. completed_line l m (items h ! i)) [first..<h_count h])))"

text \<open>The two lines on a running test: its state, and the details of a download.\<close>

definition up_to :: string where
  "up_to = fp_format_bytes 32 (word_of_nat FP_TEST_SPEED_MAX_BYTES)"

definition progress_lines :: "fp_ui_language \<Rightarrow> fp_test_progress_event \<Rightarrow> string \<times> string" where
  "progress_lines l e =
     (let place = dec (ev_index e) @ ''/'' @ dec (ev_total e); running = (ev_state e = FP_TEST_SITE_RUNNING);
          passed = (ev_state e = FP_TEST_SITE_OK); target = ev_name e @ '' ('' @ ev_domain e @ '')'';
          latency = show_int (ev_latency_ms e); speed = fp_format_rate 32 (ev_speed_bps e);
          got = fp_format_bytes 32 (word_of_nat (ev_bytes e)) in
      case ev_phase e of
        FP_TEST_PHASE_PREFLIGHT \<Rightarrow> (snprintf 192 (wording l (utf8 [27491, 22312, 26816, 26597, 26412,
          22320, 36716, 21457, 26381, 21153, 8230]) (''Checking local forwarder'' @ utf8 [8230])), '''')
      | FP_TEST_PHASE_CONNECTIVITY \<Rightarrow> (snprintf 192
          (wording l (utf8 [36830, 36890, 24615] @ '' '') ''Connectivity '' @ place @ wording l (utf8 [65306]) '': ''
           @ (if running then target @ (utf8 [8230])
              else if passed then ev_name e @ wording l (''  '' @ utf8 [25104, 21151, 65288, 39318, 23383,
                33410] @ '' '') ''  OK (first byte '' @ latency @ wording l ('' ms'' @ utf8 [65289]) '' ms)''
              else ev_name e @ wording l (''  '' @ utf8 [22833, 36133]) ''  failed'')), '''')
      | FP_TEST_PHASE_LATENCY \<Rightarrow> (snprintf 192
          (wording l (utf8 [21709, 24212, 24310, 36831] @ '' '') ''Response latency '' @ place @ wording l (utf8 [65306]) '': ''
           @ (if running then target @ (utf8 [8230])
              else if passed then ev_name e @ ''  '' @ latency @ '' ms''
              else ev_name e @ wording l (''  '' @ utf8 [22833, 36133]) ''  failed'')), '''')
      | FP_TEST_PHASE_SPEED \<Rightarrow>
          (let head = wording l (utf8 [27979, 36895] @ '' '') ''Speed '' @ place @
            wording l (utf8 [65306]) '': '' @ ev_name e in
           if running then
             (snprintf 192 (head @ wording l (utf8 [65288, 26368, 22810] @ '' '') '' (up to '' @ up_to @
               wording l (utf8 [65289]) '')''),
              snprintf 160 (wording l (utf8 [23454, 26102, 36895, 24230, 65306]) ''Live speed: '' @ pad_right 11 speed
                @ wording l (''  '' @ utf8 [24050, 19979, 36733, 65306]) ''  downloaded: '' @ got @ '' / '' @ up_to))
           else if passed then
             (snprintf 192 (head @ wording l (''  '' @ utf8 [23436, 25104] @ '' '') ''  done '' @ speed),
              snprintf 160 (wording l (utf8 [19979, 36733, 37327, 65306]) ''Downloaded: '' @ got))
           else (snprintf 192 (head @ wording l (''  '' @ utf8 [22833, 36133]) ''  failed''), ''''))
      | FP_TEST_PHASE_DONE \<Rightarrow> (snprintf 192 (wording l (utf8 [27491, 22312, 27719, 24635, 32467,
        26524, 8230]) (''Summarizing results'' @ utf8 [8230])), ''''))"

definition draw_test_progress ::
    "window \<Rightarrow> fp_ui_language \<Rightarrow> fp_test_mode \<Rightarrow> fp_test_progress_event \<Rightarrow> test_progress_history \<Rightarrow> bool \<Rightarrow> screen" where
  "draw_test_progress t l m e h cancelling =
     (let (line, detail) = progress_lines l e in
      [(2, 4, wording l (utf8 [32593, 32476, 27979, 35797]) ''Network test''), rule_line t 3]
      @ draw_completed_test_results t l m h
      @ [(6, 4, precision (cols t - 8) line)]
      @ (if detail \<noteq> '''' then [(8, 4, precision (cols t - 8) detail)] else [])
      @ [(lines t - 2, 4, if cancelling then wording l (utf8 [27491, 22312, 21462, 28040, 8230]) (''Cancelling'' @ utf8 [8230])
            else wording l (utf8 [25353] @ '' q '' @ utf8 [21462, 28040, 27979, 35797]) ''Press q to cancel'')])"

text \<open>The loop that lists targets below the summary,
  in rows above \<open>LINES - 5\<close>; \<open>None\<close> is a target without a line.\<close>

fun target_rows :: "window \<Rightarrow> int \<Rightarrow> string option list \<Rightarrow> screen \<times> int" where
  "target_rows t row [] = ([], row)"
| "target_rows t row (s # ss) =
     (if row < lines t - 5 then
        (case s of
           None \<Rightarrow> target_rows t row ss
         | Some s \<Rightarrow> (let (rest, row') = target_rows t (row + 1) ss in ((row, 6, s) # rest, row')))
      else ([], row))"

definition latency_row :: "fp_test_site_result \<Rightarrow> string option" where
  "latency_row s =
     (if site_state s = FP_TEST_SITE_OK
      then Some (pad_right 18 (site_name s) @ '' '' @ pad_left 4 (show_int (latency_ms s)) @ '' ms'')
      else if site_state s = FP_TEST_SITE_FAIL then Some (pad_right 18 (site_name s) @ '' FAIL'')
      else None)"

definition speed_row :: "fp_test_site_result \<Rightarrow> string option" where
  "speed_row s =
     (let mark = (case site_state s of FP_TEST_SITE_OK \<Rightarrow> ''OK'' | FP_TEST_SITE_FAIL \<Rightarrow> ''FAIL''
            | FP_TEST_SITE_CANCELLED \<Rightarrow> ''SKIP'' | _ \<Rightarrow> ''...'') in
      if site_state s = FP_TEST_SITE_OK
      then Some (pad_right 4 mark @ '' '' @ pad_right 18 (site_name s) @ '' ''
        @ pad_right 11 (fp_format_rate 32 (speed_bps s)) @ ''  ''
        @ fp_format_bytes 32 (word_of_nat (bytes_downloaded s)))
      else if site_state s \<noteq> FP_TEST_SITE_PENDING then Some (pad_right 4 mark @ '' '' @ pad_right 18 (site_name s))
      else None)"

text \<open>
  The mean of the latencies that were measured: the sum and the count of the loop, and the truncating
  division. (The sum of at most 25 latencies of at most 3 s fits an \<open>int\<close>.)
\<close>

definition measured :: "fp_test_report \<Rightarrow> int list" where
  "measured rep = map latency_ms (filter (\<lambda>s. site_state s = FP_TEST_SITE_OK \<and> latency_ms s \<ge> 0) (sites rep))"

definition mean_latency :: "fp_test_report \<Rightarrow> int option" where
  "mean_latency rep =
     (if measured rep = [] then None else Some (sum_list (measured rep) div int (length (measured rep))))"

text \<open>
  The failed targets, cut into rows. A negative width is a huge \<open>size_t\<close>: then the whole rest goes in one row.
\<close>

function failure_rows :: "window \<Rightarrow> int \<Rightarrow> string \<Rightarrow> screen" where
  "failure_rows t row rest =
     (if rest \<noteq> '''' \<and> row < lines t - 3 then
        (let width = cols t - 8; n = (if 0 \<le> width \<and> length rest > nat width then nat width else length rest) in
         (row, 4, take n rest) # failure_rows t (row + 1) (drop n rest))
      else [])"
  by pat_completeness auto
termination
  by (relation "measure (\<lambda>(t, row, rest). nat (lines t - 3 - row))") auto

declare failure_rows.simps [simp del]

definition passed_of :: "nat \<Rightarrow> nat \<Rightarrow> string" where
  "passed_of k n = dec k @ ''/'' @ dec n"

definition summary_line :: "fp_ui_language \<Rightarrow> fp_test_report \<Rightarrow> string" where
  "summary_line l rep =
     (case mode rep of
        FP_TEST_MODE_CONNECTIVITY \<Rightarrow> wording l (utf8 [36830, 36890, 24615, 65306]) ''Connectivity: ''
          @ passed_of (sites_passed rep) (length (sites rep)) @ wording l ('' '' @ utf8 [25104, 21151]) '' passed''
      | FP_TEST_MODE_LATENCY \<Rightarrow> wording l (utf8 [31471, 21040, 31471, 21709, 24212, 24310, 36831,
        65306]) ''End-to-end response latency: ''
          @ passed_of (sites_passed rep) (length (sites rep)) @ wording l ('' '' @ utf8 [25104, 21151]) '' passed''
          @ (case mean_latency rep of None \<Rightarrow> '''' | Some a \<Rightarrow> wording l (utf8 [65292,
            24179, 22343] @ '' '') '', avg '' @ show_int a @ '' ms'')
      | FP_TEST_MODE_SPEED \<Rightarrow> wording l (utf8 [27979, 36895, 65306]) ''Speed: ''
          @ passed_of (speed_passed rep) (length (speeds rep)) @ wording l ('' '' @ utf8 [25104, 21151, 65292,
            23792, 20540] @ '' '') '' passed, peak ''
          @ fp_format_rate 32 (best_speed_bps rep))"

definition draw_test_results :: "window \<Rightarrow> fp_ui_language \<Rightarrow> fp_test_report \<Rightarrow> screen" where
  "draw_test_results t l rep =
     [(2, 4, wording l (utf8 [27979, 35797, 32467, 26524]) ''Test results''), rule_line t 3]
     @ (if \<not> listener_ok rep
        then [(5, 4, wording l (utf8 [39044, 26816, 22833, 36133, 65306, 35831, 30830, 35748, 26381, 21153,
          12289, 35268, 21017, 21644, 23487, 20027, 26426] @ '' SOCKS5 '' @ utf8 [21487, 29992, 12290])
                ''Preflight failed: check the forwarder, rules, and host SOCKS5.'')]
        else
          (let head = (if was_cancelled rep then [(5, 4, wording l (utf8 [27979, 35797, 24050, 21462, 28040,
            12290]) ''Test cancelled.'')] else []);
               row = 5 + int (length head);
               (targets, row') = target_rows t (row + 1)
                 (case mode rep of FP_TEST_MODE_CONNECTIVITY \<Rightarrow> []
                    | FP_TEST_MODE_LATENCY \<Rightarrow> map latency_row (sites rep)
                    | FP_TEST_MODE_SPEED \<Rightarrow> map speed_row (speeds rep)) in
           head @ [(row, 4, summary_line l rep)] @ targets
           @ (if row' < lines t - 3
              then (row', 4, wording l (utf8 [22833, 36133, 30446, 26631]) ''Failed targets'' @ '':'')
                # (if failures rep = '''' then [(row' + 1, 4, wording l (utf8 [26080]) ''None'')]
                   else failure_rows t (row' + 1) (failures rep))
              else [])))
     @ [(lines t - 2, 4, wording l (utf8 [25353, 20219, 24847, 38190, 36820, 22238, 27979, 35797, 33756,
       21333]) ''Press any key to return to menu'')]"

section \<open>The diagnosis page\<close>

definition step_index :: "fp_diagnostic_step \<Rightarrow> nat" where
  "step_index s = length (takeWhile (\<lambda>x. x \<noteq> s) all_steps)"

definition diagnostic_step_name :: "fp_ui_language \<Rightarrow> fp_diagnostic_step \<Rightarrow> string" where
  "diagnostic_step_name l step =
     (if step = FP_DIAGNOSTIC_DONE then wording l (utf8 [23436, 25104]) ''Done''
      else wording l
        ([(utf8 [20195, 29702, 37197, 32622]), (utf8 [36716, 21457, 36827, 31243]), (utf8 [26412, 22320, 30417,
          21548]), (''iptables '' @ utf8 [35268, 21017]), (utf8 [20195, 29702, 31471, 21475]),
          (''SOCKS5 '' @ utf8 [21327, 35758]), (utf8 [26412, 22320] @ '' DNS''), (utf8 [20195, 29702, 20986,
            31449]), (utf8 [36879, 26126, 36716, 21457])] ! step_index step)
        ([''Proxy config'', ''Forwarder'', ''Local listener'', ''iptables rules'', ''Proxy TCP'',
          ''SOCKS5 protocol'', ''Local DNS'', ''Proxy outbound'', ''Transparent path''] ! step_index step))"

text \<open>The error numbers are those of Linux.\<close>

definition diagnostic_socket_error :: "window \<Rightarrow> fp_ui_language \<Rightarrow> int \<Rightarrow> string" where
  "diagnostic_socket_error t l code =
     (if code = 110 then wording l (utf8 [36830, 25509, 36229, 26102]) ''connection timed out''
      else if code = 11 then wording l (utf8 [31561, 24453, 21709, 24212, 36229, 26102]) ''response timed out''
      else if code = 111 then wording l (utf8 [31471, 21475, 25298, 32477, 36830, 25509]) ''connection refused''
      else if code = 101 then wording l (utf8 [32593, 32476, 19981, 21487, 36798]) ''network unreachable''
      else if code = 113 then wording l (utf8 [30446, 26631, 20027, 26426, 19981, 21487, 36798]) ''host unreachable''
      else if code = 13 \<or> code = 1 then wording l (utf8 [26435, 38480, 25110, 38450, 28779, 22681, 25298,
        32477]) ''permission denied''
      else if code = 71 then wording l (utf8 [30446, 26631, 36820, 22238, 20102, 38750] @ '' HTTP '' @
        utf8 [25968, 25454]) ''non-HTTP response''
      else if code = 0 then wording l (utf8 [26410, 30693, 36830, 25509, 38169, 35823]) ''unknown connection error''
      else strerror t code)"

definition diagnostic_socks_reply :: "fp_ui_language \<Rightarrow> int \<Rightarrow> string" where
  "diagnostic_socks_reply l reply =
     (if reply < 0 \<or> reply > 8 then wording l (utf8 [26410, 30693] @ '' SOCKS5 '' @ utf8 [38169,
       35823]) ''unknown SOCKS5 error''
      else wording l
        ([(utf8 [25104, 21151]), (utf8 [20195, 29702, 26381, 21153, 22120, 20869, 37096, 38169, 35823]),
          (utf8 [20195, 29702, 35268, 21017, 25298, 32477]), (utf8 [20195, 29702, 20391, 32593, 32476, 19981,
          21487, 36798]),
          (utf8 [20195, 29702, 20391, 30446, 26631, 19981, 21487, 36798]), (utf8 [30446, 26631, 31471, 21475,
            25298, 32477, 36830, 25509]), (''TTL '' @ utf8 [36229, 26102]), (utf8 [20195, 29702, 19981, 25903,
            25345] @ '' CONNECT''),
          (utf8 [20195, 29702, 19981, 25903, 25345, 30446, 26631, 22320, 22336, 31867, 22411])] ! nat reply)
        ([''success'', ''general proxy failure'', ''denied by proxy rules'', ''proxy network unreachable'',
          ''target host unreachable'', ''target connection refused'', ''TTL expired'',
          ''CONNECT unsupported'', ''address type unsupported''] ! nat reply))"

text \<open>\<open>0x%02x\<close> of the low byte.\<close>

definition hex_byte :: "int \<Rightarrow> string" where
  "hex_byte n = (let b = nat (n mod 256); digit = (\<lambda>d. ''0123456789abcdef'' ! d) in
     ''0x'' @ [digit (b div 16), digit (b mod 16)])"

definition reason_text :: "window \<Rightarrow> fp_ui_language \<Rightarrow> fp_diagnostic_item \<Rightarrow> string" where
  "reason_text t l it =
     (let socket_error = diagnostic_socket_error t l (error_code it) in
      case item_reason it of
        REASON_CANCELLED \<Rightarrow> wording l (utf8 [29992, 25143, 21462, 28040, 20102, 35786, 26029,
          12290]) ''Diagnostic cancelled by user.''
      | REASON_CONFIG_MISSING \<Rightarrow> wording l (utf8 [23578, 26410, 20445, 23384] @ '' SOCKS5 '' @
        utf8 [20195, 29702, 22320, 22336, 65292, 35831, 20808, 25353] @ '' e '' @ utf8 [37197, 32622,
        12290]) ''No SOCKS5 address saved; configure it with e.''
      | REASON_CONFIG_INVALID \<Rightarrow> wording l (utf8 [37197, 32622, 25991, 20214, 26684, 24335, 26080,
        25928, 65292, 35831, 37325, 26032, 36755, 20837, 20195, 29702, 22320, 22336, 12290])
          ''The configuration file is invalid; enter the proxy again.''
      | REASON_DAEMON_STOPPED \<Rightarrow> wording l (utf8 [36716, 21457, 36827, 31243, 26410, 36816, 34892,
        65292, 35831, 25353] @ '' s '' @ utf8 [21551, 29992, 20195, 29702,
        12290]) ''The forwarder is not running; enable it with s.''
      | REASON_DAEMON_CONFIG_MISMATCH \<Rightarrow> wording l (utf8 [36816, 34892, 36827, 31243, 19982, 24403,
        21069, 37197, 32622, 19981, 21305, 37197, 65292, 21487, 33021, 26159, 26087] @ '' PID '' @ utf8 [25110,
        26087, 37197, 32622, 12290])
          ''The running process does not match the saved configuration.''
      | REASON_LISTENER_UNREACHABLE \<Rightarrow> wording l (utf8 [26412, 22320] @ '' 127.0.0.1:12345 '' @
        utf8 [19981, 36890, 65306]) ''Local 127.0.0.1:12345 failed: ''
          @ socket_error @ wording l (utf8 [12290]) ''.''
      | REASON_FIREWALL_INCOMPLETE \<Rightarrow> wording l (''FPROXY_OUT '' @ utf8 [25110] @ '' OUTPUT '' @
        utf8 [36339, 36716, 35268, 21017, 32570, 22833] @ ''/'' @ utf8 [19981, 23436, 25972, 12290])
          ''FPROXY_OUT or its OUTPUT jump is missing/incomplete.''
      | REASON_PROXY_UNREACHABLE \<Rightarrow> wording l (utf8 [26080, 27861, 36830, 25509] @ '' SOCKS5 '' @
        utf8 [20195, 29702, 65306]) ''Cannot reach the SOCKS5 proxy: ''
          @ socket_error @ wording l (utf8 [12290]) ''.''
      | REASON_SOCKS_IO \<Rightarrow> wording l (''SOCKS5 '' @ utf8 [25569, 25163, 20013, 26029,
        65306]) ''SOCKS5 handshake I/O failed: '' @ socket_error @ wording l (utf8 [12290]) ''.''
      | REASON_SOCKS_VERSION \<Rightarrow> wording l (utf8 [30446, 26631, 31471, 21475, 19981, 26159] @
        '' SOCKS5 '' @ utf8 [26381, 21153, 65288, 29256, 26412] @
        '' '') ''The endpoint is not SOCKS5 (version ''
          @ hex_byte (detail_code it) @ wording l (utf8 [65289, 12290]) '').''
      | REASON_SOCKS_AUTH \<Rightarrow> wording l (utf8 [20195, 29702, 19981, 25509, 21463, 26080, 35748, 35777,
        26041, 24335, 65288, 26041, 27861] @ '' '') ''The proxy rejected no-auth (method ''
          @ hex_byte (detail_code it) @ wording l (utf8 [65289, 65292, 24403, 21069, 31243, 24207, 19981, 25903,
            25345, 36134, 21495, 23494, 30721, 12290]) ''); credentials are unsupported.''
      | REASON_DNS_FAILED \<Rightarrow> wording l (utf8 [26412, 22320] @ '' DNS '' @ utf8 [26080, 27861, 35299,
        26512] @ '' github.com'' @ utf8 [65306]) ''Local DNS cannot resolve github.com: ''
          @ (if error_code it \<noteq> 0 then gai_strerror t (error_code it) else diagnostic_socket_error t l 0)
          @ wording l (utf8 [12290]) ''.''
      | REASON_SOCKS_CONNECT_REJECTED \<Rightarrow> wording l (utf8 [20195, 29702, 26080, 27861, 36830, 25509] @
        '' github.com:80'' @ utf8 [65306]) ''Proxy cannot reach github.com:80: ''
          @ diagnostic_socks_reply l (detail_code it) @ wording l (utf8 [12290]) ''.''
      | REASON_TRANSPARENT_FAILED \<Rightarrow> wording l (utf8 [20195, 29702, 30452, 36830, 24050, 36890,
        36807, 65292, 20294, 36879, 26126, 38142, 36335, 26410, 25910, 21040, 26377, 25928, 21709, 24212,
        65306])
          ''Direct SOCKS passed, but transparent forwarding failed: ''
          @ socket_error @ wording l (utf8 [12290, 35831, 26816, 26597] @ '' REDIRECT/original-dst'' @ utf8 [12290]) ''.''
      | _ \<Rightarrow> wording l (utf8 [20869, 37096, 35786, 26029, 38169, 35823, 12290]) ''Internal diagnostic error.'')"

definition format_diagnostic_reason :: "window \<Rightarrow> fp_ui_language \<Rightarrow> fp_diagnostic_item \<Rightarrow> nat \<Rightarrow> string" where
  "format_diagnostic_reason t l it buffer_size = snprintf buffer_size (reason_text t l it)"

definition draw_diagnostic_progress :: "window \<Rightarrow> fp_ui_language \<Rightarrow> fp_diagnostic_event \<Rightarrow> bool \<Rightarrow> screen" where
  "draw_diagnostic_progress t l e cancelling =
     [(2, 4, wording l (utf8 [36830, 25509, 35786, 26029]) ''Connection diagnostics''), rule_line t 3,
      (6, 4, wording l (utf8 [27493, 39588] @ '' '') ''Step '' @ dec (event_index e) @ ''/'' @
        dec (event_total e) @ wording l (utf8 [65306]) '': ''
        @ diagnostic_step_name l (item_step (event_item e))),
      (8, 4, if cancelling then wording l (utf8 [27491, 22312, 21462, 28040, 8230]) (''Cancelling'' @
        utf8 [8230]) else wording l (utf8 [27491, 22312, 26816, 26597, 8230]) (''Checking'' @ utf8 [8230])),
      (lines t - 2, 4, wording l (utf8 [25353] @ '' q '' @ utf8 [21462, 28040, 35786, 26029]) ''Press q to cancel'')]"

text \<open>The loop over the steps: its lines and the last reason it has formatted.\<close>

fun step_rows :: "window \<Rightarrow> fp_ui_language \<Rightarrow> int \<Rightarrow> fp_diagnostic_item list \<Rightarrow> string \<Rightarrow> screen \<times> string" where
  "step_rows t l row [] reason = ([], reason)"
| "step_rows t l row (it # its) reason =
     (if \<not> row < lines t - 6 \<or> item_state it = FP_DIAGNOSTIC_PENDING then ([], reason)
      else
        (let mark = (case item_state it of FP_DIAGNOSTIC_OK \<Rightarrow> ''OK'' | FP_DIAGNOSTIC_FAIL \<Rightarrow> ''FAIL''
               | FP_DIAGNOSTIC_CANCELLED \<Rightarrow> ''STOP'' | _ \<Rightarrow> ''...'');
             reason = (if item_state it \<in> {FP_DIAGNOSTIC_FAIL, FP_DIAGNOSTIC_CANCELLED}
                       then format_diagnostic_reason t l it 256 else reason);
             (rest, reason) = step_rows t l (row + 1) its reason in
         ((row, 4, ''['' @ mark @ ''] '' @ diagnostic_step_name l (item_step it)) # rest, reason)))"

definition draw_diagnostic_results :: "window \<Rightarrow> fp_ui_language \<Rightarrow> fp_diagnostic_report \<Rightarrow> screen" where
  "draw_diagnostic_results t l rep =
     (let (steps, reason) = step_rows t l 5 (diag_items rep) '''' in
      [(2, 4, wording l (utf8 [36830, 25509, 35786, 26029, 32467, 26524]) ''Diagnostic results''), rule_line t 3] @ steps
      @ (if success rep
         then [(lines t - 5, 4, wording l (utf8 [20840, 37096, 26816, 26597, 36890, 36807, 65292, 36879, 26126,
           20195, 29702, 38142, 36335, 21487, 29992,
           12290]) ''All checks passed; the transparent proxy path works.'')]
         else if reason \<noteq> '''' then [(lines t - 5, 4, reason)] else [])
      @ [(lines t - 2, 4, wording l (utf8 [25353, 20219, 24847, 38190, 36820, 22238, 20027,
        39029]) ''Press any key to return'')])"

section \<open>The monitor page\<close>

definition two_digits :: "nat \<Rightarrow> string" where
  "two_digits n = pad0 2 (dec n)"

definition format_duration :: "nat \<Rightarrow> u64 \<Rightarrow> string" where
  "format_duration buffer_size age =
     (let seconds = age div 1000; minutes = seconds div 60; hours = minutes div 60;
          shown = (\<lambda>w. dec (unat w)); padded = (\<lambda>w. two_digits (unat w)) in
      snprintf buffer_size
        (if hours > 0 then shown hours @ ''h'' @ padded (minutes mod 60) @ ''m''
         else if minutes > 0 then shown minutes @ ''m'' @ padded (seconds mod 60) @ ''s''
         else shown seconds @ ''s''))"

definition draw_flow :: "int \<Rightarrow> int \<Rightarrow> string \<Rightarrow> int \<Rightarrow> string \<Rightarrow> screen" where
  "draw_flow row up_column up down_column down =
     draw_arrow row up_column True @ draw_text_field row (up_column + ARROW_WIDTH + 1) 11 up
     @ draw_arrow row down_column False @ draw_text_field row (down_column + ARROW_WIDTH + 1) 11 down"

definition connection_row :: "int \<Rightarrow> fp_stats_conn_view \<Rightarrow> screen" where
  "connection_row row c =
     draw_text_field row 4 24 (snprintf 32 (inet_ntop (view_addr c) @ '':'' @ dec (unat (view_port c))))
     @ draw_flow row 28 (fp_format_bytes 24 (view_up c)) 42 (fp_format_bytes 24 (view_down c))
     @ draw_text_field row 57 8 (format_duration 16 (age_ms c))"

fun connection_rows :: "int \<Rightarrow> int \<Rightarrow> fp_stats_conn_view list \<Rightarrow> screen" where
  "connection_rows row list_bottom [] = []"
| "connection_rows row list_bottom (c # cs) =
     (if row < list_bottom then connection_row row c @ connection_rows (row + 1) list_bottom cs else [])"

definition draw_monitor_page ::
    "window \<Rightarrow> fp_ui_language \<Rightarrow> fp_stats_snapshot \<Rightarrow> rat \<Rightarrow> rat \<Rightarrow> bool \<Rightarrow> string \<Rightarrow> bool \<Rightarrow> screen" where
  "draw_monitor_page t l snap up down alive status_line testing =
     (let list_bottom = (if status_line \<noteq> '''' then lines t - 4 else lines t - 3);
          rows = connection_rows 8 list_bottom (connections snap) in
      [(1, 4, wording l (utf8 [27969, 37327, 19982, 36830, 25509, 30417, 25511]) ''Traffic monitor''), rule_line t 2]
      @ (if \<not> alive \<or> \<not> available snap
         then [(4, 4, wording l (utf8 [36716, 21457, 26381, 21153, 26410, 36816, 34892, 65292, 26242, 26080,
           27969, 37327, 32479, 35745, 12290]) ''Forwarder is not running; no live stats.'')]
         else
           draw_text_field 3 4 8 (wording l (utf8 [23454, 26102]) ''Live'')
           @ draw_flow 3 14 (fp_format_rate 32 up) 28 (fp_format_rate 32 down)
           @ draw_text_field 4 4 8 (wording l (utf8 [32047, 35745]) ''Total'')
           @ draw_flow 4 14 (fp_format_bytes 32 (snap_total_up snap)) 28 (fp_format_bytes 32 (snap_total_down snap))
           @ draw_text_field 4 43 12 (snprintf 40 (wording l (utf8 [36816, 34892] @ '' '') ''up '' @
             format_duration 32 (uptime_ms snap)))
           @ [(5, 4, wording l (utf8 [27963, 36291, 36830, 25509, 65306]) ''Active connections: '' @
             dec (length (connections snap))), rule_line t 6]
           @ draw_text_field 7 4 24 (wording l (utf8 [30446, 26631]) ''Destination'')
           @ draw_flow 7 28 (wording l (utf8 [27969, 37327]) ''traffic'') 42 (wording l (utf8 [27969, 37327]) ''traffic'')
           @ draw_text_field 7 57 8 (wording l (utf8 [26102, 38271]) ''age'')
           @ rows
           @ (if rows = [] then [(8, 4, wording l (utf8 [24403, 21069, 27809, 26377, 27963, 36291, 36830, 25509,
             12290]) ''No active connections.'')] else []))
      @ (if status_line \<noteq> '''' then [(lines t - 3, 4, precision (cols t - 8) status_line)] else [])
      @ [(lines t - 2, 4,
          if testing then wording l (utf8 [27979, 35797, 20013, 8230] @ ''  '' @ utf8 [25353] @ '' q '' @
            utf8 [21462, 28040]) (''Testing'' @ utf8 [8230] @ ''  press q to cancel'')
          else wording l (''1 '' @ utf8 [36830, 36890, 24615] @ ''  2 '' @ utf8 [21709, 24212, 24310, 36831] @
            ''  3 '' @ utf8 [27979, 36895] @ ''  |  q '' @ utf8 [36820, 22238])
            ''1 connectivity  2 response latency  3 speed  |  q back'')])"

text \<open>A terminal of 80 columns whose wide characters start with Hangul Jamo.\<close>

definition sample_window :: window where
  "sample_window = \<lparr>lines = 30, cols = 80, wc = (\<lambda>n. if n < 4352 then 1 else 2), strerror = (\<lambda>_. ''''),
     gai_strerror = (\<lambda>_. '''')\<rparr>"

end
