(* ===== verification/Tui_Layout.thy ===== *)
theory Tui_Layout
  imports Tui_Screen
begin

text \<open>Where the screens put their texts, and what is cut off.\<close>

section \<open>The failed targets\<close>

lemma failure_rows_more:
  "rest \<noteq> '''' \<Longrightarrow> row < lines t - 3 \<Longrightarrow> 0 \<le> cols t - 8 \<Longrightarrow> failure_rows t row rest =
     (row, 4, take (nat (cols t - 8)) rest) # failure_rows t (row + 1) (drop (nat (cols t - 8)) rest)"
  by (subst failure_rows.simps) (auto simp: Let_def)

lemma failure_rows_stop: "rest = '''' \<or> \<not> row < lines t - 3 \<Longrightarrow> failure_rows t row rest = []"
  by (subst failure_rows.simps) auto

lemma failure_rows_texts:
  assumes "8 < cols t"
  shows "concat (map (snd \<circ> snd) (failure_rows t row rest)) = take (nat (lines t - 3 - row) * nat (cols t - 8)) rest
    \<and> list_all (\<lambda>(r, c, s). row \<le> r \<and> r < lines t - 3 \<and> c = 4 \<and> length s \<le> nat (cols t - 8)) (failure_rows t row rest)"
proof (induction "nat (lines t - 3 - row)" arbitrary: row rest)
  case 0
  then show ?case by (simp add: failure_rows_stop)
next
  case (Suc n)
  let ?w = "nat (cols t - 8)"
  have n: "n = nat (lines t - 3 - (row + 1))" using Suc.hyps(2) by linarith
  show ?case
  proof (cases "rest = ''''")
    case False
    have r: "row < lines t - 3" using Suc.hyps(2) by linarith
    have "take (Suc n * ?w) rest = take ?w rest @ take (n * ?w) (drop ?w rest)"
      using take_add [of ?w "n * ?w" rest] by (simp add: add.commute)
    with Suc.hyps(1) [OF n, of "drop ?w rest"] failure_rows_more [OF False r] assms r Suc.hyps(2) n
    show ?thesis by (auto simp: list_all_iff)
  qed (simp add: failure_rows_stop)
qed

text \<open>
  The list of failed targets is cut into rows without losing or changing a character: the rows, from the first on,
  are the text as far as it has room above the last three lines, so all of it if it is short enough, and no
  row is longer than the window allows or lies outside its place.
\<close>

theorem failure_rows_exact:
  assumes "8 < cols t" and "rows = failure_rows t row rest"
  shows "concat (map (snd \<circ> snd) rows) = take (nat (lines t - 3 - row) * nat (cols t - 8)) rest
    \<and> (int (length rest) \<le> (lines t - 3 - row) * (cols t - 8) \<longrightarrow> concat (map (snd \<circ> snd) rows) = rest)
    \<and> list_all (\<lambda>(r, c, s). row \<le> r \<and> r < lines t - 3 \<and> c = 4 \<and> length s \<le> nat (cols t - 8)) rows"
proof -
  have "take (nat (lines t - 3 - row) * nat (cols t - 8)) rest = rest" if "int (length rest) \<le> (lines t - 3 - row) * (cols t - 8)"
  proof (cases "0 \<le> lines t - 3 - row")
    case True
    have "length rest \<le> nat ((lines t - 3 - row) * (cols t - 8))" using that by linarith
    with True assms(1) show ?thesis by (simp add: nat_mult_distrib)
  next
    case False
    with that assms(1) have "rest = ''''" by (smt (verit) length_0_conv mult_neg_pos of_nat_0_eq_iff of_nat_0_le_iff)
    then show ?thesis by simp
  qed
  with failure_rows_texts [OF assms(1), of row rest] assms(2) show ?thesis by simp
qed

theorem failure_rows_exact_witness:
  "concat (map (snd \<circ> snd) (failure_rows sample_window 8 ''github.com, www.google.com'')) = ''github.com, www.google.com''"
  using failure_rows_exact [of sample_window _ 8 "''github.com, www.google.com''"] by (simp add: sample_window_def)

section \<open>The labels of the main screen\<close>

text \<open>A terminal on which ASCII takes one column and the characters of the Chinese texts two.\<close>

definition plain_widths :: "(nat \<Rightarrow> int) \<Rightarrow> bool" where
  "plain_widths wd \<longleftrightarrow> (\<forall>c. 32 \<le> c \<and> c < 127 \<longrightarrow> wd c = 1) \<and> (\<forall>c. 19968 \<le> c \<and> c < 40960 \<longrightarrow> wd c = 2)
     \<and> wd 12290 = 2 \<and> wd 65292 = 2"

lemma width_plain [simp]:
  assumes "plain_widths wd" and "32 \<le> (of_char ch :: nat)" and "(of_char ch :: nat) < 127"
  shows "utf8_display_width wd (ch # s) = 1 + utf8_display_width wd s"
  using assms width_ascii [of ch wd s] by (simp add: plain_widths_def)

lemma width_wide [simp]:
  assumes "plain_widths wd" and "19968 \<le> c" and "c < 40960"
  shows "utf8_display_width wd (utf8_char c @ s) = 2 + utf8_display_width wd s"
  using assms width_char [of c wd s] by (simp add: plain_widths_def scalar_def)

lemma width_wide_last [simp]:
  "plain_widths wd \<Longrightarrow> 19968 \<le> c \<Longrightarrow> c < 40960 \<Longrightarrow> utf8_display_width wd (utf8_char c) = 2"
  using width_wide [of wd c "''''"] by simp

text \<open>The full stop and the comma.\<close>

lemma width_marks [simp]:
  assumes "plain_widths wd" and "c = 12290 \<or> c = 65292"
  shows "utf8_display_width wd (utf8_char c @ s) = 2 + utf8_display_width wd s"
  using assms width_char [of c wd s] by (auto simp: plain_widths_def scalar_def)

lemma width_marks_last [simp]:
  "plain_widths wd \<Longrightarrow> c = 12290 \<or> c = 65292 \<Longrightarrow> utf8_display_width wd (utf8_char c) = 2"
  using width_marks [of wd c "''''"] by simp

definition status_labels :: "ui_text \<Rightarrow> string list" where
  "status_labels ui = [t_proxy ui, t_bypass ui, t_forwarder ui, t_iptables ui, t_autostart ui]"

lemma labels_fit:
  assumes "plain_widths wd"
  shows "\<forall>label \<in> set (status_labels (UI_TEXT l)). utf8_display_width wd label \<le> LABEL_WIDTH"
  using assms
  by (cases l) (auto simp: status_labels_def UI_TEXT_def UI_TEXT_ZH_def UI_TEXT_EN_def utf8_def LABEL_WIDTH_def)

text \<open>
  The five status lines of the main screen align in both languages: every label leaves the value its column, 22,
  whatever the label's mixture of one and two column characters, and a value of at most 42 characters (every proxy
  address) is shown whole on each window the screen is drawn on.
\<close>

theorem status_lines_align:
  assumes "plain_widths (wc t)" and "MIN_COLS \<le> cols t" and "label \<in> set (status_labels (UI_TEXT l))"
  shows "last (draw_line t row label shown) = (row, 22, precision (cols t - 24) shown)
    \<and> (length shown \<le> 42 \<longrightarrow> precision (cols t - 24) shown = shown)"
proof -
  have "max (4 + utf8_display_width (wc t) label) (4 + LABEL_WIDTH) = 22"
    using labels_fit [OF assms(1)] assms(3) by (force simp: LABEL_WIDTH_def)
  moreover have "length shown \<le> 42 \<Longrightarrow> precision (cols t - 24) shown = shown"
    using assms(2) by (simp add: precision_def MIN_COLS_def)
  ultimately show ?thesis by (simp add: draw_line_def Let_def)
qed

theorem status_lines_align_witness:
  "last (draw_line sample_window 4 (t_proxy UI_TEXT_ZH) ''192.168.3.2:1080'') = (4, 22, ''192.168.3.2:1080'')"
proof -
  have "plain_widths (wc sample_window)" by (simp add: plain_widths_def sample_window_def)
  from status_lines_align [OF this, of "t_proxy UI_TEXT_ZH" FP_UI_LANGUAGE_ZH 4 "''192.168.3.2:1080''"] show ?thesis
    by (simp add: sample_window_def MIN_COLS_def status_labels_def UI_TEXT_def)
qed

section \<open>The message line\<close>

lemma well_formed_wide [simp]: "scalar c \<Longrightarrow> well_formed (utf8_char c) = True"
  using well_formed_char [of c "''''"] by simp

text \<open>The greeting up to its last character.\<close>

definition greeting_start :: string where
  "greeting_start = butlast (butlast (butlast (t_initial_message (UI_TEXT FP_UI_LANGUAGE_ZH))))"

lemma greeting: "t_initial_message (UI_TEXT FP_UI_LANGUAGE_ZH) = greeting_start @ utf8_char 12290"
  "length greeting_start = 57" "well_formed (greeting_start @ s) = well_formed s"
proof -
  note defs = UI_TEXT_def UI_TEXT_ZH_def utf8_def
  show 1: "t_initial_message (UI_TEXT FP_UI_LANGUAGE_ZH) = greeting_start @ utf8_char 12290"
    by (simp add: defs greeting_start_def utf8_char_def butlast_append)
  have 2: "length (t_initial_message (UI_TEXT FP_UI_LANGUAGE_ZH)) = 60" by (simp add: defs utf8_char_def)
  show "length greeting_start = 57" using 2 by (simp add: greeting_start_def)
  have "\<exists>rest. t_initial_message (UI_TEXT FP_UI_LANGUAGE_ZH) = rest @ utf8_char 12290 \<and> (\<forall>s. well_formed (rest @ s) = well_formed s)"
    by (rule exI [of _ "utf8 [25353] @ '' s '' @ utf8 [21551, 29992, 24050, 20445, 23384, 37197, 32622, 65292, 25110, 25353]
        @ '' e '' @ utf8 [20462, 25913, 20195, 29702, 22320, 22336]"])
      (simp add: defs well_formed_char well_formed_ascii scalar_def)
  with 1 show "well_formed (greeting_start @ s) = well_formed s" by auto
qed

lemma greeting_width:
  "plain_widths wd \<Longrightarrow> utf8_display_width wd (t_initial_message (UI_TEXT FP_UI_LANGUAGE_ZH)) = 42"
  by (simp add: UI_TEXT_def UI_TEXT_ZH_def utf8_def)

text \<open>
  On the narrowest window the message line breaks the Chinese greeting inside a character: the precision of the
  format counts bytes, not columns, so of its 60 bytes, which are 42 columns and would fit the 58 of the line, 58 are
  printed, and they are no longer a well-formed text.
\<close>

theorem greeting_cut:
  assumes "cols t = MIN_COLS" and "MIN_ROWS \<le> lines t"
  shows "\<exists>s. last (draw_screen t status (UI_TEXT FP_UI_LANGUAGE_ZH) (t_initial_message (UI_TEXT FP_UI_LANGUAGE_ZH)))
      = (lines t - 2, 4, s) \<and> \<not> well_formed s
    \<and> well_formed (t_initial_message (UI_TEXT FP_UI_LANGUAGE_ZH))
    \<and> (plain_widths (wc t) \<longrightarrow> utf8_display_width (wc t) (t_initial_message (UI_TEXT FP_UI_LANGUAGE_ZH)) \<le> cols t - 8)"
proof -
  let ?m = "t_initial_message (UI_TEXT FP_UI_LANGUAGE_ZH)"
  have p: "precision (cols t - 8) ?m = greeting_start @ [char_of (227 :: nat)]"
    using assms(1) greeting(1,2) by (simp add: precision_def MIN_COLS_def utf8_char_def)
  have bad: "\<not> well_formed [char_of (227 :: nat)]"
    by (subst well_formed.simps) (simp add: mbrtowc_def continues_def)
  have good: "well_formed ?m" using greeting(1,3) by (simp add: scalar_def)
  have "?m \<noteq> ''''" using greeting(1) by simp
  then have "last (draw_screen t status (UI_TEXT FP_UI_LANGUAGE_ZH) ?m) = (lines t - 2, 4, precision (cols t - 8) ?m)"
    using assms by (simp add: draw_screen_def Let_def MIN_COLS_def MIN_ROWS_def)
  with p bad good greeting(3) greeting_width assms(1) show ?thesis by (auto simp: MIN_COLS_def)
qed

theorem greeting_cut_witness:
  "\<forall>status. \<exists>s. last (draw_screen (sample_window\<lparr>cols := 66\<rparr>) status (UI_TEXT FP_UI_LANGUAGE_ZH) (t_initial_message (UI_TEXT FP_UI_LANGUAGE_ZH)))
      = (28, 4, s) \<and> \<not> well_formed s"
  using greeting_cut [of "sample_window\<lparr>cols := 66\<rparr>"] by (auto simp: sample_window_def MIN_COLS_def MIN_ROWS_def)

end
