(* ===== verification/Tui_Input.thy ===== *)
theory Tui_Input
  imports Tui_Text "HOL-Library.Sublist"
begin

text \<open>
  The keyboard side of the terminal interface (\<open>src/tui.c\<close>): keys, the two line editors and the
  question before an uninstall. What is typed is a list of keys,
    one per call of \<open>getch\<close>; \<open>ERR\<close> in it is a
  call that timed out. An operation that runs out of keys is still waiting, which is \<open>None\<close>.
\<close>

section \<open>Keys\<close>

definition key :: "char \<Rightarrow> int" where "key c = of_char c"

text \<open>The codes of \<open>ncurses.h\<close>.\<close>

definition ERR :: int where "ERR = -1"
definition KEY_DOWN :: int where "KEY_DOWN = 258"
definition KEY_UP :: int where "KEY_UP = 259"
definition KEY_LEFT :: int where "KEY_LEFT = 260"
definition KEY_RIGHT :: int where "KEY_RIGHT = 261"
definition KEY_HOME :: int where "KEY_HOME = 262"
definition KEY_BACKSPACE :: int where "KEY_BACKSPACE = 263"
definition KEY_DC :: int where "KEY_DC = 330"
definition KEY_IC :: int where "KEY_IC = 331"
definition KEY_NPAGE :: int where "KEY_NPAGE = 338"
definition KEY_PPAGE :: int where "KEY_PPAGE = 339"
definition KEY_ENTER :: int where "KEY_ENTER = 343"
definition KEY_A1 :: int where "KEY_A1 = 348"
definition KEY_A3 :: int where "KEY_A3 = 349"
definition KEY_B2 :: int where "KEY_B2 = 350"
definition KEY_C1 :: int where "KEY_C1 = 351"
definition KEY_C3 :: int where "KEY_C3 = 352"
definition KEY_END :: int where "KEY_END = 360"
definition KEY_RESIZE :: int where "KEY_RESIZE = 410"

definition ESC :: int where "ESC = 27"
definition NEWLINE :: int where "NEWLINE = 10"
definition RETURN :: int where "RETURN = 13"
definition BACKSPACE :: int where "BACKSPACE = 8"
definition DEL :: int where "DEL = 127"

lemmas key_codes = key_def ERR_def KEY_DOWN_def KEY_UP_def KEY_LEFT_def KEY_RIGHT_def KEY_HOME_def KEY_BACKSPACE_def
  KEY_DC_def KEY_IC_def KEY_NPAGE_def KEY_PPAGE_def KEY_ENTER_def KEY_A1_def KEY_A3_def KEY_B2_def KEY_C1_def
  KEY_C3_def KEY_END_def KEY_RESIZE_def ESC_def NEWLINE_def RETURN_def BACKSPACE_def DEL_def

definition is_key :: "int \<Rightarrow> char \<Rightarrow> char \<Rightarrow> bool" where
  "is_key k lower upper \<longleftrightarrow> k = key lower \<or> k = key upper"

text \<open>A keypad key as the digit or point printed on it.\<close>

definition keypad_digit :: "int \<Rightarrow> int" where
  "keypad_digit k =
     (if k = KEY_IC then key CHR ''0''
      else if k = KEY_C1 \<or> k = KEY_END then key CHR ''1''
      else if k = KEY_DOWN then key CHR ''2''
      else if k = KEY_C3 \<or> k = KEY_NPAGE then key CHR ''3''
      else if k = KEY_LEFT then key CHR ''4''
      else if k = KEY_B2 then key CHR ''5''
      else if k = KEY_RIGHT then key CHR ''6''
      else if k = KEY_A1 \<or> k = KEY_HOME then key CHR ''7''
      else if k = KEY_UP then key CHR ''8''
      else if k = KEY_A3 \<or> k = KEY_PPAGE then key CHR ''9''
      else if k = KEY_DC then key CHR ''.''
      else k)"

fun getch :: "int list \<Rightarrow> (int \<times> int list) option" where
  "getch [] = None"
| "getch (k # ks) = Some (k, ks)"

text \<open>
  \<open>read_proxy_key\<close>: an escape sequence of the application keypad is its digit; any other escape is
  \<open>ESC\<close>, after at most two more keys have been read.
\<close>

definition read_proxy_key :: "int list \<Rightarrow> (int \<times> int list) option" where
  "read_proxy_key ks = do {
     (k, ks) \<leftarrow> getch ks;
     if k \<noteq> ESC then Some (k, ks)
     else do {
       (prefix, ks) \<leftarrow> getch ks;
       (code, ks) \<leftarrow> (if prefix = ERR then Some (ERR, ks) else getch ks);
       Some (if prefix = key CHR ''O'' \<and> key CHR ''p'' \<le> code \<and> code \<le> key CHR ''y''
               then key CHR ''0'' + code - key CHR ''p''
             else if prefix = key CHR ''O'' \<and> code = key CHR ''n'' then key CHR ''.''
             else ESC, ks) } }"

lemma read_proxy_key_suffix: "read_proxy_key ks = Some (k, ks') \<Longrightarrow> suffix ks' ks"
  by (auto simp: read_proxy_key_def suffix_def split: Option.bind_splits if_splits elim!: getch.elims)

lemma getch_shorter: "getch ks = Some (k, ks') \<Longrightarrow> length ks' < length ks"
  by (cases ks) auto

lemma read_proxy_key_shorter: "read_proxy_key ks = Some (k, ks') \<Longrightarrow> length ks' < length ks"
  by (auto simp: read_proxy_key_def split: Option.bind_splits if_splits dest!: getch_shorter)

section \<open>Line editors\<close>

definition proxy_char :: "char \<Rightarrow> bool" where
  "proxy_char c \<longleftrightarrow> c \<in> {CHR '':'', CHR ''.''} \<or> is_digit c"

definition bypass_char :: "char \<Rightarrow> bool" where
  "bypass_char c \<longleftrightarrow> c \<in> {CHR ''.'', CHR ''/'', CHR '','', CHR '' ''} \<or> is_digit c"

text \<open>One key of an editor whose buffer has \<open>capacity\<close> bytes and takes the characters \<open>allowed\<close>.\<close>

definition edit :: "(char \<Rightarrow> bool) \<Rightarrow> nat \<Rightarrow> int \<Rightarrow> string \<Rightarrow> string" where
  "edit allowed capacity k typed =
     (let k = keypad_digit k in
      if k = KEY_BACKSPACE \<or> k = DEL \<or> k = BACKSPACE then (if typed \<noteq> '''' then butlast typed else typed)
      else if 0 \<le> k \<and> k < 256 \<and> allowed (char_of (nat k)) then
        (if length typed + 1 < capacity then typed @ [char_of (nat k)] else typed)
      else typed)"

text \<open>The loop of both prompts: the text at Enter, no text if the input was cancelled, and the keys left.\<close>

function prompt_loop ::
    "(char \<Rightarrow> bool) \<Rightarrow> nat \<Rightarrow> int list \<Rightarrow> string \<Rightarrow> (string option \<times> int list) option" where
  "prompt_loop allowed capacity ks typed =
     (case read_proxy_key ks of
        None \<Rightarrow> None
      | Some (k, ks') \<Rightarrow>
          if k = ESC \<or> is_key k CHR ''q'' CHR ''Q'' then Some (None, ks')
          else if k = NEWLINE \<or> k = RETURN \<or> k = KEY_ENTER then Some (Some typed, ks')
          else prompt_loop allowed capacity ks' (edit allowed capacity k typed))"
  by pat_completeness auto
termination
  by (relation "measure (\<lambda>(_, _, ks, _). length ks)") (auto dest: read_proxy_key_shorter)

declare prompt_loop.simps [simp del]

definition PROXY_SIZE :: nat where "PROXY_SIZE = 64"

definition prompt_proxy :: "int list \<Rightarrow> (string option \<times> int list) option" where
  "prompt_proxy ks = prompt_loop proxy_char PROXY_SIZE ks ''''"

definition prompt_bypass :: "int list \<Rightarrow> string \<Rightarrow> (string option \<times> int list) option" where
  "prompt_bypass ks initial =
     (if length initial \<ge> FP_BYPASS_TEXT_SIZE then Some (None, ks)
      else prompt_loop bypass_char FP_BYPASS_TEXT_SIZE ks initial)"

text \<open>
  The part of the direct list that the input line shows, which starts in column \<open>column\<close> of a terminal
  with \<open>cols\<close> columns, and the column of the cursor.
\<close>

definition visible_width :: "int \<Rightarrow> int \<Rightarrow> nat" where
  "visible_width cols column = (let w = cols - column - 2 in if w < 1 then 1 else nat w)"

definition visible_start :: "int \<Rightarrow> int \<Rightarrow> string \<Rightarrow> nat" where
  "visible_start cols column typed =
     (let w = visible_width cols column in if length typed > w then length typed - w else 0)"

definition visible_text :: "int \<Rightarrow> int \<Rightarrow> string \<Rightarrow> string \<times> int" where
  "visible_text cols column typed =
     (precision (int (visible_width cols column)) (drop (visible_start cols column typed) typed),
      column + int (length typed - visible_start cols column typed))"

text \<open>
  \<open>getnstr\<close> of the library reads and echoes a line of at most \<open>n\<close> characters: a parameter, from the
  keys to the line (\<open>None\<close> for \<open>ERR\<close>) and the number of keys it took.
\<close>

type_synonym line_reader = "nat \<Rightarrow> int list \<Rightarrow> (string option \<times> nat) option"

definition confirm_uninstall :: "line_reader \<Rightarrow> int list \<Rightarrow> (bool \<times> int list) option" where
  "confirm_uninstall getnstr ks =
     (case getnstr 7 ks of
        None \<Rightarrow> None
      | Some (answer,
        n) \<Rightarrow> Some ((case answer of None \<Rightarrow> '''' | Some s \<Rightarrow> s) = ''yes'',
        drop n ks))"

section \<open>What the editors return\<close>

lemma edit_fits: "length typed < capacity \<Longrightarrow> length (edit allowed capacity k typed) < capacity"
  by (auto simp: edit_def Let_def)

lemma edit_allowed: "list_all allowed typed \<Longrightarrow> list_all allowed (edit allowed capacity k typed)"
  by (auto simp: edit_def Let_def list_all_iff dest: in_set_butlastD)

lemma prompt_loop_suffix: "prompt_loop allowed capacity ks x = Some (r, ks') \<Longrightarrow> suffix ks' ks"
proof (induction allowed capacity ks x rule: prompt_loop.induct)
  case (1 allowed capacity ks x)
  note run = 1(2) [unfolded prompt_loop.simps [of allowed capacity ks x]]
  obtain k ks1 where k: "read_proxy_key ks = Some (k, ks1)" using run by (auto split: option.splits)
  note rest = read_proxy_key_suffix [OF k]
  show ?case
  proof (cases "(k = ESC \<or> is_key k CHR ''q'' CHR ''Q'') \<or> (k = NEWLINE \<or> k = RETURN \<or> k = KEY_ENTER)")
    case True
    with run k rest show ?thesis by (auto split: if_splits)
  next
    case False
    then have n: "\<not> (k = ESC \<or> is_key k CHR ''q'' CHR ''Q'')" "\<not> (k = NEWLINE \<or> k = RETURN \<or> k = KEY_ENTER)"
      by auto
    with run k have "prompt_loop allowed capacity ks1 (edit allowed capacity k x) = Some (r, ks')"
      by (auto split: if_splits)
    from 1(1) [OF k refl n this] rest show ?thesis by (rule suffix_order.trans)
  qed
qed

lemma prompt_loop_typed:
  "prompt_loop allowed capacity ks typed = Some (Some typed',
    rest) \<Longrightarrow> length typed < capacity \<Longrightarrow> list_all allowed typed
   \<Longrightarrow> length typed' < capacity \<and> list_all allowed typed'"
proof (induction allowed capacity ks typed rule: prompt_loop.induct)
  case (1 allowed capacity ks typed)
  note run = 1(2) [unfolded prompt_loop.simps [of allowed capacity ks typed]]
  obtain k ks' where r: "read_proxy_key ks = Some (k, ks')" using run by (auto split: option.splits)
  show ?case
  proof (cases "k = NEWLINE \<or> k = RETURN \<or> k = KEY_ENTER")
    case True
    with run r 1(3,4) show ?thesis by (auto split: if_splits)
  next
    case False
    with run r have e: "\<not> (k = ESC \<or> is_key k CHR ''q'' CHR ''Q'')"
      "prompt_loop allowed capacity ks' (edit allowed capacity k typed) = Some (Some typed', rest)"
      by (auto split: if_splits)
    show ?thesis by (rule 1(1) [OF r refl e(1) False e(2) edit_fits [OF 1(3)] edit_allowed [OF 1(4)]])
  qed
qed

text \<open>A character that is neither a command of the editor nor the code of a keypad key.\<close>

definition typeable :: "char \<Rightarrow> bool" where
  "typeable c \<longleftrightarrow> key c < 127 \<and> key c \<noteq> ESC \<and> key c \<noteq> NEWLINE \<and> key c \<noteq> RETURN \<and> key c \<noteq> BACKSPACE
     \<and> c \<noteq> CHR ''q'' \<and> c \<noteq> CHR ''Q''"

lemma key_nat: "key c = int (of_char c)"
  by (simp only: key_def of_nat_of_char)

lemma key_range [simp]: "0 \<le> key c" "key c < 256" "char_of (nat (key c)) = c"
  using nat_of_char_less_256 [of c] by (simp_all add: key_nat del: of_nat_of_char nat_of_char_less_256)

lemma edit_typed:
  "typeable c \<Longrightarrow> allowed c \<Longrightarrow> length typed + 1 < capacity \<Longrightarrow> edit allowed capacity (key c) typed = typed @
    [c]"
  using key_range [of c] by (simp add: edit_def keypad_digit_def typeable_def Let_def key_codes(2-) del: key_range(1,2))

lemma key_inject: "key c = key d \<longleftrightarrow> c = d"
  by (simp add: key_def)

lemma prompt_loop_typing:
  "list_all (\<lambda>c. typeable c \<and> allowed c) cs \<Longrightarrow> length typed + length cs < capacity \<Longrightarrow>
   prompt_loop allowed capacity (map key cs @ ks) typed = prompt_loop allowed capacity ks (typed @ cs)"
proof (induction cs arbitrary: typed)
  case (Cons c cs)
  then have c: "typeable c" "allowed c" "length typed + 1 < capacity" by auto
  have k: "key c \<noteq> KEY_ENTER" using c(1) by (simp add: typeable_def KEY_ENTER_def)
  have "prompt_loop allowed capacity (map key (c # cs) @ ks) typed
      = prompt_loop allowed capacity (map key cs @ ks) (edit allowed capacity (key c) typed)"
    using c(1) k by (subst prompt_loop.simps) (simp add: read_proxy_key_def typeable_def is_key_def key_inject)
  then show ?case using Cons c by (simp add: edit_typed)
qed simp

lemma prompt_loop_enter: "prompt_loop allowed capacity (NEWLINE # ks) typed = Some (Some typed, ks)"
  by (subst prompt_loop.simps) (simp add: read_proxy_key_def is_key_def key_codes)

lemma digits_typeable: "is_digit c \<Longrightarrow> typeable c"
  by (auto simp: is_digit_def typeable_def key_nat key_codes(2-) simp del: of_nat_of_char)

lemma proxy_typeable: "proxy_char c \<Longrightarrow> typeable c"
  by (auto simp: proxy_char_def digits_typeable) (simp_all add: typeable_def key_codes)

lemma bypass_typeable: "bypass_char c \<Longrightarrow> typeable c"
  by (auto simp: bypass_char_def digits_typeable) (simp_all add: typeable_def key_codes)

text \<open>Each of the three codes for a backspace erases the last character.\<close>

definition erasers :: "int list" where
  "erasers = [KEY_BACKSPACE, DEL, BACKSPACE]"

lemma eraser_key:
  assumes "b \<in> set erasers"
  shows "keypad_digit b = b" "b \<notin> {ESC, NEWLINE, RETURN, KEY_ENTER}" "\<not> is_key b CHR ''q'' CHR ''Q''"
    "b = KEY_BACKSPACE \<or> b = DEL \<or> b = BACKSPACE"
  using assms by (auto simp: erasers_def keypad_digit_def is_key_def key_codes)

lemma prompt_loop_erase:
  "b \<in> set erasers \<Longrightarrow> prompt_loop allowed capacity (b # ks) typed = prompt_loop allowed capacity ks (butlast typed)"
  using eraser_key [of b] by (subst prompt_loop.simps) (simp add: read_proxy_key_def edit_def Let_def)

lemma prompt_loop_clear: "prompt_loop allowed capacity (replicate (length typed) DEL @
  ks) typed = prompt_loop allowed capacity ks ''''"
  by (induction typed rule: rev_induct) (simp_all add: prompt_loop_erase erasers_def)

text \<open>
  The keypad: what a terminal sends for each key, as a code of the library (Insert and the keys in the corners and on the
  edges, with or without their arrows) or as an escape sequence, and the character printed on it.
\<close>

definition keypad :: "(int list \<times> char) list" where
  "keypad =
     [([KEY_IC], CHR ''0''), ([KEY_C1], CHR ''1''), ([KEY_END], CHR ''1''), ([KEY_DOWN], CHR ''2''), ([KEY_C3], CHR ''3''),
      ([KEY_NPAGE], CHR ''3''), ([KEY_LEFT], CHR ''4''), ([KEY_B2], CHR ''5''), ([KEY_RIGHT], CHR ''6''), ([KEY_A1], CHR ''7''),
      ([KEY_HOME], CHR ''7''), ([KEY_UP], CHR ''8''), ([KEY_A3], CHR ''9''), ([KEY_PPAGE], CHR ''9''), ([KEY_DC], CHR ''.'')]
     @ map (\<lambda>(sent, c). ([ESC, key CHR ''O'', key sent], c)) (zip ''pqrstuvwxyn'' ''0123456789.'')"

definition types :: "int list \<Rightarrow> char \<Rightarrow> bool" where
  "types stroke c \<longleftrightarrow> (\<forall>ks. \<exists>k. read_proxy_key (stroke @ ks) = Some (k,
    ks) \<and> keypad_digit k = key c
     \<and> k \<notin> {ESC, NEWLINE, RETURN,
       KEY_ENTER} \<and> \<not> is_key k CHR ''q'' CHR ''Q'') \<and> (c = CHR ''.'' \<or> is_digit c)"

lemma types_code:
  "k \<noteq> ESC \<Longrightarrow> k \<notin> {NEWLINE, RETURN,
    KEY_ENTER} \<Longrightarrow> \<not> is_key k CHR ''q'' CHR ''Q'' \<Longrightarrow> keypad_digit k = key c
    \<Longrightarrow> c = CHR ''.'' \<or> is_digit c \<Longrightarrow> types [k] c"
  by (simp add: types_def read_proxy_key_def)

lemma types_escape:
  assumes "key CHR ''p'' \<le> key sent \<and> key sent \<le> key CHR ''y'' \<and> key c = key CHR ''0'' + key sent - key CHR ''p''
      \<or> sent = CHR ''n'' \<and> c = CHR ''.''"
    and "c = CHR ''.'' \<or> is_digit c"
  shows "types [ESC, key CHR ''O'', key sent] c"
proof -
  have "read_proxy_key ([ESC, key CHR ''O'', key sent] @ ks) = Some (key c, ks)" for ks
    using assms by (auto simp: read_proxy_key_def key_codes(2-) key_inject key_def)
  moreover have "typeable c" using assms(2) by (auto simp: digits_typeable) (simp add: typeable_def key_codes)
  ultimately show ?thesis using assms(2)
    by (auto simp: types_def typeable_def is_key_def key_inject keypad_digit_def key_codes(2-) dest: sym)
qed

lemma keypad_types: "(stroke, c) \<in> set keypad \<Longrightarrow> types stroke c"
proof -
  have "list_all (\<lambda>(sent, c). types [ESC, key CHR ''O'', key sent] c) (zip ''pqrstuvwxyn'' ''0123456789.'')"
    by (simp, intro conjI types_escape) (simp_all add: key_def is_digit_def)
  then have "list_all (\<lambda>(stroke, c). types stroke c) keypad"
    unfolding keypad_def list_all_append
    by (intro conjI)
      (simp_all add: types_code is_key_def keypad_digit_def key_codes is_digit_def list_all_iff split_beta)
  then show "(stroke, c) \<in> set keypad \<Longrightarrow> types stroke c" by (auto simp: list_all_iff)
qed

lemma prompt_loop_stroke:
  assumes "(stroke, c) \<in> set keypad" and "allowed c" and "length typed + 1 < capacity"
  shows "prompt_loop allowed capacity (stroke @ ks) typed = prompt_loop allowed capacity ks (typed @ [c])"
proof -
  note t = keypad_types [OF assms(1), unfolded types_def]
  obtain k where k: "read_proxy_key (stroke @ ks) = Some (k, ks)" "keypad_digit k = key c"
    "k \<notin> {ESC, NEWLINE, RETURN, KEY_ENTER}" "\<not> is_key k CHR ''q'' CHR ''Q''" using t by blast
  have "typeable c" using t by (auto simp: digits_typeable) (simp add: typeable_def key_codes)
  then have "key c \<notin> {KEY_BACKSPACE, DEL, BACKSPACE}" by (auto simp: typeable_def key_codes(2-))
  then have "edit allowed capacity k typed = typed @ [c]" using assms(2,3) by (simp add: edit_def k(2))
  with k show ?thesis by (subst prompt_loop.simps) simp
qed

lemma keypad_allowed: "(stroke, c) \<in> set keypad \<Longrightarrow> proxy_char c" "(stroke,
  c) \<in> set keypad \<Longrightarrow> bypass_char c"
  using keypad_types [of stroke c] by (auto simp: types_def proxy_char_def bypass_char_def)

lemma prompt_loop_strokes:
  "set strokes \<subseteq> set keypad \<Longrightarrow> list_all allowed (map snd strokes) \<Longrightarrow> length typed + length strokes < capacity \<Longrightarrow>
   prompt_loop allowed capacity (concat (map fst strokes) @ ks) typed = prompt_loop allowed capacity ks (typed @
     map snd strokes)"
proof (induction strokes arbitrary: typed)
  case (Cons s strokes)
  obtain stroke c where s: "s = (stroke, c)" by force
  with Cons.prems have "(stroke, c) \<in> set keypad" "allowed c" "length typed + 1 < capacity" by auto
  then have "prompt_loop allowed capacity (stroke @ concat (map fst strokes) @ ks) typed
      = prompt_loop allowed capacity (concat (map fst strokes) @ ks) (typed @ [c])" by (rule prompt_loop_stroke)
  with Cons show ?case by (simp add: s)
qed simp

text \<open>
  C38: What the editors can return is exactly the texts of digits, points and colons (points, slashes, commas
  and blanks for the direct list) that fit their buffers with a final NUL: whatever is typed, nothing
  else comes out, and each of these texts can be typed, for the direct list over any text of that kind that is shown
  at first. Each code for a backspace erases the last character, and every key of the keypad, as a code or as
  an escape sequence, types the digit or the point printed on it in both editors.
\<close>

theorem prompt_texts:
  assumes "length initial < FP_BYPASS_TEXT_SIZE" and "list_all bypass_char initial"
  shows "(\<exists>ks rest. prompt_proxy ks = Some (Some typed,
    rest)) = (length typed < PROXY_SIZE \<and> list_all proxy_char typed)
   \<and> (\<exists>ks rest. prompt_bypass ks initial = Some (Some entries, rest))
      = (length entries < FP_BYPASS_TEXT_SIZE \<and> list_all bypass_char entries)
   \<and> (\<forall>b \<in> set erasers. prompt_bypass (b # ks) initial = prompt_bypass ks (butlast initial))
   \<and> (\<forall>strokes. set strokes \<subseteq> set keypad \<longrightarrow>
        (length strokes < PROXY_SIZE \<longrightarrow>
           prompt_proxy (concat (map fst strokes) @ NEWLINE # ks) = Some (Some (map snd strokes), ks))
        \<and> (length initial + length strokes < FP_BYPASS_TEXT_SIZE \<longrightarrow>
           prompt_bypass (concat (map fst strokes) @ NEWLINE # ks) initial = Some (Some (initial @ map snd strokes), ks)))"
proof (intro conjI allI impI ballI)
  have s: "0 < PROXY_SIZE" "0 < FP_BYPASS_TEXT_SIZE"
    by (simp_all add: PROXY_SIZE_def FP_BYPASS_TEXT_SIZE_def FP_MAX_BYPASS_def)
  have "prompt_proxy (map key typed @ [NEWLINE]) = Some (Some typed, [])"
    if "length typed < PROXY_SIZE" "list_all proxy_char typed"
    using that prompt_loop_typing [of proxy_char typed "''''" PROXY_SIZE "[NEWLINE]"]
    by (simp add: prompt_proxy_def prompt_loop_enter list_all_iff proxy_typeable)
  then show "(\<exists>ks rest. prompt_proxy ks = Some (Some typed,
    rest)) = (length typed < PROXY_SIZE \<and> list_all proxy_char typed)"
    using s(1) prompt_loop_typed [of proxy_char PROXY_SIZE _ "''''" typed] by (auto simp: prompt_proxy_def)
  have "prompt_bypass (replicate (length initial) DEL @ map key entries @ [NEWLINE]) initial = Some (Some entries, [])"
    if "length entries < FP_BYPASS_TEXT_SIZE" "list_all bypass_char entries"
    using that assms prompt_loop_typing [of bypass_char entries "''''" FP_BYPASS_TEXT_SIZE "[NEWLINE]"]
    by (simp add: prompt_bypass_def prompt_loop_clear prompt_loop_enter list_all_iff bypass_typeable)
  then show "(\<exists>ks rest. prompt_bypass ks initial = Some (Some entries, rest))
      = (length entries < FP_BYPASS_TEXT_SIZE \<and> list_all bypass_char entries)"
    using assms prompt_loop_typed [of bypass_char FP_BYPASS_TEXT_SIZE _ initial entries] by (auto simp: prompt_bypass_def)
  show "prompt_bypass (b # ks) initial = prompt_bypass ks (butlast initial)" if "b \<in> set erasers" for b
    using assms(1) that by (auto simp: prompt_bypass_def prompt_loop_erase)
  fix strokes
  assume k: "set strokes \<subseteq> set keypad"
  then have a: "list_all proxy_char (map snd strokes)" "list_all bypass_char (map snd strokes)"
    using keypad_allowed by (auto simp: list_all_iff)
  show "prompt_proxy (concat (map fst strokes) @ NEWLINE # ks) = Some (Some (map snd strokes), ks)"
    if "length strokes < PROXY_SIZE"
    using prompt_loop_strokes [OF k a(1)] that by (simp add: prompt_proxy_def prompt_loop_enter)
  show "prompt_bypass (concat (map fst strokes) @ NEWLINE # ks) initial = Some (Some (initial @ map snd strokes), ks)"
    if "length initial + length strokes < FP_BYPASS_TEXT_SIZE"
    using prompt_loop_strokes [OF k a(2)] that by (simp add: prompt_bypass_def prompt_loop_enter)
qed

text \<open>Over a list that is shown: another list, one character less, and a digit from the keypad.\<close>

theorem prompt_texts_witness:
  "(\<exists>ks rest. prompt_bypass ks ''10.0.0.0/8'' = Some (Some ''1.2.3.4'', rest))
   \<and> prompt_bypass (KEY_BACKSPACE # [NEWLINE]) ''10.0.0.0/8'' = prompt_bypass [NEWLINE] ''10.0.0.0/''
   \<and> prompt_bypass [KEY_DOWN, NEWLINE] ''10.0.0.0/'' = Some (Some ''10.0.0.0/2'', [])"
proof (intro conjI)
  have a: "length ''10.0.0.0/8'' < FP_BYPASS_TEXT_SIZE" "list_all bypass_char ''10.0.0.0/8''"
    "length ''10.0.0.0/'' + 1 < FP_BYPASS_TEXT_SIZE" "list_all bypass_char ''10.0.0.0/''"
    "length ''1.2.3.4'' < FP_BYPASS_TEXT_SIZE" "list_all bypass_char ''1.2.3.4''"
    by (simp_all add: FP_BYPASS_TEXT_SIZE_def FP_MAX_BYPASS_def bypass_char_def is_digit_def)
  note t = prompt_texts [OF a(1,2)]
  show "\<exists>ks rest. prompt_bypass ks ''10.0.0.0/8'' = Some (Some ''1.2.3.4'', rest)" using t a(5,6) by blast
  show "prompt_bypass (KEY_BACKSPACE # [NEWLINE]) ''10.0.0.0/8'' = prompt_bypass [NEWLINE] ''10.0.0.0/''"
    using t by (simp add: erasers_def)
  have "([KEY_DOWN], CHR ''2'') \<in> set keypad" by (simp add: keypad_def)
  with prompt_texts [OF _ a(4), THEN conjunct2, THEN conjunct2, THEN conjunct2, rule_format, of "[([KEY_DOWN],
    CHR ''2'')]" "[]"] a(3)
  show "prompt_bypass [KEY_DOWN, NEWLINE] ''10.0.0.0/'' = Some (Some ''10.0.0.0/2'', [])" by simp
qed

text \<open>The input line shows the end of the text, within its width, and the cursor stands behind it.\<close>

lemma visible_text_end:
  assumes "visible_text cols column typed = (shown, cursor)"
  shows "\<exists>hidden. typed = hidden @ shown \<and> length shown \<le> visible_width cols column
    \<and> cursor = column + int (length shown)"
  using assms by (auto simp: visible_text_def visible_start_def precision_def Let_def
      intro!: exI [of _ "take (visible_start cols column typed) typed"])

text \<open>
  The bytes of an escape sequence beyond the third stay in the input: after Ctrl-Left (\<open>ESC [ 1 ; 5 D\<close>)
  the prompt is cancelled and \<open>; 5 D\<close> is left for whoever reads next.
\<close>

definition ctrl_left :: "int list" where
  "ctrl_left = ESC # map key ''[1;5D''"

lemma ctrl_left_leaves_keys: "prompt_proxy (ctrl_left @ ks) = Some (None, map key '';5D'' @ ks)"
  unfolding prompt_proxy_def ctrl_left_def
  by (subst prompt_loop.simps) (simp add: read_proxy_key_def key_codes)

end
