(* ===== verification/Tui_Events.thy ===== *)
theory Tui_Events
  imports Tui_Screen Tui_Input Sockets
begin

text \<open>
  How the terminal interface follows a test or a diagnosis that runs in a thread of its own
  (\<open>src/tui.c\<close>): the pipe the events come through, the loops of \<open>run_selected_test\<close> and
  \<open>run_diagnostic_page\<close>,
    and the texts about the result. The thread's events are those of \<open>Net_Test\<close> and
  \<open>Diagnostic\<close>, in the order in which they are written.
\<close>

section \<open>The pipe\<close>

text \<open>
  An event travels as the bytes of its structure. \<open>write_test_event\<close> and \<open>write_diagnostic_event\<close> are the same
  loop, and so are the two readers; a pipe end is a stream like a socket (\<open>Sockets\<close>).
\<close>

definition write_test_event :: "byte list \<Rightarrow> sock \<Rightarrow> sock" where
  "write_test_event bytes s = snd (write_all bytes s)"

definition read_test_event :: "byte list \<Rightarrow> nat \<Rightarrow> sock \<Rightarrow> (int \<times> byte list \<times> sock) option" where
  "read_test_event buffer n s = read_loop buffer 0 n s"

definition write_diagnostic_event :: "byte list \<Rightarrow> sock \<Rightarrow> sock" where
  "write_diagnostic_event bytes s = snd (write_all bytes s)"

definition read_diagnostic_event :: "byte list \<Rightarrow> nat \<Rightarrow> sock \<Rightarrow> (int \<times> byte list \<times> sock) option" where
  "read_diagnostic_event buffer n s = read_loop buffer 0 n s"

interpretation pipe: exact_reader read_test_event
  unfolding read_test_event_def by (rule read_loop_exact)

interpretation diagnostic_pipe: exact_reader read_diagnostic_event
  unfolding read_diagnostic_event_def by (rule read_loop_exact)

fun read_events :: "nat \<Rightarrow> byte list \<Rightarrow> nat \<Rightarrow> sock \<Rightarrow> byte list list option" where
  "read_events 0 buffer n s = Some []"
| "read_events (Suc k) buffer n s =
     (case read_test_event buffer n s of
        None \<Rightarrow> None
      | Some (r, buffer,
        s) \<Rightarrow> if r \<noteq> ok then Some [] else map_option (Cons (take n buffer)) (read_events k buffer n s))"

section \<open>One pass of the loop\<close>

text \<open>
  What a pass of the loop sees: the key \<open>getch\<close> returns without waiting,
    and what \<open>poll\<close> says of the pipe.
  \<open>Ready\<close>: an event can be read; \<open>Broken\<close>: reading fails; \<open>Quiet\<close>: nothing yet; \<open>Failed\<close>: \<open>poll\<close> itself failed.
\<close>

datatype poll_answer = Ready | Broken | Quiet | Interrupted | Failed

type_synonym pass = "int \<times> poll_answer"

definition is_quit :: "int \<Rightarrow> bool" where "is_quit k = is_key k CHR ''q'' CHR ''Q''"

text \<open>The state of the loop: its last event, whether a cancel was asked for and whether it ends.\<close>

record test_view =
  t_event :: fp_test_progress_event
  t_history :: test_progress_history
  t_cancelling :: bool
  t_finished :: bool
  t_screen :: screen

definition remember_test_result ::
    "test_progress_history \<Rightarrow> fp_test_progress_event \<Rightarrow> test_progress_history" where
  "remember_test_result h e =
     (if (ev_phase e \<noteq> FP_TEST_PHASE_CONNECTIVITY \<and> ev_phase e \<noteq> FP_TEST_PHASE_LATENCY)
        \<or> (ev_state e \<noteq> FP_TEST_SITE_OK \<and> ev_state e \<noteq> FP_TEST_SITE_FAIL \<and> ev_state e \<noteq> FP_TEST_SITE_CANCELLED)
        \<or> ev_index e = 0 \<or> ev_index e > FP_TEST_MAX_SITES
      then h
      else \<lparr>items = (items h)[ev_index e - 1 := e],
             h_count = (if ev_index e > h_count h then ev_index e else h_count h), h_total = ev_total e\<rparr>)"

definition press_cancel :: "window \<Rightarrow> fp_ui_language \<Rightarrow> fp_test_mode \<Rightarrow> int \<Rightarrow> test_view \<Rightarrow> test_view" where
  "press_cancel t l m k v =
     (if is_quit k \<and> \<not> t_cancelling v
      then v\<lparr>t_cancelling := True, t_screen := draw_test_progress t l m (t_event v) (t_history v) True\<rparr> else v)"

text \<open>One pass; \<open>None\<close> if it waits for an event that never comes.\<close>

definition test_pass ::
    "window \<Rightarrow> fp_ui_language \<Rightarrow> fp_test_mode \<Rightarrow> pass \<Rightarrow> fp_test_progress_event list \<times> test_view
     \<Rightarrow> (fp_test_progress_event list \<times> test_view) option" where
  "test_pass t l m p st =
     (case st of (queue, v) \<Rightarrow>
      let v = press_cancel t l m (fst p) v in
      case snd p of
        Ready \<Rightarrow>
          (case queue of
             [] \<Rightarrow> None
           | e # queue \<Rightarrow>
               let v = v\<lparr>t_event := e, t_history := remember_test_result (t_history v) e\<rparr> in
               Some (queue,
                 if ev_phase e = FP_TEST_PHASE_DONE then v\<lparr>t_finished := True\<rparr>
                 else v\<lparr>t_screen := draw_test_progress t l m e (t_history v) (t_cancelling v)\<rparr>))
      | Broken \<Rightarrow> Some (queue, v\<lparr>t_finished := True\<rparr>)
      | Failed \<Rightarrow> Some (queue, v\<lparr>t_finished := True\<rparr>)
      | _ \<Rightarrow> Some (queue, v))"

text \<open>The loop; \<open>None\<close> if it is still running when the passes are used up.\<close>

fun test_loop ::
    "window \<Rightarrow> fp_ui_language \<Rightarrow> fp_test_mode \<Rightarrow> pass list \<Rightarrow> fp_test_progress_event list \<times> test_view
     \<Rightarrow> (fp_test_progress_event list \<times> test_view) option" where
  "test_loop t l m [] st = (if t_finished (snd st) then Some st else None)"
| "test_loop t l m (p # ps) st =
     (if t_finished (snd st) then Some st
      else (case test_pass t l m p st of None \<Rightarrow> None | Some st \<Rightarrow> test_loop t l m ps st))"

definition test_view_start :: "window \<Rightarrow> fp_ui_language \<Rightarrow> fp_test_mode \<Rightarrow> test_view" where
  "test_view_start t l m =
     (let e = zero_event\<lparr>ev_phase := FP_TEST_PHASE_PREFLIGHT, ev_index := 1, ev_total := 1\<rparr> in
      \<lparr>t_event = e, t_history = empty_history, t_cancelling = False, t_finished = False,
       t_screen = draw_test_progress t l m e empty_history False\<rparr>)"

text \<open>The same for a diagnosis.\<close>

record diag_view =
  d_event :: fp_diagnostic_event
  d_cancelling :: bool
  d_finished :: bool
  d_screen :: screen

definition diag_pass ::
    "window \<Rightarrow> fp_ui_language \<Rightarrow> pass \<Rightarrow> fp_diagnostic_event list \<times> diag_view
     \<Rightarrow> (fp_diagnostic_event list \<times> diag_view) option" where
  "diag_pass t l p st =
     (case st of (queue, v) \<Rightarrow>
      let v = (if is_quit (fst p) \<and> \<not> d_cancelling v
            then v\<lparr>d_cancelling := True, d_screen := draw_diagnostic_progress t l (d_event v) True\<rparr> else v) in
      case snd p of
        Ready \<Rightarrow>
          (case queue of
             [] \<Rightarrow> None
           | e # queue \<Rightarrow>
               let v = v\<lparr>d_event := e\<rparr> in
               Some (queue,
                 if item_step (event_item e) = FP_DIAGNOSTIC_DONE then v\<lparr>d_finished := True\<rparr>
                 else v\<lparr>d_screen := draw_diagnostic_progress t l e (d_cancelling v)\<rparr>))
      | Broken \<Rightarrow> Some (queue, v\<lparr>d_finished := True\<rparr>)
      | Failed \<Rightarrow> Some (queue, v\<lparr>d_finished := True\<rparr>)
      | _ \<Rightarrow> Some (queue, v))"

fun diag_loop ::
    "window \<Rightarrow> fp_ui_language \<Rightarrow> pass list \<Rightarrow> fp_diagnostic_event list \<times> diag_view
     \<Rightarrow> (fp_diagnostic_event list \<times> diag_view) option" where
  "diag_loop t l [] st = (if d_finished (snd st) then Some st else None)"
| "diag_loop t l (p # ps) st =
     (if d_finished (snd st) then Some st
      else (case diag_pass t l p st of None \<Rightarrow> None | Some st \<Rightarrow> diag_loop t l ps st))"

definition diag_view_start :: "window \<Rightarrow> fp_ui_language \<Rightarrow> diag_view" where
  "diag_view_start t l =
     (let e = \<lparr>event_item = \<lparr>item_step = FP_DIAGNOSTIC_CONFIG, item_state = FP_DIAGNOSTIC_PENDING,
                item_reason = REASON_NONE, error_code = 0, detail_code = 0\<rparr>,
              event_index = 1, event_total = FP_DIAGNOSTIC_STEP_COUNT\<rparr> in
      \<lparr>d_event = e, d_cancelling = False, d_finished = False, d_screen = draw_diagnostic_progress t l e False\<rparr>)"

section \<open>The texts about the result\<close>

definition unable_to_test :: "fp_ui_language \<Rightarrow> string" where
  "unable_to_test l = wording l (utf8 [26080, 27861, 21551, 21160, 27979, 35797, 12290]) ''Unable to start test.''"

text \<open>The end of \<open>run_selected_test\<close>, and \<open>format_monitor_test_result\<close>.\<close>

definition test_message :: "fp_ui_language \<Rightarrow> fp_test_mode \<Rightarrow> fp_test_report \<Rightarrow> string" where
  "test_message l m rep =
     (if \<not> listener_ok rep then wording l (utf8 [27979, 35797, 22833, 36133, 65306, 35831, 30830, 35748,
       26381, 21153, 12289, 35268, 21017, 21644, 23487, 20027, 26426] @ '' SOCKS5 '' @ utf8 [21487, 29992,
       12290])
        ''Test failed: check the forwarder, rules, and host SOCKS5.''
      else if was_cancelled rep then wording l (utf8 [27979, 35797, 24050, 21462, 28040, 12290]) ''Test cancelled.''
      else if m = FP_TEST_MODE_SPEED
      then wording l (utf8 [27979, 36895, 23436, 25104, 65306]) ''Speed test done: '' @
        passed_of (speed_passed rep) (length (speeds rep))
        @ wording l (utf8 [65292, 23792, 20540] @ '' '') '', peak '' @ fp_format_rate 32 (best_speed_bps rep) @
          wording l (utf8 [12290]) ''.''
      else wording l (if m = FP_TEST_MODE_LATENCY then (utf8 [31471, 21040, 31471, 21709, 24212, 24310, 36831,
        27979, 35797, 23436, 25104, 65306]) else (utf8 [36830, 36890, 24615, 27979, 35797, 23436, 25104,
        65306]))
             (if m = FP_TEST_MODE_LATENCY then ''Response latency test done: '' else ''Connectivity test done: '')
        @ passed_of (sites_passed rep) (length (sites rep)) @ wording l (utf8 [12290]) ''.'')"

definition format_monitor_test_result :: "fp_ui_language \<Rightarrow> fp_test_mode \<Rightarrow> fp_test_report \<Rightarrow> nat \<Rightarrow> string" where
  "format_monitor_test_result l m rep message_size =
     snprintf message_size
       (if \<not> listener_ok rep then wording l (utf8 [27979, 35797, 22833, 36133, 65306, 35831, 30830, 35748,
         26381, 21153, 12289, 35268, 21017, 21644, 23487, 20027, 26426] @ '' SOCKS5 '' @ utf8 [21487, 29992,
         12290])
          ''Test failed: check the forwarder, rules, and host SOCKS5.''
        else if was_cancelled rep then wording l (utf8 [27979, 35797, 24050, 21462, 28040, 12290]) ''Test cancelled.''
        else if m = FP_TEST_MODE_SPEED
        then wording l (utf8 [27979, 36895, 32467, 26524, 65306]) ''Speed result: '' @
          passed_of (speed_passed rep) (length (speeds rep))
          @ wording l (utf8 [65292, 23792, 20540] @ '' '') '', peak '' @
            fp_format_rate 32 (best_speed_bps rep) @ wording l (utf8 [12290]) ''.''
        else wording l (if m = FP_TEST_MODE_LATENCY then (utf8 [21709, 24212, 24310, 36831, 32467, 26524,
          65306]) else (utf8 [36830, 36890, 24615, 32467, 26524, 65306]))
               (if m = FP_TEST_MODE_LATENCY then ''Response latency result: '' else ''Connectivity result: '')
          @ passed_of (sites_passed rep) (length (sites rep)) @ wording l ('' '' @ utf8 [25104, 21151, 12290]) '' passed.'')"

definition diagnosis_message :: "fp_ui_language \<Rightarrow> fp_diagnostic_report \<Rightarrow> string" where
  "diagnosis_message l rep =
     (if success rep then wording l (utf8 [36830, 25509, 35786, 26029, 36890, 36807, 12290]) ''Diagnostics passed.''
      else if diag_cancelled rep then wording l (utf8 [36830, 25509, 35786, 26029, 24050, 21462, 28040,
        12290]) ''Diagnostics cancelled.''
      else wording l (utf8 [36830, 25509, 35786, 26029, 21457, 29616, 25925, 38556, 12290]) ''Diagnostics found a failure.'')"

end
