(* ===== verification/Tui_Monitor.thy ===== *)
theory Tui_Monitor
  imports Tui_Events
begin

text \<open>
  The traffic monitor's measurements (\<open>src/tui.c\<close>): \<open>update_monitor_rates\<close>,
    one refresh of the page, and
  the loop that follows a test while the page is shown.
\<close>

section \<open>Rates\<close>

text \<open>A \<open>struct timespec\<close>: seconds and nanoseconds.\<close>

type_synonym timespec = "int \<times> int"

record monitor_rate_state =
  anchor_started_ms :: u64
  anchor_up :: u64
  anchor_down :: u64
  anchor_time :: timespec
  up_bps :: rat
  down_bps :: rat
  has_anchor :: bool

definition zero_rates :: monitor_rate_state where
  "zero_rates = \<lparr>anchor_started_ms = 0, anchor_up = 0, anchor_down = 0, anchor_time = (0, 0), up_bps = 0,
     down_bps = 0, has_anchor = False\<rparr>"

definition timespec_elapsed_ms :: "timespec \<Rightarrow> timespec \<Rightarrow> rat" where
  "timespec_elapsed_ms from to =
     fl (fl (fl (of_int (fst to - fst from)) * 1000) + fl (fl (of_int (snd to - snd from)) / 1000000))"

text \<open>\<open>(double)bytes * 1000.0 / elapsed_ms\<close>.\<close>

definition per_second :: "u64 \<Rightarrow> rat \<Rightarrow> rat" where
  "per_second bytes elapsed = fl (fl (fl (of_nat (unat bytes)) * 1000) / elapsed)"

definition update_monitor_rates ::
    "u64 \<Rightarrow> u64 \<Rightarrow> u64 \<Rightarrow> timespec \<Rightarrow> monitor_rate_state \<Rightarrow> monitor_rate_state" where
  "update_monitor_rates up down started now st =
     (if \<not> has_anchor st \<or> anchor_started_ms st \<noteq> started \<or> up < anchor_up st \<or> down < anchor_down st
      then \<lparr>anchor_started_ms = started, anchor_up = up, anchor_down = down, anchor_time = now, up_bps = 0,
             down_bps = 0, has_anchor = True\<rparr>
      else let elapsed = timespec_elapsed_ms (anchor_time st) now in
      if elapsed < 200 then st
      else
        let st = st\<lparr>up_bps := per_second (up - anchor_up st) elapsed,
                    down_bps := per_second (down - anchor_down st) elapsed\<rparr> in
        if elapsed \<ge> 1000 then st\<lparr>anchor_up := up, anchor_down := down, anchor_time := now\<rparr> else st)"

section \<open>One refresh\<close>

text \<open>
  What a refresh meets: the statistics file and the calls on it, which processes are gone, the clock.
  The file belongs to the daemon and changes between two refreshes.
\<close>

record monitor_sample =
  sample_env :: stats_env
  sample_files :: stats_files
  sample_gone :: "int \<Rightarrow> bool"
  sample_now :: timespec

definition take_sample :: "bool \<Rightarrow> monitor_sample \<Rightarrow> stats_proc \<Rightarrow> fp_stats_snapshot \<times> stats_proc" where
  "take_sample alive x p =
     (let (p, f) = fp_stats_reopen_readonly (sample_env x) (p, sample_files x) in
      if alive then (case fp_stats_snapshot (sample_env x) (sample_gone x) (p, f) of ((r, snap), p, f) \<Rightarrow> (snap, p))
      else (empty_snapshot, p))"

definition follow_rates :: "fp_stats_snapshot \<Rightarrow> timespec \<Rightarrow> monitor_rate_state \<Rightarrow> monitor_rate_state" where
  "follow_rates snap now st =
     update_monitor_rates (snap_total_up snap) (snap_total_down snap) (snap_started_ms snap) now st"

text \<open>The monitor's part of the interface's state.\<close>

record 'k monitor =
  m_world :: "'k world"
  m_proc :: stats_proc
  m_rates :: monitor_rate_state
  m_line :: string
  m_screen :: screen

text \<open>The head of both loops: the status,
  the snapshot and the rates. \<open>idle\<close> is the page without a test.\<close>

definition monitor_refresh ::
    "'k os \<Rightarrow> bool \<Rightarrow> monitor_sample \<Rightarrow> 'k monitor \<Rightarrow> (fp_status \<times> fp_stats_snapshot) \<times> 'k monitor" where
  "monitor_refresh os idle x m =
     (let (status, w) = fp_collect_status os (m_world m);
          (snap, p) = take_sample (daemon_running status) x (m_proc m);
          rates = (if available snap then follow_rates snap (sample_now x) (m_rates m)
                   else if idle then zero_rates else m_rates m) in
      ((status, snap), m\<lparr>m_world := w, m_proc := p, m_rates := rates\<rparr>))"

definition show_monitor ::
    "window \<Rightarrow> fp_ui_language \<Rightarrow> fp_status \<times> fp_stats_snapshot \<Rightarrow> bool \<Rightarrow> 'k monitor \<Rightarrow> 'k monitor" where
  "show_monitor t l seen testing m =
     m\<lparr>m_screen := draw_monitor_page t l (snd seen) (up_bps (m_rates m)) (down_bps (m_rates m))
       (daemon_running (fst seen)) (m_line m) testing\<rparr>"

section \<open>A test on the monitor page\<close>

definition STATUS_SIZE :: nat where "STATUS_SIZE = 160"

text \<open>The status line after an event, if the event changes it.\<close>

definition event_line :: "fp_ui_language \<Rightarrow> fp_test_progress_event \<Rightarrow> string \<Rightarrow> string" where
  "event_line l e line =
     (let place = dec (ev_index e) @ ''/'' @ dec (ev_total e) in
      if ev_phase e = FP_TEST_PHASE_SPEED \<and> ev_state e = FP_TEST_SITE_RUNNING \<and> ev_speed_bps e > 0
      then snprintf STATUS_SIZE (wording l (utf8 [27979, 36895, 20013] @ '' '') ''Speed '' @ place @
        wording l (utf8 [65306]) '': '' @ ev_name e @ ''  ''
        @ fp_format_rate 32 (ev_speed_bps e))
      else if ev_name e \<noteq> '''' \<and> ev_phase e \<noteq> FP_TEST_PHASE_PREFLIGHT
      then snprintf STATUS_SIZE (wording l (utf8 [27979, 35797, 20013] @ '' '') ''Testing '' @ place @
        wording l (utf8 [65306]) '': '' @ ev_name e)
      else line)"

record 'k monitor_test =
  mt :: "'k monitor"
  mt_queue :: "fp_test_progress_event list"
  mt_cancelling :: bool
  mt_finished :: bool

definition monitor_pass ::
    "'k os \<Rightarrow> window \<Rightarrow> fp_ui_language \<Rightarrow> pass \<times> monitor_sample \<Rightarrow> 'k monitor_test \<Rightarrow> 'k monitor_test option" where
  "monitor_pass os t l p s =
     (let s = (if is_quit (fst (fst p)) \<and> \<not> mt_cancelling s
            then s\<lparr>mt_cancelling := True, mt := (mt s)\<lparr>m_line :=
              snprintf STATUS_SIZE (wording l (utf8 [27491, 22312, 21462, 28040, 27979, 35797,
                8230]) (''Cancelling test'' @ utf8 [8230]))\<rparr>\<rparr> else s);
          (seen, m) = monitor_refresh os False (snd p) (mt s);
          finish = (\<lambda>queue m done. Some (s\<lparr>mt := show_monitor t l seen True m, mt_queue := queue,
            mt_finished := done\<rparr>)) in
      case snd (fst p) of
        Ready \<Rightarrow>
          (case mt_queue s of
             [] \<Rightarrow> None
           | e # queue \<Rightarrow>
               if ev_phase e = FP_TEST_PHASE_DONE then finish queue m True
               else finish queue (m\<lparr>m_line := event_line l e (m_line m)\<rparr>) False)
      | Broken \<Rightarrow> finish (mt_queue s) m True
      | Failed \<Rightarrow> finish (mt_queue s) m True
      | _ \<Rightarrow> finish (mt_queue s) m False)"

fun monitor_test_loop ::
    "'k os \<Rightarrow> window \<Rightarrow> fp_ui_language \<Rightarrow> (pass \<times> monitor_sample) list \<Rightarrow> 'k monitor_test \<Rightarrow> 'k monitor_test option" where
  "monitor_test_loop os t l [] s = (if mt_finished s then Some s else None)"
| "monitor_test_loop os t l (p # ps) s =
     (if mt_finished s then Some s
      else (case monitor_pass os t l p s of None \<Rightarrow> None | Some s \<Rightarrow> monitor_test_loop os t l ps s))"

text \<open>
  How a thread is started: \<open>pipe\<close> and \<open>pthread_create\<close> succeed or not; what the thread meets; the passes of the
  loop that follows it, with the samples the monitor takes.
\<close>

record job =
  pipe_ok :: bool
  thread_ok :: bool
  job_net :: net_os
  passes :: "(pass \<times> monitor_sample) list"

text \<open>
  \<open>run_monitor_test\<close>: whether it ends,
    and the state. The thread's few looks at the files and the packet filter come
  before those of the page; both only observe. If the loop is left early the thread is waited for all the same.
\<close>

definition run_monitor_test ::
    "'k os \<Rightarrow> curl_os \<Rightarrow> window \<Rightarrow> fp_ui_language \<Rightarrow> fp_test_mode \<Rightarrow> job \<Rightarrow> 'k monitor \<Rightarrow> bool \<times> 'k monitor" where
  "run_monitor_test os curl t l tm j m =
     (if \<not> pipe_ok j \<or> \<not> thread_ok j then (True,
       m\<lparr>m_line := snprintf STATUS_SIZE (unable_to_test l)\<rparr>)
      else
        (case fp_test_run os curl (job_net j) tm (m_world m) fresh_net of ((r, st), w) \<Rightarrow>
          let m = m\<lparr>m_world := w, m_line := snprintf STATUS_SIZE (wording l (utf8 [27491, 22312, 27979,
            35797, 8230]) (''Testing'' @ utf8 [8230]))\<rparr> in
          (case monitor_test_loop os t l (passes j)
              \<lparr>mt = m, mt_queue = events st, mt_cancelling = False, mt_finished = False\<rparr> of
             None \<Rightarrow> (False, m)
           | Some s \<Rightarrow> (True,
             (mt s)\<lparr>m_line := format_monitor_test_result l tm (report st) STATUS_SIZE\<rparr>))))"

end
