(* ===== verification/Tui_Follow.thy ===== *)
theory Tui_Follow
  imports Tui_Monitor
begin

text \<open>
  What the pages make of what they follow: the rates of the traffic monitor against the samples it took, and
  the progress page against the events of the test it watches.
\<close>

section \<open>The traffic rates\<close>

text \<open>A sample of a daemon's totals: uploaded, downloaded, the start of the daemon and the time.\<close>

type_synonym totals = "u64 \<times> u64 \<times> u64 \<times> timespec"

definition rates_after :: "totals list \<Rightarrow> monitor_rate_state" where
  "rates_after xs = foldl (\<lambda>st (up, down, started, now). update_monitor_rates up down started now st) zero_rates xs"

text \<open>\<open>b\<close> is a sample of the same daemon as \<open>a\<close>, and its totals have not shrunk.\<close>

fun follows :: "totals \<Rightarrow> totals \<Rightarrow> bool" where
  "follows (up_a, down_a, started_a, now_a) (up_b, down_b, started_b, now_b) \<longleftrightarrow>
     started_b = started_a \<and> up_a \<le> up_b \<and> down_a \<le> down_b"

fun rates_between :: "totals \<Rightarrow> totals \<Rightarrow> rat \<times> rat" where
  "rates_between (up_a, down_a, started_a, now_a) (up_b, down_b, started_b, now_b) =
     (per_second (up_b - up_a) (timespec_elapsed_ms now_a now_b), per_second (down_b - down_a) (timespec_elapsed_ms now_a now_b))"

fun elapsed_between :: "totals \<Rightarrow> totals \<Rightarrow> rat" where
  "elapsed_between (up_a, down_a, started_a, now_a) (up_b, down_b, started_b, now_b) = timespec_elapsed_ms now_a now_b"

definition anchor_of :: "monitor_rate_state \<Rightarrow> totals" where
  "anchor_of st = (anchor_up st, anchor_down st, anchor_started_ms st, anchor_time st)"

text \<open>
  The anchor is one of the samples, everything since follows it, and the rates are zero or those between two
  samples at least 200 ms apart.
\<close>

definition rates_ok :: "totals list \<Rightarrow> monitor_rate_state \<Rightarrow> bool" where
  "rates_ok xs st \<longleftrightarrow> has_anchor st
     \<and> (\<exists>older newer. xs = older @ anchor_of st # newer \<and> list_all (follows (anchor_of st)) newer)
     \<and> ((up_bps st, down_bps st) = (0, 0)
        \<or> (\<exists>older a between b newer. xs = older @ a # between @ b # newer \<and> follows a b \<and> 200 \<le> elapsed_between a b
            \<and> (up_bps st, down_bps st) = rates_between a b))"

lemma rates_ok_reset: "rates_ok (xs @ [(up, down, started, now)]) (update_monitor_rates up down started now st)"
  if "\<not> has_anchor st \<or> anchor_started_ms st \<noteq> started \<or> up < anchor_up st \<or> down < anchor_down st"
  using that by (auto simp: update_monitor_rates_def rates_ok_def anchor_of_def intro: exI [of _ xs])

lemma rates_ok_early: "rates_ok xs st \<Longrightarrow> follows (anchor_of st) x \<Longrightarrow> rates_ok (xs @ [x]) st"
proof -
  assume r: "rates_ok xs st" and x: "follows (anchor_of st) x"
  obtain older newer where "xs = older @ anchor_of st # newer" "list_all (follows (anchor_of st)) newer"
    using r by (auto simp: rates_ok_def)
  with x have a: "\<exists>older newer. xs @ [x] = older @ anchor_of st # newer \<and> list_all (follows (anchor_of st)) newer"
    by (intro exI [of _ older] exI [of _ "newer @ [x]"]) simp
  have "xs @ [x] = older @ a # between @ b # (newer @ [x])" if "xs = older @ a # between @ b # newer" for older a between b newer
    using that by simp
  with r a show ?thesis unfolding rates_ok_def by blast
qed

lemma rates_ok_update:
  assumes "rates_ok xs st"
  shows "rates_ok (xs @ [(up, down, started, now)]) (update_monitor_rates up down started now st)"
proof (cases "\<not> has_anchor st \<or> anchor_started_ms st \<noteq> started \<or> up < anchor_up st \<or> down < anchor_down st")
  case False
  let ?x = "(up, down, started, now)"
  define ms where "ms = timespec_elapsed_ms (anchor_time st) now"
  have f: "follows (anchor_of st) ?x" using False by (auto simp: anchor_of_def)
  note old = rates_ok_early [OF assms f]
  obtain older newer where xs: "xs = older @ anchor_of st # newer" "list_all (follows (anchor_of st)) newer"
    using assms by (auto simp: rates_ok_def)
  show ?thesis
  proof (cases "ms < 200")
    case True
    then have "update_monitor_rates up down started now st = st"
      using False by (auto simp: update_monitor_rates_def ms_def)
    with old show ?thesis by simp
  next
    case late: False
    let ?st = "update_monitor_rates up down started now st"
    have r: "(up_bps ?st, down_bps ?st) = rates_between (anchor_of st) ?x" "has_anchor ?st"
      "anchor_of ?st = (if 1000 \<le> ms then ?x else anchor_of st)"
      using False late by (auto simp: update_monitor_rates_def Let_def ms_def anchor_of_def)
    have e: "200 \<le> elapsed_between (anchor_of st) ?x" using late by (simp add: anchor_of_def ms_def)
    have "\<exists>older newer. xs @ [?x] = older @ anchor_of ?st # newer \<and> list_all (follows (anchor_of ?st)) newer"
    proof (cases "1000 \<le> ms")
      case True
      with r(3) show ?thesis by (intro exI [of _ xs] exI [of _ "[]"]) simp
    next
      case False
      with r(3) xs f show ?thesis by (intro exI [of _ older] exI [of _ "newer @ [?x]"]) simp
    qed
    with r f e xs(1) show ?thesis
      unfolding rates_ok_def by (metis append.assoc append_Cons append_Nil)
  qed
qed (rule rates_ok_reset)

lemma rates_after_snoc:
  "rates_after (xs @ [(up, down, started, now)]) = update_monitor_rates up down started now (rates_after xs)"
  by (simp add: rates_after_def)

lemma rates_after_ok: "xs \<noteq> [] \<Longrightarrow> rates_ok xs (rates_after xs)"
proof (induction xs rule: rev_induct)
  case (snoc x xs)
  obtain up down started now where x: "x = (up, down, started, now)" by (metis prod.collapse)
  show ?case
  proof (cases "xs = []")
    case True
    then have "\<not> has_anchor (rates_after xs)" by (simp add: rates_after_def zero_rates_def)
    then show ?thesis unfolding x rates_after_snoc by (intro rates_ok_reset) simp
  next
    case False
    with snoc.IH show ?thesis unfolding x rates_after_snoc by (intro rates_ok_update)
  qed
qed simp

lemma per_second_nonneg: "0 \<le> ms \<Longrightarrow> 0 \<le> per_second n ms"
  unfolding per_second_def
  by (intro fl_nonneg divide_nonneg_nonneg mult_nonneg_nonneg of_nat_0_le_iff) simp_all

text \<open>
  C40: The rates the monitor shows are never negative and never come from a wrapped subtraction. After any samples,
  with daemons restarting, counters starting over and the clock jumping in between, they are zero
  or the bytes between two of the samples, of one daemon and with totals that have grown, over the time between them,
  which is at least 200 ms.
\<close>

theorem monitor_rates_sound:
  assumes "xs \<noteq> []"
  shows "0 \<le> up_bps (rates_after xs) \<and> 0 \<le> down_bps (rates_after xs)
    \<and> ((up_bps (rates_after xs), down_bps (rates_after xs)) = (0, 0)
       \<or> (\<exists>older a between b newer. xs = older @ a # between @ b # newer \<and> follows a b \<and> 200 \<le> elapsed_between a b
           \<and> (up_bps (rates_after xs), down_bps (rates_after xs)) = rates_between a b))"
proof -
  have r: "200 \<le> elapsed_between a b \<Longrightarrow> rates_between a b = (u, d) \<Longrightarrow> 0 \<le> u \<and> 0 \<le> d" for a b u d
    by (cases a; cases b) (auto intro!: per_second_nonneg)
  from rates_after_ok [OF assms] show ?thesis
    unfolding rates_ok_def by (elim conjE disjE exE) (use r in \<open>auto; metis\<close>)+
qed

text \<open>A daemon that restarts between two samples.\<close>

theorem monitor_rates_sound_witness:
  "0 \<le> up_bps (rates_after [(5, 7, 1, (0, 0)), (1005, 507, 1, (1, 0)), (0, 0, 2, (2, 0)), (300, 0, 2, (2, 500000000))])"
  using monitor_rates_sound [of "[(5, 7, 1, (0, 0)), (1005, 507, 1, (1, 0)), (0, 0, 2, (2, 0)), (300, 0, 2, (2, 500000000))]"]
  by simp

section \<open>The pipe\<close>

text \<open>The writer's end takes what it is given, in parts and with interruptions, but does not fail.\<close>

definition willing :: "sock \<Rightarrow> bool" where
  "willing s \<longleftrightarrow> list_all (\<lambda>e. e = SIntr \<or> (\<exists>n > 0. e = Take n)) (plan s)"

lemma willing_send:
  assumes "sys_send bs s = (r, s')" and "willing s" and "bs \<noteq> []"
  shows "willing s' \<and> (r = SendErr E_INTR \<or> (\<exists>n > 0. r = Sent n))"
  using assms by (cases "length bs") (auto simp: sys_send_def willing_def min_def split: list.splits send_event.splits if_splits)

lemma write_all_willing:
  assumes "willing s" and "write_all bs s = (r, s')"
  shows "willing s' \<and> r = ok"
  using assms
proof (induction bs s arbitrary: r s' rule: write_all.induct)
  case (1 bs s)
  show ?case
  proof (cases "bs = []")
    case False
    obtain q s1 where q: "sys_send bs s = (q, s1)" by force
    note w = willing_send [OF q 1(3) False]
    note run = 1(4) [unfolded write_all.simps [of bs s]]
    show ?thesis
    proof (cases q)
      case (SendErr e)
      then show ?thesis using 1(2) [OF False q [symmetric] SendErr] w q run False by auto
    next
      case (Sent n)
      then show ?thesis using 1(1) [OF False q [symmetric] Sent] w q run False by auto
    qed
  qed (use 1(3,4) in \<open>simp add: write_all.simps\<close>)
qed

definition write_events :: "byte list list \<Rightarrow> sock \<Rightarrow> sock" where
  "write_events evs s = foldl (\<lambda>s e. write_test_event e s) s evs"

lemma write_events_tx: "willing s \<Longrightarrow> tx (write_events evs s) = tx s @ concat evs"
proof (induction evs arbitrary: s)
  case (Cons e evs)
  obtain r s1 where w: "write_all e s = (r, s1)" by force
  note ok = write_all_willing [OF Cons.prems w]
  have "tx s1 = tx s @ e" using write_all_result [OF w] ok by simp
  with Cons.IH [of s1] ok w show ?case by (simp add: write_events_def write_test_event_def)
qed (simp add: write_events_def)

lemma read_events_wire:
  assumes "\<forall>e \<in> set evs. length e = n" and "n \<le> length buffer" and "wire (rx s) = concat evs"
  shows "read_events (length evs) buffer n s = Some evs"
  using assms
proof (induction evs arbitrary: buffer s)
  case (Cons e evs)
  have l: "length e = n" "n \<le> length (wire (rx s))" using Cons.prems by auto
  obtain s' where r: "read_test_event buffer n s = Some (ok, e @ drop n buffer, s')" "wire (rx s') = concat evs"
    using pipe.read_enough [OF Cons.prems(2) l(2)] Cons.prems(3) l(1) by auto
  have "read_events (length evs) (e @ drop n buffer) n s' = Some evs"
    using Cons.prems(1,2) l(1) by (intro Cons.IH r(2)) auto
  with r(1) l(1) show ?case by simp
qed simp

text \<open>
  The pipe between the thread and the page carries events unchanged: however the kernel splits and interrupts the
  writes of one end and the reads of the other, the events that were written, each as the bytes of its structure, are
  the events that are read, in order.
\<close>

theorem pipe_carries_events:
  assumes "willing s" and "tx s = []" and "\<forall>e \<in> set evs. length e = n" and "n \<le> length buffer"
    and "wire (rx s') = tx (write_events evs s)"
  shows "read_events (length evs) buffer n s' = Some evs"
  by (rule read_events_wire [OF assms(3,4)]) (simp add: assms(2,5) write_events_tx [OF assms(1)])

text \<open>Two events of three bytes through a reader that gets them in pieces of one, four and one.\<close>

theorem pipe_carries_events_witness:
  "read_events 2 [0, 0, 0] 3 \<lparr>rx = [Chunk [1], RIntr, Chunk [2, 3, 4, 5], Chunk [6 :: byte]], plan = [], tx = [], shut_wr = False\<rparr>
     = Some [[1, 2, 3], [4, 5, 6]]"
proof -
  let ?s = "\<lparr>rx = [], plan = [Take 2, SIntr, Take 1], tx = [], shut_wr = False\<rparr>"
  have w: "willing ?s" by (simp add: willing_def)
  have "tx (write_events [[1, 2, 3], [4, 5, 6 :: byte]] ?s) = [1, 2, 3, 4, 5, 6]"
    using write_events_tx [OF w] by simp
  then show ?thesis
    using pipe_carries_events [OF w, of "[[1, 2, 3], [4, 5, 6]]" 3 "[0, 0, 0]"
      "\<lparr>rx = [Chunk [1], RIntr, Chunk [2, 3, 4, 5], Chunk [6]], plan = [], tx = [], shut_wr = False\<rparr>"]
    by (simp add: numeral_2_eq_2 del: read_events.simps)
qed

section \<open>Pages that follow a thread\<close>

definition reads :: "pass list \<Rightarrow> nat" where
  "reads ps = length (filter (\<lambda>p. snd p = Ready) ps)"

definition undisturbed :: "pass list \<Rightarrow> bool" where
  "undisturbed ps \<longleftrightarrow> list_all (\<lambda>p. snd p \<notin> {Broken, Failed}) ps"

text \<open>
  What the test page and the diagnosis page have in common: a pass that is told of an event takes the next one, and
  the loop ends with an event that says the thread is done. \<open>seen\<close> is what the page has learnt from the events.
\<close>

locale event_page =
  fixes finished :: "'v \<Rightarrow> bool" and one_pass :: "pass \<Rightarrow> 'e list \<times> 'v \<Rightarrow> ('e list \<times> 'v) option"
    and loop :: "pass list \<Rightarrow> 'e list \<times> 'v \<Rightarrow> ('e list \<times> 'v) option"
    and last_event :: "'e \<Rightarrow> bool" and seen :: "'v \<Rightarrow> 'h" and learn :: "'h \<Rightarrow> 'e \<Rightarrow> 'h"
  assumes loop_end: "finished v \<Longrightarrow> loop ps (q, v) = Some (q, v)"
    and loop_out: "\<not> finished v \<Longrightarrow> loop [] (q, v) = None"
    and loop_step: "\<not> finished v \<Longrightarrow> one_pass p (q, v) = Some st \<Longrightarrow> loop (p # ps) (q, v) = loop ps st"
    and pass_idle: "snd p \<in> {Quiet, Interrupted} \<Longrightarrow>
      \<exists>v'. one_pass p (q, v) = Some (q, v') \<and> finished v' = finished v \<and> seen v' = seen v"
    and pass_reads: "snd p = Ready \<Longrightarrow> \<not> finished v \<Longrightarrow>
      \<exists>v'. one_pass p (e # q, v) = Some (q, v') \<and> finished v' = last_event e \<and> seen v' = learn (seen v) e"
begin

text \<open>The loop ends exactly when it has read the last event.\<close>

lemma loop_reads:
  assumes "undisturbed ps" and "\<not> finished v" and "list_all (\<lambda>e. \<not> last_event e) es" and "last_event d"
  shows "if length es < reads ps then \<exists>v'. loop ps (es @ [d], v) = Some ([], v') \<and> seen v' = foldl learn (seen v) (es @ [d])
    else loop ps (es @ [d], v) = None"
  using assms
proof (induction ps arbitrary: es v)
  case (Cons p ps)
  have u: "undisturbed ps" "snd p \<noteq> Broken" "snd p \<noteq> Failed" using Cons.prems(1) by (auto simp: undisturbed_def)
  show ?case
  proof (cases "snd p = Ready")
    case False
    then have "snd p \<in> {Quiet, Interrupted}" using u by (cases "snd p") auto
    then obtain v1 where v1: "one_pass p (es @ [d], v) = Some (es @ [d], v1)" "\<not> finished v1" "seen v1 = seen v"
      using pass_idle [of p "es @ [d]" v] Cons.prems(2) by auto
    show ?thesis
      using Cons.IH [OF u(1) v1(2) Cons.prems(3,4)] loop_step [OF Cons.prems(2) v1(1)] v1(3) False
      by (auto simp: reads_def split: if_split_asm)
  next
    case True
    note r = pass_reads [OF True Cons.prems(2)]
    show ?thesis
    proof (cases es)
      case Nil
      obtain v1 where v1: "one_pass p ([d], v) = Some ([], v1)" "finished v1" "seen v1 = learn (seen v) d"
        using r [of d "[]"] Cons.prems(4) by auto
      with Nil loop_step [OF Cons.prems(2) v1(1)] loop_end [OF v1(2)] True show ?thesis by (simp add: reads_def)
    next
      case (Cons e es')
      obtain v1 where v1: "one_pass p (e # (es' @ [d]), v) = Some (es' @ [d], v1)" "\<not> finished v1"
          "seen v1 = learn (seen v) e"
        using r [of e "es' @ [d]"] Cons.prems(3) Cons by auto
      have "list_all (\<lambda>e. \<not> last_event e) es'" using Cons.prems(3) Cons by simp
      from Cons.IH [OF u(1) v1(2) this Cons.prems(4)] show ?thesis
        using loop_step [OF Cons.prems(2) v1(1)] v1(3) True Cons by (auto simp: reads_def split: if_split_asm)
    qed
  qed
qed (use loop_out in \<open>simp add: reads_def\<close>)

end

lemma press_cancel_sel [simp]:
  "t_finished (press_cancel t l m k v) = t_finished v" "t_history (press_cancel t l m k v) = t_history v"
  by (simp_all add: press_cancel_def)

interpretation test_page: event_page t_finished "test_pass t l m" "test_loop t l m"
  "\<lambda>e. ev_phase e = FP_TEST_PHASE_DONE" t_history remember_test_result for t l m
proof (unfold_locales, goal_cases)
  case (1 v ps q)
  then show ?case by (cases ps) simp_all
next
  case (4 p q v)
  then show ?case by (auto simp: test_pass_def Let_def)
next
  case (5 p v e q)
  then show ?case by (auto simp: test_pass_def Let_def)
qed simp_all

interpretation diagnosis_page: event_page d_finished "diag_pass t l" "diag_loop t l"
  "\<lambda>e. item_step (event_item e) = FP_DIAGNOSTIC_DONE" d_event "\<lambda>_ e. e" for t l
proof (unfold_locales, goal_cases)
  case (1 v ps q)
  then show ?case by (cases ps) simp_all
next
  case (4 p q v)
  then show ?case by (auto simp: diag_pass_def Let_def)
next
  case (5 p v e q)
  then show ?case by (auto simp: diag_pass_def Let_def)
qed simp_all

definition remembered :: "test_progress_history \<Rightarrow> fp_test_progress_event list \<Rightarrow> test_progress_history" where
  "remembered h es = foldl remember_test_result h es"

section \<open>The history against the report\<close>

definition done_site :: "fp_test_site_result \<Rightarrow> bool" where
  "done_site s \<longleftrightarrow> site_state s \<in> {FP_TEST_SITE_OK, FP_TEST_SITE_FAIL}"

text \<open>The remembered event says of a site what the report says.\<close>

definition tells :: "nat \<Rightarrow> fp_test_progress_event \<Rightarrow> fp_test_site_result \<Rightarrow> bool" where
  "tells i e s \<longleftrightarrow> ev_index e = Suc i \<and> ev_state e = site_state s \<and> ev_name e = snprintf 32 (site_name s)
     \<and> (site_state s = FP_TEST_SITE_OK \<longrightarrow> ev_latency_ms e = latency_ms s)"

text \<open>After the first \<open>k\<close> sites the history holds just these, and the rest is not done.\<close>

definition tracked :: "nat \<Rightarrow> test_progress_history \<Rightarrow> fp_test_report \<Rightarrow> bool" where
  "tracked k h rep \<longleftrightarrow> h_count h = k \<and> length (items h) = FP_TEST_MAX_SITES \<and> length (sites rep) = FP_TEST_MAX_SITES
     \<and> (\<forall>i < k. done_site (sites rep ! i) \<and> tells i (items h ! i) (sites rep ! i))
     \<and> (\<forall>i < FP_TEST_MAX_SITES. k \<le> i \<longrightarrow> \<not> done_site (sites rep ! i))
     \<and> (0 < k \<longrightarrow> h_total h = FP_TEST_MAX_SITES)"

definition history :: "test_state \<Rightarrow> test_progress_history" where
  "history st = remembered empty_history (events st)"

definition unfinished :: "test_state \<Rightarrow> bool" where
  "unfinished st \<longleftrightarrow> list_all (\<lambda>e. ev_phase e \<noteq> FP_TEST_PHASE_DONE) (events st)"

lemma history_emit:
  "history (emit_event e st) = remember_test_result (history st) e"
  by (simp add: history_def remembered_def emit_event_def)

lemma history_same [simp]:
  "history (update_site i f st) = history st" "history (set_cancelled st) = history st" "history (st\<lparr>net := n\<rparr>) = history st"
  "history (st\<lparr>report := rep\<rparr>) = history st"
  by (simp_all add: history_def update_site_def set_cancelled_def)

lemma unfinished_same [simp]:
  "unfinished (update_site i f st) = unfinished st" "unfinished (set_cancelled st) = unfinished st"
  "unfinished (st\<lparr>net := n\<rparr>) = unfinished st" "unfinished (st\<lparr>report := rep\<rparr>) = unfinished st"
  "unfinished (emit_event e st) \<longleftrightarrow> unfinished st \<and> ev_phase e \<noteq> FP_TEST_PHASE_DONE"
  by (auto simp: unfinished_def update_site_def set_cancelled_def emit_event_def)

text \<open>The two kinds of events of a pass: one that starts a site, one that ends it.\<close>

lemma remember_running: "ev_state e = FP_TEST_SITE_RUNNING \<Longrightarrow> remember_test_result h e = h"
  by (simp add: remember_test_result_def)

lemma tracked_stop:
  assumes "tracked k h rep" and "\<not> done_site s" and "sites rep' = (sites rep)[k := s]"
  shows "tracked k h rep'"
  using assms by (auto simp: tracked_def nth_list_update)

lemma tracked_end:
  assumes "tracked k h rep" and "k < FP_TEST_MAX_SITES" and "done_site s" and "tells k e s"
    and "ev_phase e \<in> {FP_TEST_PHASE_CONNECTIVITY, FP_TEST_PHASE_LATENCY}" and "ev_total e = FP_TEST_MAX_SITES"
    and "sites rep' = (sites rep)[k := s]"
  shows "tracked (Suc k) (remember_test_result h e) rep'"
  using assms by (auto simp: tracked_def nth_list_update remember_test_result_def done_site_def tells_def less_Suc_eq)

lemma test_site_tracked:
  assumes "test_site curl os m k st = (go, st')" and "k < FP_TEST_MAX_SITES" and "tracked k (history st) (report st)"
  shows "tracked (if go then Suc k else k) (history st') (report st') \<and> (unfinished st \<longrightarrow> unfinished st')"
proof -
  have len: "length (sites (report st)) = FP_TEST_MAX_SITES" using assms(3) by (simp add: tracked_def)
  show ?thesis
    using assms(1,2) len
    by (auto simp: test_site_def Let_def check_cancelled_def history_emit remember_running split: prod.splits if_splits
        intro!: tracked_stop [OF assms(3)] tracked_end [OF assms(3)])
      (auto simp: update_site_def set_cancelled_def emit_event_def done_site_def tells_def)
qed

lemma run_site_tests_tracked:
  "run_site_tests curl os m [k..<FP_TEST_MAX_SITES] st = (r, st') \<Longrightarrow> k \<le> FP_TEST_MAX_SITES \<Longrightarrow>
   tracked k (history st) (report st) \<Longrightarrow> unfinished st \<Longrightarrow>
   (\<exists>k'. tracked k' (history st') (report st')) \<and> unfinished st'"
proof (induction "FP_TEST_MAX_SITES - k" arbitrary: k st)
  case (Suc d)
  then have k: "k < FP_TEST_MAX_SITES" by simp
  obtain go st1 where s: "test_site curl os m k st = (go, st1)" by force
  note step = test_site_tracked [OF s k Suc.prems(3)]
  have up: "[k..<FP_TEST_MAX_SITES] = k # [Suc k..<FP_TEST_MAX_SITES]" using k by (rule upt_conv_Cons)
  show ?case
  proof (cases go)
    case True
    then have "run_site_tests curl os m [Suc k..<FP_TEST_MAX_SITES] st1 = (r, st')" using Suc.prems(1) s up by simp
    then show ?thesis using Suc.hyps(1) [of "Suc k" st1] step True Suc.hyps(2) Suc.prems(4) k by simp
  next
    case False
    with Suc.prems(1,4) s up step show ?thesis by auto
  qed
qed auto

lemma test_speed_unfinished: "test_speed os k st = (go, st') \<Longrightarrow> unfinished st \<Longrightarrow> unfinished st'"
  by (auto simp: test_speed_def Let_def check_cancelled_def unfinished_def update_speed_def set_cancelled_def
      emit_event_def list_all_iff split: prod.splits if_splits)

lemma run_speed_tests_unfinished: "run_speed_tests os is st = (r, st') \<Longrightarrow> unfinished st \<Longrightarrow> unfinished st'"
  by (induction "is" arbitrary: st) (auto dest: test_speed_unfinished split: prod.splits if_splits)

lemma tracked_start: "tracked 0 empty_history ((empty_report m)\<lparr>listener_ok := b\<rparr>)"
  by (auto simp: tracked_def empty_history_def empty_report_def targets_fill done_site_def fill_site_def)

lemma arrays_start:
  "length (sites (empty_report m)) = FP_TEST_MAX_SITES" "length (speeds (empty_report m)) = FP_TEST_MAX_SPEED"
  by (simp_all add: empty_report_def targets_fill)

lemma fp_test_run_events:
  assumes "fp_test_run os curl nos m w n = ((r, st), w')"
  obtains es d where "events st = es @ [d]" and "list_all (\<lambda>e. ev_phase e \<noteq> FP_TEST_PHASE_DONE) es"
    and "ev_phase d = FP_TEST_PHASE_DONE"
    and "m \<noteq> FP_TEST_MODE_SPEED \<longrightarrow> (\<exists>k. tracked k (remembered empty_history es) (report st))"
proof -
  define preflight where "preflight = zero_event\<lparr>ev_phase := FP_TEST_PHASE_PREFLIGHT, ev_total := 1, ev_index := 1, ev_name := ''preflight''\<rparr>"
  define st0 where "st0 = (\<lambda>b n. \<lparr>report = (empty_report m)\<lparr>listener_ok := b\<rparr>, events = [preflight], net = n\<rparr>)"
  have u: "unfinished (st0 b n)" and t: "tracked 0 (history (st0 b n)) (report (st0 b n))" for b n
    using tracked_start by (simp_all add: st0_def unfinished_def preflight_def history_def remembered_def remember_test_result_def)
  define after where "after = (\<lambda>n. if m = FP_TEST_MODE_SPEED then snd (run_speed_tests nos [0..<FP_TEST_MAX_SPEED] (st0 True n))
      else snd (run_site_tests curl nos m [0..<FP_TEST_MAX_SITES] (st0 True n)))"
  have a: "unfinished (after n) \<and> (m \<noteq> FP_TEST_MODE_SPEED \<longrightarrow> (\<exists>k. tracked k (history (after n)) (report (after n))))" for n
    using run_speed_tests_unfinished [of nos _ "st0 True n" _ "after n"] u [of True n]
      run_site_tests_tracked [of curl nos m 0 "st0 True n" _ "after n"] t [of True n]
    by (auto simp: after_def) (metis prod.collapse)+
  obtain c config w1 where 1: "fp_config_load os empty_config w = ((c, config), w1)" by (metis prod.collapse)
  obtain b w2 where 2: "(if c = ok then fp_firewall_is_enabled os config w1 else (False, w1)) = (b, w2)" by force
  obtain l n1 where 3: "(if b then listener_ready nos n else (fail, n)) = (l, n1)" by force
  have "events st = events (st0 False n1) @ [preflight\<lparr>ev_phase := FP_TEST_PHASE_DONE, ev_state := FP_TEST_SITE_FAIL\<rparr>]
        \<and> report st = report (st0 False n1)
      \<or> (\<exists>s. events st = events (after n1) @ [zero_event\<lparr>ev_phase := FP_TEST_PHASE_DONE, ev_state := s\<rparr>]
        \<and> report st = report (after n1))"
  proof (cases "l = ok")
    case False
    with assms 1 2 3 show ?thesis
      by (intro disjI1) (auto simp: fp_test_run_def Let_def emit_event_def st0_def preflight_def empty_report_def)
  next
    case True
    have "st = emit_event (zero_event\<lparr>ev_phase := FP_TEST_PHASE_DONE, ev_state := ev_state (last (events st))\<rparr>) (after n1)"
      using assms 1 2 3 True
      by (auto simp: fp_test_run_def Let_def emit_event_def st0_def preflight_def after_def arrays_start)
    then show ?thesis by (metis emit_event_def test_state.select_convs(1,2) test_state.surjective test_state.update_convs(2))
  qed
  then show ?thesis
  proof (elim exE disjE conjE)
    assume "events st = events (st0 False n1) @ [preflight\<lparr>ev_phase := FP_TEST_PHASE_DONE, ev_state := FP_TEST_SITE_FAIL\<rparr>]"
      "report st = report (st0 False n1)"
    with u [of False n1] t [of False n1] that show thesis by (auto simp: unfinished_def history_def)
  next
    fix s
    assume "events st = events (after n1) @ [zero_event\<lparr>ev_phase := FP_TEST_PHASE_DONE, ev_state := s\<rparr>]"
      "report st = report (after n1)"
    with a [of n1] that show thesis by (auto simp: unfinished_def history_def)
  qed
qed

section \<open>Properties of the pages\<close>

text \<open>
  C39: While a test runs, the test page waits exactly until it has read the test's last event, never longer and never
  less, however the events arrive between the passes of its loop and whatever keys are pressed. What it then lists as
  completed is the report: site by site the ones that passed or failed, with their names and latencies,
  and no other.
\<close>

theorem test_page_follows:
  assumes "fp_test_run os curl nos m w n = ((r, st), w')" and "undisturbed ps"
  shows "if length (events st) \<le> reads ps
    then \<exists>v. test_loop t l m ps (events st, test_view_start t l m) = Some ([], v)
      \<and> (m \<noteq> FP_TEST_MODE_SPEED \<longrightarrow> (\<forall>i < FP_TEST_MAX_SITES. if i < h_count (t_history v)
            then done_site (sites (report st) ! i) \<and> tells i (items (t_history v) ! i) (sites (report st) ! i)
            else \<not> done_site (sites (report st) ! i)))
    else test_loop t l m ps (events st, test_view_start t l m) = None"
proof -
  obtain es d where es: "events st = es @ [d]" "list_all (\<lambda>e. ev_phase e \<noteq> FP_TEST_PHASE_DONE) es"
    and d: "ev_phase d = FP_TEST_PHASE_DONE"
    and k: "m \<noteq> FP_TEST_MODE_SPEED \<longrightarrow> (\<exists>k. tracked k (remembered empty_history es) (report st))"
    by (rule fp_test_run_events [OF assms(1)])
  have start: "\<not> t_finished (test_view_start t l m)" "t_history (test_view_start t l m) = empty_history"
    by (simp_all add: test_view_start_def Let_def)
  have "remember_test_result h d = h" for h using d by (simp add: remember_test_result_def)
  then have h: "foldl remember_test_result (t_history (test_view_start t l m)) (es @ [d]) = remembered empty_history es"
    using start(2) by (simp add: remembered_def)
  note run = test_page.loop_reads [OF assms(2) start(1) es(2) d, of t l m, unfolded h]
  show ?thesis
  proof (cases "length es < reads ps")
    case True
    then obtain v where v: "test_loop t l m ps (es @ [d], test_view_start t l m) = Some ([], v)"
      "t_history v = remembered empty_history es" using run by auto
    have "m \<noteq> FP_TEST_MODE_SPEED \<Longrightarrow> \<forall>i < FP_TEST_MAX_SITES. if i < h_count (t_history v)
            then done_site (sites (report st) ! i) \<and> tells i (items (t_history v) ! i) (sites (report st) ! i)
            else \<not> done_site (sites (report st) ! i)"
      using k v(2) by (auto simp: tracked_def)
    with v(1) es(1) True show ?thesis by auto
  qed (use run es(1) in simp)
qed

theorem test_page_follows_witness:
  "\<exists>r st w' v. fp_test_run working_os sample_curl sample_net_os FP_TEST_MODE_LATENCY
       (stored_world\<lparr>nat_tab := nat_tab after_enable\<rparr>) fresh_net = ((r, st), w')
     \<and> test_loop sample_window FP_UI_LANGUAGE_ZH FP_TEST_MODE_LATENCY (replicate (length (events st)) (ERR, Ready))
         (events st, test_view_start sample_window FP_UI_LANGUAGE_ZH FP_TEST_MODE_LATENCY) = Some ([], v)"
proof -
  obtain r st w' where run: "fp_test_run working_os sample_curl sample_net_os FP_TEST_MODE_LATENCY
       (stored_world\<lparr>nat_tab := nat_tab after_enable\<rparr>) fresh_net = ((r, st), w')" by (metis prod.collapse)
  let ?ps = "replicate (length (events st)) (ERR, Ready)"
  have "undisturbed ?ps" "reads ?ps = length (events st)" by (simp_all add: undisturbed_def reads_def list_all_iff)
  with test_page_follows [OF run, of ?ps sample_window FP_UI_LANGUAGE_ZH] run show ?thesis by auto
qed

text \<open>
  The diagnosis page too waits exactly until it has read the last event of the diagnosis, which every diagnosis
  sends, once, at its end.
\<close>

theorem diagnosis_page_follows:
  assumes "undisturbed ps"
  shows "\<exists>r st. fp_diagnostic_run os nos w n = Some (r, st)
    \<and> (if length (diag_events st) \<le> reads ps
       then \<exists>v. diag_loop t l ps (diag_events st, diag_view_start t l) = Some ([], v) \<and> d_event v = last (diag_events st)
       else diag_loop t l ps (diag_events st, diag_view_start t l) = None)"
proof -
  obtain r st where m: "fp_diagnostic_run os nos w n = Some (Inl r, st)" and c: "closed_events st"
    using fp_diagnostic_run_end [of os nos w n] by (auto simp: run_end_def stopped_at_def)
  define es d where "es = butlast (diag_events st)" and "d = last (diag_events st)"
  have es: "diag_events st = es @ [d]" "list_all (\<lambda>e. item_step (event_item e) \<noteq> FP_DIAGNOSTIC_DONE) es"
    "item_step (event_item d) = FP_DIAGNOSTIC_DONE"
    using c by (simp_all add: closed_events_def es_def d_def)
  have "\<not> d_finished (diag_view_start t l)" by (simp add: diag_view_start_def Let_def)
  from diagnosis_page.loop_reads [OF assms this es(2,3), of t l] m es(1) show ?thesis
    by (auto simp: less_eq_Suc_le split: if_split_asm)
qed

theorem diagnosis_page_follows_witness:
  "\<exists>r st v. fp_diagnostic_run working_os working_net_os running_world fresh_net = Some (r, st)
     \<and> (length (diag_events st) \<le> 100 \<longrightarrow>
        diag_loop sample_window FP_UI_LANGUAGE_EN (replicate 100 (ERR, Ready))
          (diag_events st, diag_view_start sample_window FP_UI_LANGUAGE_EN) = Some ([], v))"
proof -
  have "undisturbed (replicate 100 (ERR, Ready))" "reads (replicate 100 (ERR, Ready)) = 100"
    by (simp_all add: undisturbed_def reads_def list_all_iff)
  with diagnosis_page_follows [of "replicate 100 (ERR, Ready)" working_os working_net_os running_world fresh_net
      sample_window FP_UI_LANGUAGE_EN] show ?thesis by (auto split: if_split_asm)
qed

end
