(* ===== verification/Observe.thy ===== *)
theory Observe
  imports Operations_Correct Net_Test Diagnostic
begin

text \<open>
  The operations that only look: status, tests and diagnosis leave every file and directory as it is, send no
  signal and, under every view for which the \<open>iptables\<close> command is sound, keep the rules. The terminal
  interface runs nothing else unless a command key is pressed (\<open>Tui\<close>). Only the process table may have moved on,
  because \<open>systemctl\<close> takes its time.
\<close>

definition observes :: "'k os \<Rightarrow> 'k world \<Rightarrow> 'k world \<Rightarrow> bool" where
  "observes os w w' \<longleftrightarrow> files w' = files w \<and> dirs w' = dirs w \<and> signals w' = signals w
     \<and> (\<forall>view. ipt_sound os view \<longrightarrow> view (nat_tab w') = view (nat_tab w))"

lemma observes_refl [simp]: "observes os w w"
  by (simp add: observes_def)

lemma observes_trans [trans]: "observes os a b \<Longrightarrow> observes os b c \<Longrightarrow> observes os a c"
  unfolding observes_def by metis

text \<open>What an operation without commands leaves alone, as a function of the world.\<close>

definition sights :: "'k world \<Rightarrow> (string \<rightharpoonup> string) \<times> string set \<times> sig_event list \<times> 'k" where
  "sights w = (files w, dirs w, signals w, nat_tab w)"

lemma sights_observes: "sights w' = sights w \<Longrightarrow> observes os w w'"
  by (simp add: observes_def sights_def)

lemma observes_sights: "observes os w a \<Longrightarrow> sights b = sights a \<Longrightarrow> observes os w b"
  by (rule observes_trans [OF _ sights_observes])

lemma same_sights: "same_files w w' \<Longrightarrow> same_kernel w w' \<Longrightarrow> sights w' = sights w"
  by (simp add: sights_def same_files_def same_kernel_def)

lemma sys_sights:
  "sys_fault os w = (f, w') \<Longrightarrow> sights w' = sights w"
  "sys_open_read os p w = (c, w') \<Longrightarrow> sights w' = sights w"
  "sys_access os p w = (b, w') \<Longrightarrow> sights w' = sights w"
  "sys_proc os pid w = (pr, w') \<Longrightarrow> sights w' = sights w"
  "sys_kill os pid 0 w = (e, w') \<Longrightarrow> sights w' = sights w"
  by (auto simp: sys_defs sys_proc_def sys_kill_def sights_def Let_def split: if_splits)

lemma read_sights:
  "process_start_time os pid w = (t, w') \<Longrightarrow> sights w' = sights w"
  "read_exe os pid w = (x, w') \<Longrightarrow> sights w' = sights w"
  "cmdline_is_run os pid w = (b, w') \<Longrightarrow> sights w' = sights w"
  "read_process_record os w = (rc, w') \<Longrightarrow> sights w' = sights w"
  by (auto simp: process_start_time_def read_exe_def cmdline_is_run_def read_process_record_def
      Let_def dest: sys_sights split: prod.splits option.splits)

lemma fp_read_pid_sights: "fp_read_pid os w = (pid, w') \<Longrightarrow> sights w' = sights w"
  by (auto simp: fp_read_pid_def dest: read_sights split: prod.splits option.splits)

lemma process_is_ours_sights: "process_is_ours os pid t w = (b, w') \<Longrightarrow> sights w' = sights w"
  by (auto simp: process_is_ours_def Let_def dest!: read_sights sys_sights split: prod.splits option.splits if_splits)

lemma fp_daemon_matches_config_sights: "fp_daemon_matches_config os c w = (b, w') \<Longrightarrow> sights w' = sights w"
  by (auto simp: fp_daemon_matches_config_def dest!: read_sights process_is_ours_sights
      split: prod.splits option.splits if_splits)

lemma fp_config_exists_sights: "fp_config_exists os w = (b, w') \<Longrightarrow> sights w' = sights w"
  by (auto simp: fp_config_exists_def dest: sys_sights)

lemma fp_config_load_sights: "fp_config_load os d w = (rc, w') \<Longrightarrow> sights w' = sights w"
  by (cases rc) (auto intro: same_sights dest: fp_config_load_stored)

lemma systemctl_sights: "spawn_systemctl os args w = (b, w') \<Longrightarrow> sights w' = sights w"
  by (auto simp: spawn_systemctl_def sys_spawn_fault_def sights_def Let_def split: prod.splits if_splits)

lemma fp_autostart_is_enabled_sights: "fp_autostart_is_enabled os w = (b, w') \<Longrightarrow> sights w' = sights w"
  by (auto simp: fp_autostart_is_enabled_def Let_def dest!: systemctl_sights sys_sights split: prod.splits if_splits)

lemma fp_firewall_is_enabled_view:
  assumes s: "ipt_sound os view" and "fp_firewall_is_enabled os config w = (e, w')"
  shows "view (nat_tab w') = view (nat_tab w)"
proof -
  obtain e1 w1 where 1: "chain_exists os w = (e1, w1)" by force
  obtain e2 w2 where 2: "output_jump_exists os w1 = (e2, w2)" by force
  obtain r3 w3 where 3: "run_iptables os (nat_args (''-C'' # FP_CHAIN
      # return_rule (inet_ntop (proxy_addr config)))) w2 = (r3, w3)" by force
  obtain r4 w4 where 4: "run_iptables os (nat_args (''-C'' # FP_CHAIN # return_rule loopback_text)) w3 = (r4, w4)"
    by force
  obtain r5 w5 where 5: "run_iptables os (nat_args (''-C'' # FP_CHAIN # redirect_rule)) w4 = (r5, w5)" by force
  obtain r6 w6 where 6: "bypass_rules os ''-C'' (bypass config) w5 = (r6, w6)" by force
  have "w' \<in> {w1, w2, w3, w4, w5, w6}"
    using assms(2) 1 2 3 4 5 6 by (auto simp: fp_firewall_is_enabled_def Let_def split: if_splits)
  moreover note chain_exists_view(1) [OF s 1] output_jump_exists_view(1) [OF s 2]
    check_rule_sound(1) [OF s 3, simplified] check_rule_sound(1) [OF s 4, simplified]
    check_rule_sound(1) [OF s 5, simplified] check_bypass_sound [OF s 6]
  ultimately show ?thesis by auto
qed

lemma fp_firewall_is_enabled_observes:
  assumes "fp_firewall_is_enabled os config w = (e, w')"
  shows "observes os w w'"
  using fp_firewall_is_enabled_only [OF assms] fp_firewall_is_enabled_view [OF _ assms]
  by (simp add: observes_def only_nat_def same_files_def)

lemma fp_collect_status_observes:
  assumes "fp_collect_status os w = (status, w')"
  shows "observes os w w'"
proof -
  obtain present w1 where 1: "fp_config_exists os w = (present, w1)" by force
  obtain pid w2 where 2: "fp_read_pid os w1 = (pid, w2)" by force
  obtain alive w3 where 3: "(if pid > 1 then (case sys_kill os pid 0 w2 of (e, w) \<Rightarrow> (e = None, w)) else (False, w2))
      = (alive, w3)" by force
  obtain auto w4 where 4: "fp_autostart_is_enabled os w3 = (auto, w4)" by force
  obtain r config w5 where 5: "fp_config_load os empty_config w4 = ((r, config), w5)" by (metis prod.collapse)
  obtain e w6 where 6: "fp_firewall_is_enabled os config w5 = (e, w6)" by force
  have "sights w3 = sights w2" using 3 by (auto dest: sys_sights split: if_splits prod.splits)
  with fp_config_exists_sights [OF 1] fp_read_pid_sights [OF 2] fp_autostart_is_enabled_sights [OF 4]
  have k4: "sights w4 = sights w" by simp
  note k5 = fp_config_load_sights [OF 5]
  have "w' \<in> {w4, w5, w6}"
    using assms 1 2 3 4 5 6 by (auto simp: fp_collect_status_def Let_def split: if_splits)
  with k4 k5 fp_firewall_is_enabled_observes [OF 6] show ?thesis
    by (auto simp: sights_observes intro: observes_trans sights_observes)
qed

lemma fp_test_run_observes:
  assumes "fp_test_run os curl nos m w n = (x, w')"
  shows "observes os w w'"
proof -
  obtain r config w1 where 1: "fp_config_load os empty_config w = ((r, config), w1)" by (metis prod.collapse)
  obtain e w2 where 2: "fp_firewall_is_enabled os config w1 = (e, w2)" by force
  have "w' \<in> {w1, w2}"
    using assms 1 2 by (auto simp: fp_test_run_def Let_def split: if_splits prod.splits)
  with sights_observes [OF fp_config_load_sights [OF 1]] fp_firewall_is_enabled_observes [OF 2] show ?thesis
    by (auto intro: observes_trans)
qed

text \<open>The stages of a diagnosis, one after the other.\<close>

definition observing :: "'k os \<Rightarrow> 'k world \<Rightarrow> ('k, 'a) stage \<Rightarrow> bool" where
  "observing os w m \<longleftrightarrow> (case m of None \<Rightarrow> True | Some (x, st) \<Rightarrow> observes os w (diag_world st))"

lemma observing_simps [simp]: "observing os w None" "observing os w (Some (x, st)) = observes os w (diag_world st)"
  by (simp_all add: observing_def)

lemma observing_then:
  "observing os w m \<Longrightarrow> (\<And>a st. observes os w (diag_world st) \<Longrightarrow> observing os w (f a st)) \<Longrightarrow> observing os w (and_then m f)"
  unfolding observing_def and_then_def by (force split: option.splits sum.splits prod.splits)

lemma observing_fail [simp]:
  "observing os w (diagnostic_fail k r e d st) = observes os w (diag_world st)"
  "observing os w (pass_step k a st) = observes os w (diag_world st)"
  by (simp_all add: observing_def diagnostic_fail_def pass_step_def diagnostic_done_def Let_def)

lemma done_world [simp]: "diag_world (diagnostic_done st) = diag_world st"
  by (simp add: diagnostic_done_def Let_def)

lemma diagnostic_cancel_world: "diagnostic_cancel nos k st = (b, st') \<Longrightarrow> diag_world st' = diag_world st"
  by (auto simp: diagnostic_cancel_def diag_flag_def Let_def split: prod.splits if_splits)

lemma observing_cancel [simp]:
  "observing os w (cancel_or_fail nos k r e d st) = observes os w (diag_world st)"
  using diagnostic_cancel_world [of nos k st]
  by (auto simp: cancel_or_fail_def observing_def diagnostic_fail_def split: prod.splits if_splits)

lemma diagnose_config_observing: "observes os w (diag_world st) \<Longrightarrow> observing os w (diagnose_config os st)"
  by (auto simp: diagnose_config_def Let_def split: prod.splits
      dest!: fp_config_exists_sights fp_config_load_sights intro: observes_sights)

lemma diagnose_daemon_observing: "observes os w (diag_world st) \<Longrightarrow> observing os w (diagnose_daemon os nos c st)"
  by (auto simp: diagnose_daemon_def Let_def split: prod.splits
      dest!: diagnostic_cancel_world fp_daemon_matches_config_sights fp_read_pid_sights intro: observes_sights)

lemma diagnose_firewall_observing: "observes os w (diag_world st) \<Longrightarrow> observing os w (diagnose_firewall os c st)"
  by (auto simp: diagnose_firewall_def Let_def split: prod.splits
      dest!: fp_firewall_is_enabled_observes intro: observes_trans)

text \<open>The other stages only use the network.\<close>

lemma diagnose_net_observing:
  "observes os w (diag_world st) \<Longrightarrow> observing os w (diagnose_listener nos st)"
  "observes os w (diag_world st) \<Longrightarrow> observing os w (diagnose_proxy_tcp nos st)"
  "observes os w (diag_world st) \<Longrightarrow> observing os w (diagnose_socks5 d st)"
  "observes os w (diag_world st) \<Longrightarrow> observing os w (diagnose_dns nos st)"
  "observes os w (diag_world st) \<Longrightarrow> observing os w (diagnose_socks_connect nos as st)"
  "observes os w (diag_world st) \<Longrightarrow> observing os w (diagnose_transparent nos a st)"
  by (auto simp: diagnose_listener_def diagnose_proxy_tcp_def diagnose_socks5_def diagnose_dns_def
      diagnose_socks_connect_def diagnose_transparent_def Let_def split: prod.splits option.splits Option.bind_splits)

lemma fp_diagnostic_run_observes:
  assumes "fp_diagnostic_run os nos w n = Some (x, st)"
  shows "observes os w (diag_world st)"
proof -
  have "observing os w (fp_diagnostic_run os nos w n)"
    unfolding fp_diagnostic_run_def
    by (intro observing_then diagnose_config_observing diagnose_daemon_observing diagnose_firewall_observing
        diagnose_net_observing) (simp_all add: observing_def)
  with assms show ?thesis by (simp add: observing_def)
qed

end
