(* ===== verification/Tui.thy ===== *)
theory Tui
  imports Tui_Monitor Observe
begin

text \<open>
  The terminal interface (\<open>fp_tui_run\<close> of \<open>src/tui.c\<close>): the main screen with its commands and the three pages.
  What is typed is the list \<open>keys\<close>. When it is used up the interface is still waiting: the flag
  returned with a state says whether the operation has come to its end. The outer \<^const>\<open>None\<close> is a command
  that does not return.
\<close>

section \<open>State and surroundings\<close>

record 'k session =
  s_world :: "'k world"
  s_proc :: stats_proc
  keys :: "int list"
  s_language :: fp_ui_language
  s_message :: string
  display :: screen
  jobs_started :: nat
  samples_taken :: nat

text \<open>The machine, the libraries, and what the n-th thread and the n-th refresh of the monitor meet.\<close>

record 'k tui_os =
  machine :: "'k os"
  curl :: curl_os
  terminal :: window
  read_line :: line_reader
  job_of :: "nat \<Rightarrow> job"
  sample_of :: "nat \<Rightarrow> monitor_sample"

lemma suffix_tail [simp, intro]: "suffix ks (k # ks)" "suffix ks' ks \<Longrightarrow> suffix ks' (k # ks)"
  by (auto simp: suffix_def)

definition MESSAGE_SIZE :: nat where "MESSAGE_SIZE = 128"

definition say :: "string \<Rightarrow> 'k session \<Rightarrow> 'k session" where
  "say m s = s\<lparr>s_message := snprintf MESSAGE_SIZE m\<rparr>"

definition back_to_main :: "fp_ui_language \<Rightarrow> string" where
  "back_to_main l = wording l (utf8 [24050, 36820, 22238, 20027, 30028, 38754, 12290]) ''Returned to main screen.''"

section \<open>The test page\<close>

definition run_selected_test :: "'k tui_os \<Rightarrow> fp_test_mode \<Rightarrow> 'k session \<Rightarrow> bool \<times> 'k session" where
  "run_selected_test env m s =
     (let j = job_of env (jobs_started s); s = s\<lparr>jobs_started := Suc (jobs_started s)\<rparr>;
          l = s_language s; t = terminal env in
      if \<not> pipe_ok j then (True, say (unable_to_test l) s)
      else
        let v = test_view_start t l m; s = s\<lparr>display := t_screen v\<rparr> in
        if \<not> thread_ok j then (True, say (unable_to_test l) s)
        else
          (case fp_test_run (machine env) (curl env) (job_net j) m (s_world s) fresh_net of ((r, st), w) \<Rightarrow>
            let s = s\<lparr>s_world := w\<rparr> in
            (case test_loop t l m (map fst (passes j)) (events st, v) of
               None \<Rightarrow> (False, s)
             | Some (queue, v) \<Rightarrow>
                 let s = s\<lparr>display := draw_test_results t l (report st)\<rparr> in
                 (case keys s of
                    [] \<Rightarrow> (False, s)
                  | k # ks \<Rightarrow> (True, say (test_message l m (report st)) (s\<lparr>keys := ks\<rparr>))))))"

lemma run_selected_test_keys: "run_selected_test env m s = (b, s') \<Longrightarrow> suffix (keys s') (keys s)"
  by (auto simp: run_selected_test_def say_def Let_def 
      split: if_splits option.splits prod.splits list.splits)

text \<open>The digits choose a test on both pages.\<close>

definition chosen_mode :: "int \<Rightarrow> fp_test_mode option" where
  "chosen_mode k =
     (if k = key CHR ''1'' then Some FP_TEST_MODE_CONNECTIVITY
      else if k = key CHR ''2'' then Some FP_TEST_MODE_LATENCY
      else if k = key CHR ''3'' then Some FP_TEST_MODE_SPEED
      else None)"

function run_test_page :: "'k tui_os \<Rightarrow> 'k session \<Rightarrow> bool \<times> 'k session" where
  "run_test_page env s =
     (let s = s\<lparr>display := draw_test_menu (terminal env) (s_language s)\<rparr> in
      case keys s of
        [] \<Rightarrow> (False, s)
      | k # ks \<Rightarrow>
          let s = s\<lparr>keys := ks\<rparr> in
          if is_quit k then (True, say (back_to_main (s_language s)) s)
          else (case chosen_mode k of
              None \<Rightarrow> run_test_page env s
            | Some m \<Rightarrow>
                (case run_selected_test env m s of
                   (False, s') \<Rightarrow> (False, s')
                 | (True, s') \<Rightarrow> run_test_page env s')))"
  by pat_completeness auto
termination
  by (relation "measure (\<lambda>(_,
    s). length (keys s))") (auto dest!: sym [of _ "run_selected_test _ _ _"] run_selected_test_keys suffix_length_le)

declare run_test_page.simps [simp del]

section \<open>The diagnosis page\<close>

definition run_diagnostic_page :: "'k tui_os \<Rightarrow> 'k session \<Rightarrow> (bool \<times> 'k session) option" where
  "run_diagnostic_page env s =
     (let j = job_of env (jobs_started s); s = s\<lparr>jobs_started := Suc (jobs_started s)\<rparr>;
          l = s_language s; t = terminal env;
          unable = wording l (utf8 [26080, 27861, 21551, 21160, 36830, 25509, 35786, 26029,
            12290]) ''Unable to start diagnostics.'' in
      if \<not> pipe_ok j then Some (True, say unable s)
      else
        let v = diag_view_start t l; s = s\<lparr>display := d_screen v\<rparr> in
        if \<not> thread_ok j then Some (True, say unable s)
        else do {
          (r, st) \<leftarrow> fp_diagnostic_run (machine env) (job_net j) (s_world s) fresh_net;
          let s = s\<lparr>s_world := diag_world st\<rparr>;
          Some (case diag_loop t l (map fst (passes j)) (diag_events st, v) of
              None \<Rightarrow> (False, s)
            | Some (queue, v) \<Rightarrow>
                let s = s\<lparr>display := draw_diagnostic_results t l (diag_report st)\<rparr> in
                (case keys s of
                   [] \<Rightarrow> (False, s)
                 | k # ks \<Rightarrow> (True, say (diagnosis_message l (diag_report st)) (s\<lparr>keys := ks\<rparr>)))) })"

lemma run_diagnostic_page_keys: "run_diagnostic_page env s = Some (b, s') \<Longrightarrow> suffix (keys s') (keys s)"
  by (auto simp: run_diagnostic_page_def say_def Let_def
      split: if_splits option.splits prod.splits list.splits Option.bind_splits)

section \<open>The monitor page\<close>

text \<open>Each pass takes a sample, draws the page and looks at the keyboard; \<open>ERR\<close> is no key.\<close>

function monitor_loop :: "'k tui_os \<Rightarrow> 'k session \<Rightarrow> 'k monitor \<Rightarrow> bool \<times> 'k session \<times> 'k monitor" where
  "monitor_loop env s m =
     (let l = s_language s; t = terminal env;
          (seen, m) = monitor_refresh (machine env) True (sample_of env (samples_taken s)) m;
          m = show_monitor t l seen False m; s = s\<lparr>samples_taken := Suc (samples_taken s)\<rparr> in
      case keys s of
        [] \<Rightarrow> (False, s, m)
      | k # ks \<Rightarrow>
          let s = s\<lparr>keys := ks\<rparr> in
          if is_quit k then (True, say (back_to_main l) s, m)
          else (case chosen_mode k of
              None \<Rightarrow> monitor_loop env s m
            | Some tm \<Rightarrow>
                let j = job_of env (jobs_started s); s = s\<lparr>jobs_started := Suc (jobs_started s)\<rparr> in
                (case run_monitor_test (machine env) (curl env) t l tm j m of
                   (False, m) \<Rightarrow> (False, s, m)
                 | (True, m) \<Rightarrow> monitor_loop env s m)))"
  by pat_completeness auto
termination
  by (relation "measure (\<lambda>(_, s, _). length (keys s))") auto

declare monitor_loop.simps [simp del]

definition run_monitor_page :: "'k tui_os \<Rightarrow> 'k session \<Rightarrow> bool \<times> 'k session" where
  "run_monitor_page env s =
     (case monitor_loop env s \<lparr>m_world = s_world s, m_proc = s_proc s, m_rates = zero_rates, m_line = '''',
         m_screen = display s\<rparr> of (done, s, m) \<Rightarrow>
      let s = s\<lparr>s_world := m_world m, s_proc := m_proc m, display := m_screen m\<rparr>;
          x = sample_of env (samples_taken s) in
      if \<not> done then (False, s)
      else (True, s\<lparr>s_proc := fst (fp_stats_close (sample_env x) (s_proc s, sample_files x))\<rparr>))"

section \<open>The main screen\<close>

text \<open>What a command of the main screen leads to: on with the loop, its end, or still waiting for keys.\<close>

datatype control = Stay | Leave | Waiting

definition stay :: "bool \<Rightarrow> control" where "stay done = (if done then Stay else Waiting)"

definition tell :: "int \<Rightarrow> string \<Rightarrow> string \<Rightarrow> 'k session \<Rightarrow> 'k session" where
  "tell r good bad s = say (if r = ok then good else bad) s"

definition command_enable :: "'k tui_os \<Rightarrow> 'k session \<Rightarrow> (control \<times> 'k session) option" where
  "command_enable env s =
     (let l = s_language s; ui = UI_TEXT l in
      case prompt_proxy (keys s) of
        None \<Rightarrow> Some (Waiting, s\<lparr>keys := []\<rparr>)
      | Some (None, ks) \<Rightarrow> Some (Stay, say (t_input_cancelled ui) (s\<lparr>keys := ks\<rparr>))
      | Some (Some proxy, ks) \<Rightarrow> do {
          (r, w) \<leftarrow> fp_enable_proxy (machine env) proxy (s_world s);
          Some (Stay, tell r (wording l (utf8 [20195, 29702, 24050, 21551, 29992,
            65306]) ''Proxy enabled through '' @ proxy @ wording l (utf8 [12290]) ''.'')
            (t_enable_failed ui) (s\<lparr>keys := ks, s_world := w\<rparr>)) })"

text \<open>The text the direct list's editor starts with.\<close>

definition initial_bypass :: "fp_status \<Rightarrow> string" where
  "initial_bypass status =
     (if config_valid status \<and> bypass_shown status \<noteq> ''none''
      then snprintf FP_BYPASS_TEXT_SIZE (bypass_shown status) else '''')"

definition command_bypass :: "'k tui_os \<Rightarrow> fp_status \<Rightarrow> 'k session \<Rightarrow> (control \<times> 'k session) option" where
  "command_bypass env status s =
     (let l = s_language s; ui = UI_TEXT l in
      case prompt_bypass (keys s) (initial_bypass status) of
        None \<Rightarrow> Some (Waiting, s\<lparr>keys := []\<rparr>)
      | Some (None, ks) \<Rightarrow> Some (Stay, say (t_input_cancelled ui) (s\<lparr>keys := ks\<rparr>))
      | Some (Some entries, ks) \<Rightarrow> do {
          (r, w) \<leftarrow> fp_set_bypass (machine env) entries (s_world s);
          Some (Stay, tell r (wording l (utf8 [30452, 36830, 21015, 34920, 24050, 26356, 26032,
            12290]) ''Direct list updated.'') (t_bypass_failed ui)
            (s\<lparr>keys := ks, s_world := w\<rparr>)) })"

definition command_autostart :: "'k tui_os \<Rightarrow> fp_status \<Rightarrow> 'k session \<Rightarrow> 'k session" where
  "command_autostart env status s =
     (let l = s_language s;
          (r, w) = (if autostart_enabled status then fp_autostart_disable (machine env) (s_world s)
                    else fp_autostart_enable (machine env) (s_world s)) in
      tell r (wording l (utf8 [24320, 26426, 33258, 21551, 24050]) ''Boot startup ''
          @ (if autostart_enabled status then wording l (utf8 [20572,
            29992]) ''disabled'' else wording l (utf8 [21551, 29992]) ''enabled'') @
            wording l (utf8 [12290]) ''.'')
        (t_startup_failed (UI_TEXT l)) (s\<lparr>s_world := w\<rparr>))"

definition command_uninstall :: "'k tui_os \<Rightarrow> 'k session \<Rightarrow> (control \<times> 'k session) option" where
  "command_uninstall env s =
     (let l = s_language s in
      case confirm_uninstall (read_line env) (keys s) of
        None \<Rightarrow> Some (Waiting, s\<lparr>keys := []\<rparr>)
      | Some (sure, ks) \<Rightarrow>
          let s = s\<lparr>keys := ks\<rparr> in
          if \<not> sure then Some (Stay, say (wording l (utf8 [24050, 21462, 28040, 21368, 36733,
            12290]) ''Uninstall cancelled.'') s)
          else do {
            (r, w) \<leftarrow> fp_uninstall (machine env) (s_world s);
            let s = s\<lparr>s_world := w\<rparr>;
            Some (if r = ok then (Leave, s)
              else (Stay, say (wording l (utf8 [21368, 36733, 26410, 33021, 23436, 25972, 23436, 25104,
                12290]) ''Uninstall was incomplete.'') s)) })"

definition command_language :: "'k tui_os \<Rightarrow> 'k session \<Rightarrow> 'k session" where
  "command_language env s =
     (let l = s_language s; other = (if l = FP_UI_LANGUAGE_ZH then FP_UI_LANGUAGE_EN else FP_UI_LANGUAGE_ZH);
          (r, w) = fp_ui_language_save (machine env) other (s_world s); s = s\<lparr>s_world := w\<rparr> in
      if r = ok
      then say (wording other (utf8 [30028, 38754, 35821, 35328, 24050, 20999, 25442, 20026, 20013, 25991,
        12290]) ''Interface language switched to English.'') (s\<lparr>s_language := other\<rparr>)
      else say (t_language_failed (UI_TEXT l)) s)"

text \<open>One key of the main screen,
  other than the one that leaves it; \<open>status\<close> is what the screen shows.\<close>

definition tui_command :: "'k tui_os \<Rightarrow> fp_status \<Rightarrow> int \<Rightarrow> 'k session \<Rightarrow> (control \<times> 'k session) option" where
  "tui_command env status k s =
     (let os = machine env; l = s_language s; ui = UI_TEXT l in
      if is_key k CHR ''s'' CHR ''S'' then do {
        (r, w) \<leftarrow> fp_enable_saved_proxy os (s_world s);
        Some (Stay, tell r (wording l (utf8 [24050, 21551, 29992, 20445, 23384, 30340, 20195, 29702, 37197,
          32622, 12290]) ''Saved proxy configuration enabled.'') (t_enable_failed ui)
          (s\<lparr>s_world := w\<rparr>)) }
      else if is_key k CHR ''e'' CHR ''E'' then command_enable env s
      else if is_key k CHR ''b'' CHR ''B'' then command_bypass env status s
      else if is_key k CHR ''d'' CHR ''D'' then do {
        (r, w) \<leftarrow> fp_disable_proxy os (s_world s);
        Some (Stay, tell r (wording l (utf8 [20195, 29702, 24050, 20572, 29992,
          12290]) ''Proxy disabled.'') (t_disable_failed ui) (s\<lparr>s_world := w\<rparr>)) }
      else if is_key k CHR ''a'' CHR ''A'' then Some (Stay, command_autostart env status s)
      else if is_key k CHR ''m'' CHR ''M'' then (case run_monitor_page env s of (done, s) \<Rightarrow> Some (stay done, s))
      else if is_key k CHR ''t'' CHR ''T'' then (case run_test_page env s of (done, s) \<Rightarrow> Some (stay done, s))
      else if is_key k CHR ''c'' CHR ''C'' then do {
        (done, s) \<leftarrow> run_diagnostic_page env s;
        Some (stay done, s) }
      else if is_key k CHR ''u'' CHR ''U'' then command_uninstall env s
      else if is_key k CHR ''l'' CHR ''L'' then Some (Stay, command_language env s)
      else Some (Stay, s))"

section \<open>The whole session\<close>

lemma say_sel [simp]:
  "keys (say x s) = keys s" "s_world (say x s) = s_world s" "s_language (say x s) = s_language s"
  "keys (tell r good bad s) = keys s" "s_world (tell r good bad s) = s_world s"
  "s_language (tell r good bad s) = s_language s"
  by (simp_all add: say_def tell_def)

text \<open>
  What the pages are given by the operations they call: each keeps a relation \<open>obs\<close> between worlds. The pages then
  keep it too, do not put keys back and do not change the language.
\<close>

locale watcher =
  fixes os :: "'k os" and obs :: "'k world \<Rightarrow> 'k world \<Rightarrow> bool"
  assumes obs_refl [simp]: "obs w w"
    and obs_trans [trans]: "obs w1 w2 \<Longrightarrow> obs w2 w3 \<Longrightarrow> obs w1 w3"
    and obs_status: "fp_collect_status os wa = (status, wb) \<Longrightarrow> obs wa wb"
    and obs_test: "fp_test_run os co nos m wi n = (x, wj) \<Longrightarrow> obs wi wj"
    and obs_diagnosis: "fp_diagnostic_run os nos wk n = Some (y, st) \<Longrightarrow> obs wk (diag_world st)"
begin

definition quiet :: "'k session \<Rightarrow> 'k session \<Rightarrow> bool" where
  "quiet s s' \<longleftrightarrow> obs (s_world s) (s_world s') \<and> suffix (keys s') (keys s) \<and> s_language s' = s_language s"

lemma quiet_trans [trans]: "quiet a b \<Longrightarrow> quiet b c \<Longrightarrow> quiet a c"
  by (auto simp: quiet_def intro: obs_trans)

lemma selected_test_quiet:
  assumes "machine env = os" "run_selected_test env m s = (b, s')"
  shows "quiet s s'"
  using assms(2)
  by (auto simp: assms(1) run_selected_test_def quiet_def Let_def split: if_splits option.splits prod.splits list.splits
      dest: obs_test)

lemma test_page_quiet:
  assumes "machine env = os"
  shows "run_test_page env s = (b, s') \<Longrightarrow> quiet s s'"
proof (induction "length (keys s)" arbitrary: s rule: less_induct)
  case less
  note run = less.prems [unfolded run_test_page.simps [of env s]]
  let ?s = "s\<lparr>display := draw_test_menu (terminal env) (s_language s)\<rparr>"
  show ?case
  proof (cases "keys s")
    case Nil
    with run show ?thesis by (auto simp: Let_def quiet_def)
  next
    case (Cons k ks)
    have q: "quiet s (?s\<lparr>keys := ks\<rparr>)" using Cons by (simp add: quiet_def)
    show ?thesis
    proof (cases "is_quit k \<or> chosen_mode k = None")
      case True
      with run Cons less.hyps [of "?s\<lparr>keys := ks\<rparr>"] q show ?thesis
        by (auto simp: Let_def quiet_def intro: obs_trans split: if_splits)
    next
      case False
      then obtain m where m: "chosen_mode k = Some m" "\<not> is_quit k" by auto
      obtain d s1 where d: "run_selected_test env m (?s\<lparr>keys := ks\<rparr>) = (d, s1)" by (metis surj_pair)
      have q1: "quiet s s1" using quiet_trans [OF q selected_test_quiet [OF assms d]] .
      have l: "length (keys s1) < length (keys s)" using selected_test_quiet [OF assms d] Cons
        by (auto simp: quiet_def dest: suffix_length_le)
      show ?thesis
      proof (cases d)
        case True
        with run Cons m d have "run_test_page env s1 = (b, s')" by (auto simp: Let_def)
        from quiet_trans [OF q1 less.hyps [OF l this]] show ?thesis .
      next
        case False
        with run Cons m d q1 show ?thesis by (auto simp: Let_def)
      qed
    qed
  qed
qed

lemma diagnostic_page_quiet:
  assumes "machine env = os" "run_diagnostic_page env s = Some (b, s')"
  shows "quiet s s'"
  using assms(2)
  by (auto simp: assms(1) run_diagnostic_page_def quiet_def Let_def split: if_splits option.splits prod.splits list.splits
      Option.bind_splits dest: obs_diagnosis)

lemma refresh_obs: "monitor_refresh os idle x m = (seen, m') \<Longrightarrow> obs (m_world m) (m_world m')"
  by (auto simp: monitor_refresh_def Let_def split: prod.splits dest: obs_status)

lemma show_monitor_world [simp]: "m_world (show_monitor t l seen b m) = m_world m"
  by (simp add: show_monitor_def)

lemma monitor_pass_obs:
  assumes "monitor_pass os t l p s = Some s'"
  shows "obs (m_world (mt s)) (m_world (mt s'))"
proof -
  define s1 where "s1 = (if is_quit (fst (fst p)) \<and> \<not> mt_cancelling s
            then s\<lparr>mt_cancelling := True, mt := (mt s)\<lparr>m_line :=
              snprintf STATUS_SIZE (wording l (utf8 [27491, 22312, 21462, 28040, 27979, 35797,
                8230]) (''Cancelling test'' @ utf8 [8230]))\<rparr>\<rparr> else s)"
  obtain seen m where m: "monitor_refresh os False (snd p) (mt s1) = (seen, m)" by (metis surj_pair)
  have "m_world (mt s1) = m_world (mt s)" by (simp add: s1_def)
  moreover have "m_world (mt s') = m_world m"
    using assms m by (auto simp: monitor_pass_def Let_def s1_def [symmetric] split: poll_answer.splits list.splits if_splits)
  ultimately show ?thesis using refresh_obs [OF m] by simp
qed

lemma monitor_test_loop_obs:
  "monitor_test_loop os t l ps s = Some s' \<Longrightarrow> obs (m_world (mt s)) (m_world (mt s'))"
proof (induction ps arbitrary: s)
  case (Cons p ps)
  then show ?case by (auto split: if_splits option.splits dest: monitor_pass_obs intro: obs_trans)
qed (auto split: if_splits)

lemma monitor_test_obs:
  assumes "run_monitor_test os c t l tm j m = (b, m')"
  shows "obs (m_world m) (m_world m')"
proof (cases "pipe_ok j \<and> thread_ok j")
  case True
  obtain r st w where f: "fp_test_run os c (job_net j) tm (m_world m) fresh_net = ((r, st), w)" by (metis prod.collapse)
  let ?s = "\<lparr>mt = m\<lparr>m_world := w, m_line := snprintf STATUS_SIZE (wording l (utf8 [27491, 22312,
    27979, 35797, 8230]) (''Testing'' @ utf8 [8230]))\<rparr>,
    mt_queue = events st, mt_cancelling = False, mt_finished = False\<rparr>"
  show ?thesis
  proof (cases "monitor_test_loop os t l (passes j) ?s")
    case None
    with assms True f obs_test [OF f] show ?thesis by (auto simp: run_monitor_test_def Let_def)
  next
    case (Some s1)
    with monitor_test_loop_obs [OF Some] assms True f obs_trans [OF obs_test [OF f]]
    show ?thesis by (auto simp: run_monitor_test_def Let_def)
  qed
qed (use assms in \<open>auto simp: run_monitor_test_def\<close>)

lemma monitor_loop_quiet:
  assumes "machine env = os"
  shows "monitor_loop env s m = (b, s', m') \<Longrightarrow> s_world s' = s_world s \<and> obs (m_world m) (m_world m')
    \<and> suffix (keys s') (keys s) \<and> s_language s' = s_language s"
proof (induction "length (keys s)" arbitrary: s m rule: less_induct)
  case less
  note run = less.prems [unfolded monitor_loop.simps [of env s m]]
  let ?t = "terminal env" and ?l = "s_language s"
  let ?s = "s\<lparr>samples_taken := Suc (samples_taken s)\<rparr>"
  obtain seen m1 where m1: "monitor_refresh os True (sample_of env (samples_taken s)) m = (seen, m1)" by (metis surj_pair)
  define m2 where "m2 = show_monitor ?t ?l seen False m1"
  have o: "obs (m_world m) (m_world m2)" using refresh_obs [OF m1] by (simp add: m2_def)
  show ?case
  proof (cases "keys s")
    case Nil
    with run m1 o assms show ?thesis by (auto simp: Let_def m2_def)
  next
    case (Cons k ks)
    show ?thesis
    proof (cases "is_quit k \<or> chosen_mode k = None")
      case True
      with run Cons m1 assms less.hyps [of "?s\<lparr>keys := ks\<rparr>" m2] o show ?thesis
        by (auto simp: Let_def m2_def [symmetric] intro: obs_trans split: if_splits)
    next
      case False
      then obtain tm where tm: "chosen_mode k = Some tm" "\<not> is_quit k" by auto
      let ?s1 = "?s\<lparr>keys := ks, jobs_started := Suc (jobs_started s)\<rparr>"
      obtain d m3 where d: "run_monitor_test os (curl env) ?t ?l tm (job_of env (jobs_started s)) m2 = (d,
        m3)" by (metis surj_pair)
      note o3 = obs_trans [OF o monitor_test_obs [OF d]]
      show ?thesis
      proof (cases d)
        case True
        with run Cons tm m1 d assms have "monitor_loop env ?s1 m3 = (b, s', m')" by (auto simp: Let_def m2_def)
        from less.hyps [OF _ this] Cons o3 show ?thesis by (auto intro: obs_trans)
      next
        case False
        with run Cons tm m1 d assms o3 show ?thesis by (auto simp: Let_def m2_def)
      qed
    qed
  qed
qed

lemma monitor_page_quiet:
  assumes "machine env = os" "run_monitor_page env s = (b, s')"
  shows "quiet s s'"
proof -
  let ?m = "\<lparr>m_world = s_world s, m_proc = s_proc s, m_rates = zero_rates, m_line = '''', m_screen = display s\<rparr>"
  obtain d s1 m where l: "monitor_loop env s ?m = (d, s1, m)" by (metis prod.collapse)
  from monitor_loop_quiet [OF assms(1) l] assms(2) l show ?thesis
    by (auto simp: run_monitor_page_def Let_def quiet_def split: if_splits)
qed

end

interpretation looking: watcher os "observes os" for os :: "'k os"
  by unfold_locales (auto intro: observes_trans fp_collect_status_observes fp_test_run_observes fp_diagnostic_run_observes)

lemma tui_command_keys:
  assumes "tui_command env status k s = Some (c, s')"
  shows "suffix (keys s') (keys s)"
  using assms looking.monitor_page_quiet [OF refl, of env s] looking.test_page_quiet [OF refl, of env s]
    looking.diagnostic_page_quiet [OF refl, of env s]
  by (auto simp: tui_command_def command_enable_def command_bypass_def command_autostart_def command_uninstall_def
      command_language_def confirm_uninstall_def prompt_proxy_def prompt_bypass_def looking.quiet_def Let_def
      split: if_splits option.splits prod.splits Option.bind_splits intro: suffix_drop dest!: prompt_loop_suffix)

text \<open>The loop: whether the interface has ended, and the state.\<close>

function tui_loop :: "'k tui_os \<Rightarrow> 'k session \<Rightarrow> (bool \<times> 'k session) option" where
  "tui_loop env s =
     (let (status, w) = fp_collect_status (machine env) (s_world s);
          s = s\<lparr>s_world := w,
            display := draw_screen (terminal env) status (UI_TEXT (s_language s)) (s_message s)\<rparr> in
      case keys s of
        [] \<Rightarrow> Some (False, s)
      | k # ks \<Rightarrow>
          let s = s\<lparr>keys := ks\<rparr> in
          if is_quit k then Some (True, s)
          else (case tui_command env status k s of
              None \<Rightarrow> None
            | Some (Stay, s') \<Rightarrow> tui_loop env s'
            | Some (Leave, s') \<Rightarrow> Some (True, s')
            | Some (Waiting, s') \<Rightarrow> Some (False, s')))"
  by pat_completeness auto
termination
  by (relation "measure (\<lambda>(_, s). length (keys s))") (auto dest!: tui_command_keys suffix_length_le)

declare tui_loop.simps [simp del]

text \<open>\<open>fp_tui_run\<close>,
  which returns 0 when it ends; \<open>fp_web_probe_init\<close> and the library calls that set up the window are left out.\<close>

definition fp_tui_run :: "'k tui_os \<Rightarrow> int list \<Rightarrow> 'k world \<Rightarrow> (bool \<times> 'k session) option" where
  "fp_tui_run env ks w =
     (let (language, w) = fp_ui_language_load (machine env) w in
      tui_loop env (say (t_initial_message (UI_TEXT language))
        \<lparr>s_world = w, s_proc = \<lparr>stats_map = None, stats_fd = None, stats_owner = False\<rparr>, keys = ks,
         s_language = language, s_message = '''', display = [], jobs_started = 0, samples_taken = 0\<rparr>))"

end
