(* ===== verification/Tui_Session.thy ===== *)
theory Tui_Session
  imports Tui
begin

text \<open>
  What a session of the terminal interface does to the machine. The abstract specification is a list of
  changes, each asked for by keys that were typed while the screen showed a certain status, with nothing but looking
  in between; the loop \<^const>\<open>tui_loop\<close> with all its pages and editors refines it.
\<close>

section \<open>The abstract specification\<close>

datatype change = Use_Saved | Use string | Set_Direct string | Turn_Off | Startup bool | Remove_All
  | Speak fp_ui_language

definition perform :: "'k os \<Rightarrow> change \<Rightarrow> 'k world \<Rightarrow> (int \<times> 'k world) option" where
  "perform os c w =
     (case c of
        Use_Saved \<Rightarrow> fp_enable_saved_proxy os w
      | Use proxy \<Rightarrow> fp_enable_proxy os proxy w
      | Set_Direct entries \<Rightarrow> fp_set_bypass os entries w
      | Turn_Off \<Rightarrow> fp_disable_proxy os w
      | Startup on \<Rightarrow> Some (if on then fp_autostart_enable os w else fp_autostart_disable os w)
      | Remove_All \<Rightarrow> fp_uninstall os w
      | Speak language \<Rightarrow> Some (fp_ui_language_save os language w))"

text \<open>
  The keys \<open>k # ks\<close> ask for a change on a screen that shows \<open>status\<close>, and leave \<open>ks'\<close>: a proxy and a direct list are
  the text of the editor, the startup is switched to the other of what is shown, removing takes a \<open>yes\<close>.
\<close>

definition asks :: "line_reader \<Rightarrow> fp_status \<Rightarrow> int \<Rightarrow> int list \<Rightarrow> change \<Rightarrow> int list \<Rightarrow> bool" where
  "asks getnstr status k ks c ks' \<longleftrightarrow>
     (case c of
        Use_Saved \<Rightarrow> is_key k CHR ''s'' CHR ''S'' \<and> ks' = ks
      | Use proxy \<Rightarrow> is_key k CHR ''e'' CHR ''E'' \<and> prompt_proxy ks = Some (Some proxy, ks')
      | Set_Direct entries \<Rightarrow> is_key k CHR ''b'' CHR ''B''
          \<and> prompt_bypass ks (initial_bypass status) = Some (Some entries, ks')
      | Turn_Off \<Rightarrow> is_key k CHR ''d'' CHR ''D'' \<and> ks' = ks
      | Startup on \<Rightarrow> is_key k CHR ''a'' CHR ''A'' \<and> on = (\<not> autostart_enabled status) \<and> ks' = ks
      | Remove_All \<Rightarrow> is_key k CHR ''u'' CHR ''U'' \<and> confirm_uninstall getnstr ks = Some (True, ks')
      | Speak language \<Rightarrow> is_key k CHR ''l'' CHR ''L'' \<and> ks' = ks)"

text \<open>\<open>session_of os getnstr ks changes w w'\<close>: keys among \<open>ks\<close>, in their order, ask for exactly these changes.\<close>

inductive session_of :: "'k os \<Rightarrow> line_reader \<Rightarrow> int list \<Rightarrow> change list \<Rightarrow> 'k world \<Rightarrow> 'k world \<Rightarrow> bool"
  for os :: "'k os" and getnstr :: line_reader where
  looks: "observes os w w' \<Longrightarrow> session_of os getnstr ks [] w w'"
| changes: "suffix (k # rest) ks \<Longrightarrow> observes os w w1 \<Longrightarrow> fp_collect_status os w1 = (status, w2) \<Longrightarrow>
     asks getnstr status k rest c ks' \<Longrightarrow> perform os c w2 = Some (r, w3) \<Longrightarrow> session_of os getnstr ks' cs w3 w' \<Longrightarrow>
     session_of os getnstr ks (c # cs) w w'"

inductive_cases no_change: "session_of os getnstr ks [] w w'"
inductive_cases some_change: "session_of os getnstr ks (c # cs) w w'"

lemma session_later:
  assumes "session_of os getnstr ks cs w1 w'" and "observes os w w1" and "suffix ks ks0"
  shows "session_of os getnstr ks0 cs w w'"
  using assms
proof cases
  case looks
  then show ?thesis using assms(2) by (auto intro: session_of.looks observes_trans)
next
  case changes
  then show ?thesis using assms(2,3)
    by (auto intro: session_of.changes observes_trans suffix_order.trans)
qed

section \<open>One command\<close>

lemma drop_suffix: "suffix (drop n ks) ks"
  by (rule suffix_drop)

text \<open>A command looks, or performs the one change that is asked for; what it has typed is used up.\<close>

definition one_step :: "'k tui_os \<Rightarrow> fp_status \<Rightarrow> int \<Rightarrow> 'k session \<Rightarrow> 'k session \<Rightarrow> bool" where
  "one_step env status k s s' \<longleftrightarrow>
     observes (machine env) (s_world s) (s_world s') \<and> suffix (keys s') (keys s)
     \<or> (\<exists>c r. asks (read_line env) status k (keys s) c (keys s')
         \<and> perform (machine env) c (s_world s) = Some (r, s_world s'))"

lemma one_step_look: "observes (machine env) (s_world s) (s_world s') \<Longrightarrow> suffix (keys s') (keys s) \<Longrightarrow> one_step env status k s s'"
  by (simp add: one_step_def)

lemma one_step_change:
  "perform (machine env) c (s_world s) = Some (r, s_world s') \<Longrightarrow> asks (read_line env) status k (keys s) c (keys s') \<Longrightarrow>
   one_step env status k s s'"
  by (auto simp: one_step_def)

lemma pages_step:
  "run_monitor_page env s = (b, s') \<Longrightarrow> one_step env status k s s'"
  "run_test_page env s = (b, s') \<Longrightarrow> one_step env status k s s'"
  "run_diagnostic_page env s = Some (b, s') \<Longrightarrow> one_step env status k s s'"
  using looking.monitor_page_quiet [OF refl, of env s] looking.test_page_quiet [OF refl, of env s]
    looking.diagnostic_page_quiet [OF refl, of env s]
  by (auto simp: looking.quiet_def one_step_def)

lemma prompt_suffix:
  "prompt_proxy ks = Some (r, ks') \<Longrightarrow> suffix ks' ks"
  "prompt_bypass ks x = Some (r, ks') \<Longrightarrow> suffix ks' ks"
  "confirm_uninstall getnstr ks = Some (b, ks') \<Longrightarrow> suffix ks' ks"
  by (auto simp: prompt_proxy_def prompt_bypass_def confirm_uninstall_def suffix_drop dest: prompt_loop_suffix
      split: if_splits option.splits)

lemma enable_step:
  assumes "is_key k CHR ''e'' CHR ''E''" and "command_enable env s = Some (c, s')"
  shows "one_step env status k s s'"
proof (cases "prompt_proxy (keys s)")
  case (Some x)
  obtain p ks where x: "x = (p, ks)" by force
  show ?thesis
  proof (cases p)
    case None
    with assms(2) Some x prompt_suffix(1) show ?thesis
      by (auto simp: command_enable_def Let_def intro!: one_step_look)
  next
    case p: (Some proxy)
    with assms Some x show ?thesis
      by (auto simp: command_enable_def Let_def asks_def perform_def split: Option.bind_splits
          intro!: one_step_change [of _ "Use proxy"])
  qed
qed (use assms(2) in \<open>auto simp: command_enable_def Let_def intro!: one_step_look\<close>)

lemma bypass_step:
  assumes "is_key k CHR ''b'' CHR ''B''" and "command_bypass env status s = Some (c, s')"
  shows "one_step env status k s s'"
proof (cases "prompt_bypass (keys s) (initial_bypass status)")
  case (Some x)
  obtain p ks where x: "x = (p, ks)" by force
  show ?thesis
  proof (cases p)
    case None
    with assms(2) Some x prompt_suffix(2) show ?thesis
      by (auto simp: command_bypass_def Let_def intro!: one_step_look)
  next
    case p: (Some entries)
    with assms Some x show ?thesis
      by (auto simp: command_bypass_def Let_def asks_def perform_def split: Option.bind_splits
          intro!: one_step_change [of _ "Set_Direct entries"])
  qed
qed (use assms(2) in \<open>auto simp: command_bypass_def Let_def intro!: one_step_look\<close>)

lemma uninstall_step:
  assumes "is_key k CHR ''u'' CHR ''U''" and "command_uninstall env s = Some (c, s')"
  shows "one_step env status k s s'"
proof (cases "confirm_uninstall (read_line env) (keys s)")
  case (Some x)
  obtain sure ks where x: "x = (sure, ks)" by force
  show ?thesis
  proof (cases sure)
    case False
    with assms(2) Some x prompt_suffix(3) show ?thesis
      by (auto simp: command_uninstall_def Let_def intro!: one_step_look)
  next
    case True
    with assms Some x show ?thesis
      by (auto simp: command_uninstall_def Let_def asks_def perform_def split: Option.bind_splits if_splits
          intro!: one_step_change [of _ Remove_All])
  qed
qed (use assms(2) in \<open>auto simp: command_uninstall_def Let_def intro!: one_step_look\<close>)

lemma autostart_step:
  assumes "is_key k CHR ''a'' CHR ''A''"
  shows "one_step env status k s (command_autostart env status s)"
proof -
  obtain r w where "(if autostart_enabled status then fp_autostart_disable (machine env) (s_world s)
      else fp_autostart_enable (machine env) (s_world s)) = (r, w)" by force
  then show ?thesis using assms
    by (intro one_step_change [of _ "Startup (\<not> autostart_enabled status)" _ r])
      (auto simp: command_autostart_def asks_def perform_def Let_def)
qed

lemma language_step:
  assumes "is_key k CHR ''l'' CHR ''L''"
  shows "one_step env status k s (command_language env s)"
proof -
  define other where "other = (if s_language s = FP_UI_LANGUAGE_ZH then FP_UI_LANGUAGE_EN else FP_UI_LANGUAGE_ZH)"
  obtain r w where "fp_ui_language_save (machine env) other (s_world s) = (r, w)" by force
  then show ?thesis using assms
    by (intro one_step_change [of _ "Speak other" _ r])
      (auto simp: command_language_def asks_def perform_def Let_def other_def [symmetric])
qed

lemma saved_step:
  assumes "is_key k CHR ''s'' CHR ''S''" and "fp_enable_saved_proxy (machine env) (s_world s) = Some (r, w)"
  shows "one_step env status k s (tell r good bad (s\<lparr>s_world := w\<rparr>))"
  using assms by (auto simp: asks_def perform_def intro!: one_step_change [of _ Use_Saved])

lemma off_step:
  assumes "is_key k CHR ''d'' CHR ''D''" and "fp_disable_proxy (machine env) (s_world s) = Some (r, w)"
  shows "one_step env status k s (tell r good bad (s\<lparr>s_world := w\<rparr>))"
  using assms by (auto simp: asks_def perform_def intro!: one_step_change [of _ Turn_Off])

lemma command_step:
  assumes "tui_command env status k s = Some (c, s')"
  shows "one_step env status k s s'"
  using assms unfolding tui_command_def Let_def
  by (auto split: if_splits Option.bind_splits prod.splits
      intro: saved_step off_step enable_step bypass_step autostart_step uninstall_step language_step pages_step
        one_step_look)

section \<open>The whole session\<close>

lemma tui_loop_session:
  "tui_loop env s = Some (b, s') \<Longrightarrow>
   \<exists>cs. session_of (machine env) (read_line env) (keys s) cs (s_world s) (s_world s')"
proof (induction "length (keys s)" arbitrary: s rule: less_induct)
  case less
  note run = less.prems [unfolded tui_loop.simps [of env s]]
  obtain status w where c: "fp_collect_status (machine env) (s_world s) = (status, w)" by force
  note o = fp_collect_status_observes [OF c]
  show ?case
  proof (cases "keys s")
    case Nil
    with run c o show ?thesis by (auto intro!: exI [of _ "[]"] session_of.looks)
  next
    case (Cons k ks)
    let ?s = "s\<lparr>s_world := w, display := draw_screen (terminal env) status (UI_TEXT (s_language s)) (s_message s), keys := ks\<rparr>"
    show ?thesis
    proof (cases "is_quit k")
      case True
      with run c o Cons show ?thesis by (auto intro!: exI [of _ "[]"] session_of.looks)
    next
      case False
      obtain ctl s1 where t: "tui_command env status k ?s = Some (ctl, s1)"
        using run c Cons False by (auto simp: Let_def split: option.splits)
      note keys = tui_command_keys [OF t, simplified]
      have rest: "\<exists>cs. session_of (machine env) (read_line env) (keys s1) cs (s_world s1) (s_world s')"
      proof (cases ctl)
        case Stay
        with run c Cons False t have "tui_loop env s1 = Some (b, s')" by (auto simp: Let_def)
        moreover have "length (keys s1) < length (keys s)" using suffix_length_le [OF keys] Cons by simp
        ultimately show ?thesis by (intro less.hyps)
      qed (use run c Cons False t in \<open>auto simp: Let_def intro!: exI [of _ "[]"] session_of.looks\<close>)
      then obtain cs where cs: "session_of (machine env) (read_line env) (keys s1) cs (s_world s1) (s_world s')" ..
      from command_step [OF t] show ?thesis unfolding one_step_def
      proof (elim disjE exE conjE)
        assume "observes (machine env) (s_world ?s) (s_world s1)"
        from session_later [OF cs observes_trans [OF o this [simplified]]] keys Cons show ?thesis by auto
      next
        fix c r
        assume "asks (read_line env) status k (keys ?s) c (keys s1)"
          and "perform (machine env) c (s_world ?s) = Some (r, s_world s1)"
        then show ?thesis using changes [OF _ observes_refl c _ _ cs, of k ks "keys s"] Cons by auto
      qed
    qed
  qed
qed

lemma fp_ui_language_load_sights: "fp_ui_language_load os w = (l, w') \<Longrightarrow> sights w' = sights w"
  by (auto simp: fp_ui_language_load_def dest!: sys_sights split: prod.splits option.splits)

lemma tui_run_session:
  assumes "fp_tui_run env ks w = Some (b, s')"
  shows "\<exists>cs. session_of (machine env) (read_line env) ks cs w (s_world s')"
proof -
  obtain l w1 where l: "fp_ui_language_load (machine env) w = (l, w1)" by force
  obtain cs where "session_of (machine env) (read_line env) ks cs w1 (s_world s')"
    using assms l tui_loop_session [of env _ b s'] by (fastforce simp: fp_tui_run_def)
  from session_later [OF this sights_observes [OF fp_ui_language_load_sights [OF l]]] show ?thesis by auto
qed

text \<open>Every command comes back when the commands of \<open>iptables\<close> do.\<close>

lemma case_returns:
  "a \<noteq> None \<Longrightarrow> (\<And>y. f y \<noteq> None) \<Longrightarrow> (case x of None \<Rightarrow> a | Some y \<Rightarrow> f y) \<noteq> None"
  by (cases x) simp_all

lemmas all_return = returns_intros case_returns

lemma diagnostic_run_returns: "fp_diagnostic_run os nos w n \<noteq> None"
  using fp_diagnostic_run_end [of os nos w n] by (auto simp: run_end_def)

lemma diagnostic_page_returns: "run_diagnostic_page env s \<noteq> None"
  unfolding run_diagnostic_page_def by (intro all_return diagnostic_run_returns)

lemma editors_return:
  assumes "ipt_sound (machine env) view"
  shows "command_enable env s \<noteq> None" "command_bypass env status s \<noteq> None" "command_uninstall env s \<noteq> None"
  unfolding command_enable_def command_bypass_def command_uninstall_def
  by (intro all_return operations_total [OF assms])+

lemma command_returns:
  assumes "ipt_sound (machine env) view"
  shows "tui_command env status k s \<noteq> None"
  unfolding tui_command_def Let_def
  by (intro all_return editors_return [OF assms] operations_total [OF assms] diagnostic_page_returns)

lemma tui_loop_returns:
  assumes "ipt_sound (machine env) view"
  shows "tui_loop env s \<noteq> None"
proof (induction "length (keys s)" arbitrary: s rule: less_induct)
  case less
  obtain status w where c: "fp_collect_status (machine env) (s_world s) = (status, w)" by force
  let ?s = "\<lambda>ks. s\<lparr>s_world := w, display := draw_screen (terminal env) status (UI_TEXT (s_language s)) (s_message s), keys := ks\<rparr>"
  show ?case
  proof (cases "keys s")
    case (Cons k ks)
    obtain ctl s1 where t: "tui_command env status k (?s ks) = Some (ctl, s1)"
      using command_returns [OF assms, of status k "?s ks"] by auto
    have "length (keys s1) < length (keys s)"
      using suffix_length_le [OF tui_command_keys [OF t]] Cons by simp
    from less.hyps [OF this] t Cons c show ?thesis
      by (subst tui_loop.simps) (auto simp: Let_def split: control.splits)
  qed (use c in \<open>subst tui_loop.simps, auto\<close>)
qed

section \<open>Properties\<close>

definition command_key :: "int \<Rightarrow> bool" where
  "command_key k \<longleftrightarrow> (\<exists>(lower, upper) \<in> set (zip ''sebdaul'' ''SEBDAUL''). is_key k lower upper)"

lemma asks_command_key: "asks getnstr status k ks c ks' \<Longrightarrow> command_key k"
  by (cases c) (auto simp: asks_def command_key_def)

lemma session_no_commands:
  "session_of os getnstr ks cs w w' \<Longrightarrow> list_all (\<lambda>k. \<not> command_key k) ks \<Longrightarrow> observes os w w'"
  by (induction rule: session_of.induct) (auto simp: suffix_def dest: asks_command_key)

lemma tui_run_returns:
  assumes "ipt_sound (machine env) view"
  shows "\<exists>fin s'. fp_tui_run env ks w = Some (fin, s')"
proof -
  have "fp_tui_run env ks w \<noteq> None"
    using tui_loop_returns [OF assms] by (simp add: fp_tui_run_def split: prod.split)
  then show ?thesis by auto
qed

text \<open>
  A terminal on a machine where everything works; \<open>getnstr\<close> answers at the newline, a thread cannot be
  started, and the statistics file is missing.
\<close>

definition plain_line :: line_reader where
  "plain_line n ks =
     (if NEWLINE \<in> set ks
      then Some (Some (take n (map (\<lambda>k. char_of (nat k)) (takeWhile (\<lambda>k. k \<noteq> NEWLINE) ks))),
        Suc (length (takeWhile (\<lambda>k. k \<noteq> NEWLINE) ks)))
      else None)"

definition sample_terminal :: "nat_view tui_os" where
  "sample_terminal = \<lparr>machine = working_os, curl = sample_curl, terminal = sample_window, read_line = plain_line,
     job_of = (\<lambda>_. \<lparr>pipe_ok = True, thread_ok = False, job_net = sample_net_os, passes = []\<rparr>),
     sample_of = (\<lambda>n. \<lparr>sample_env = good_env, sample_files = \<lparr>objects = (\<lambda>_. zero_map), linked = None, fresh = 0\<rparr>,
       sample_gone = (\<lambda>_. False), sample_now = (int n, 0)\<rparr>)\<rparr>"

lemma sample_terminal_sel [simp]: "machine sample_terminal = working_os"
  by (simp add: sample_terminal_def)

text \<open>
  C7: A session of the terminal interface always returns, either ended or waiting for keys, and whatever was typed,
  on whatever page, it has done to the machine nothing but a sequence of changes the user asked for: each of them the
  one operation its key stands for, with the text of the editor, the switch from the shown state, the
  answer \<open>yes\<close> as its argument, in the order of the keys; between them it only looked.
\<close>

theorem tui_refines_operations:
  assumes "ipt_sound (machine env) view"
  shows "\<exists>fin s' cs. fp_tui_run env ks w = Some (fin, s')
    \<and> session_of (machine env) (read_line env) ks cs w (s_world s')"
  using tui_run_returns [OF assms] tui_run_session by blast

theorem tui_refines_operations_witness:
  "\<exists>fin s' cs. fp_tui_run sample_terminal (map key ''dq'') stored_world = Some (fin, s')
     \<and> session_of working_os (read_line sample_terminal) (map key ''dq'') cs stored_world (s_world s')"
  using tui_refines_operations [of sample_terminal, simplified, OF exact_sound [OF working_os_exact]] by blast

text \<open>
  C8: Looking changes nothing: while none of the seven command keys is typed, no status, test, diagnosis, monitor,
  language load, resize or stray key writes, creates or removes a file or a directory, the ones in \<open>/run/free_proxy\<close> included,
  sends a signal to a process, or changes a rule of the packet filter.
\<close>

theorem tui_looking_is_safe:
  assumes "list_all (\<lambda>k. \<not> command_key k) ks" and "fp_tui_run env ks w = Some (fin, s')"
  shows "files (s_world s') = files w \<and> dirs (s_world s') = dirs w \<and> signals (s_world s') = signals w
    \<and> (\<forall>view. ipt_sound (machine env) view \<longrightarrow> view (nat_tab (s_world s')) = view (nat_tab w))"
proof -
  from tui_run_session [OF assms(2)] obtain cs
    where "session_of (machine env) (read_line env) ks cs w (s_world s')" ..
  from session_no_commands [OF this assms(1)] show ?thesis by (simp add: observes_def)
qed

theorem tui_looking_is_safe_witness:
  "\<exists>fin s'. fp_tui_run sample_terminal (map key ''tqmqcqrq'') stored_world = Some (fin, s')
     \<and> files (s_world s') = files stored_world \<and> nat_tab (s_world s') = nat_tab stored_world"
proof -
  note sound = exact_sound [OF working_os_exact]
  obtain fin s' where r: "fp_tui_run sample_terminal (map key ''tqmqcqrq'') stored_world = Some (fin, s')"
    using tui_run_returns [of sample_terminal, simplified, OF sound] by blast
  from tui_looking_is_safe [OF _ r] sound r show ?thesis
    by (auto simp: command_key_def is_key_def key_inject)
qed

end
