(* ===== verification/Tui_Keys.thy ===== *)
theory Tui_Keys
  imports Tui_Session
begin

text \<open>
  Particular sessions: what Ctrl-Left does in the proxy prompt, and what an unchanged direct list does when it
  is confirmed.
\<close>

section \<open>Single keys\<close>

text \<open>A session that can end with the proxy switched off.\<close>

definition ends_off :: "('k \<Rightarrow> nat_view) \<Rightarrow> 'k tui_os \<Rightarrow> 'k session \<Rightarrow> bool" where
  "ends_off view env s \<longleftrightarrow> (\<exists>s'. tui_loop env s = Some (True, s') \<and> cleared (view (nat_tab (s_world s'))))"

lemma ends_off_quit:
  assumes "ipt_sound (machine env) view" and "keys s = [key CHR ''q'']" and "cleared (view (nat_tab (s_world s)))"
  shows "ends_off view env s"
proof -
  obtain status w where c: "fp_collect_status (machine env) (s_world s) = (status, w)" by force
  have "view (nat_tab w) = view (nat_tab (s_world s))"
    using fp_collect_status_observes [OF c] assms(1) by (simp add: observes_def)
  with c assms(2,3) show ?thesis
    by (auto simp: ends_off_def tui_loop.simps [of env s] Let_def is_quit_def is_key_def)
qed

lemma ends_off_step:
  assumes "keys s = k # ks" and "\<not> is_quit k"
    and step: "\<And>status w x. fp_collect_status (machine env) (s_world s) = (status, w) \<Longrightarrow> s_world x = w \<Longrightarrow> keys x = ks \<Longrightarrow>
      \<exists>s1. tui_command env status k x = Some (Stay, s1) \<and> ends_off view env s1"
  shows "ends_off view env s"
proof -
  obtain status w where c: "fp_collect_status (machine env) (s_world s) = (status, w)" by force
  let ?x = "s\<lparr>s_world := w, display := draw_screen (terminal env) status (UI_TEXT (s_language s)) (s_message s), keys := ks\<rparr>"
  obtain s1 where "tui_command env status k ?x = Some (Stay, s1)" "ends_off view env s1"
    using step [OF c, of ?x] by auto
  with assms(1,2) c show ?thesis by (auto simp: ends_off_def tui_loop.simps [of env s] Let_def)
qed

lemma other_key:
  assumes "keys s = key k # ks" and "k \<notin> set ''qQsSeEbBdDaAmMtTcCuUlL''" and "\<And>s1. keys s1 = ks \<Longrightarrow> ends_off view env s1"
  shows "ends_off view env s"
  by (rule ends_off_step [OF assms(1)])
    (use assms(2,3) in \<open>auto simp: tui_command_def Let_def is_key_def is_quit_def key_inject\<close>)

lemma off_key:
  assumes "ipt_exact (machine env) view" and "faults (machine env) = (\<lambda>_. False)" and "keys s = map key ''Dq''"
  shows "ends_off view env s"
proof (rule ends_off_step)
  show "keys s = key CHR ''D'' # map key ''q''" "\<not> is_quit (key CHR ''D'')"
    using assms(3) by (simp_all add: is_quit_def is_key_def key_inject)
next
  fix status w and x :: "'a session"
  assume x: "s_world x = w" "keys x = map key ''q''"
  obtain fd w1 where 1: "fp_lock_acquire (machine env) w = (fd, w1)" by force
  then have "0 \<le> fd" using fp_lock_acquire_quiet [OF assms(2), of w] by simp
  then obtain r w2 where 2: "fp_disable_proxy (machine env) w = Some (r, w2)" "cleared (view (nat_tab w2))"
    using fp_disable_proxy_exact [OF assms(1) 1] by blast
  show "\<exists>s1. tui_command env status (key CHR ''D'') x = Some (Stay, s1) \<and> ends_off view env s1"
    using 2 x ends_off_quit [OF exact_sound [OF assms(1)]]
    by (simp add: tui_command_def is_key_def key_inject Let_def)
qed

text \<open>
  C9: Ctrl-Left in the proxy prompt switches the proxy off. The prompt reads three bytes of the key's escape sequence
  \<open>ESC [ 1 ; 5 D\<close> and takes them for a cancel; the rest is read by the main screen, where \<open>D\<close> is the command to
  disable: on every machine whose commands work, after these keys no rule is left.
\<close>

theorem ctrl_left_turns_off:
  assumes "ipt_exact (machine env) view" and "faults (machine env) = (\<lambda>_. False)"
  shows "\<exists>s'. fp_tui_run env (key CHR ''e'' # ctrl_left @ map key ''q'') w = Some (True, s')
    \<and> cleared (view (nat_tab (s_world s')))"
proof -
  have 5: "ends_off view env s" if "keys s = map key ''5Dq''" for s
    by (rule other_key [of s "CHR ''5''" "map key ''Dq''"]) (use that off_key [OF assms] in auto)
  have semicolon: "ends_off view env s" if "keys s = map key '';5Dq''" for s
    by (rule other_key [of s "CHR '';''" "map key ''5Dq''"]) (use that 5 in auto)
  have "ends_off view env s" if "keys s = key CHR ''e'' # ctrl_left @ map key ''q''" for s
  proof (rule ends_off_step [OF that])
    show "\<not> is_quit (key CHR ''e'')" by (simp add: is_quit_def is_key_def key_inject)
  next
    fix status w and x :: "'a session"
    assume "keys x = ctrl_left @ map key ''q''"
    then show "\<exists>s1. tui_command env status (key CHR ''e'') x = Some (Stay, s1) \<and> ends_off view env s1"
      using ctrl_left_leaves_keys [of "map key ''q''"] semicolon
      by (simp add: tui_command_def command_enable_def is_key_def key_inject Let_def)
  qed
  then show ?thesis by (auto simp: ends_off_def fp_tui_run_def split: prod.split)
qed

theorem ctrl_left_turns_off_witness:
  "\<exists>s'. fp_tui_run sample_terminal (key CHR ''e'' # ctrl_left @ map key ''q'')
       (stored_world\<lparr>nat_tab := nat_tab after_enable\<rparr>) = Some (True, s') \<and> cleared (nat_tab (s_world s'))"
  using ctrl_left_turns_off [of sample_terminal "\<lambda>v. v"] working_os_exact by simp

section \<open>Confirming the direct list\<close>

lemma observes_stored: "observes os w w' \<Longrightarrow> stored_config w' = stored_config w"
  by (rule stored_config_kept) (simp add: observes_def kept_files_def)

lemma join_fits:
  assumes "wf_bypass bs"
  shows "length (join_with CHR '','' (map btext bs)) < FP_BYPASS_TEXT_SIZE"
proof (cases bs)
  case (Cons b bs')
  have "\<forall>b \<in> set bs. wf_entry b" "length bs \<le> 32" using assms by (simp_all add: wf_bypass_def FP_MAX_BYPASS_def)
  then have "sum_list (map (\<lambda>b. Suc (length (btext b))) bs) \<le> 608" using entries_size [of bs] by linarith
  moreover have "length (concat (map (\<lambda>b. CHR '','' # btext b) xs)) = sum_list (map (\<lambda>b. Suc (length (btext b))) xs)" for xs
    by (induction xs) auto
  from this [of bs'] have "length (join_with CHR '','' (map btext bs)) < sum_list (map (\<lambda>b. Suc (length (btext b))) bs)"
    by (simp add: Cons join_with_concat comp_def)
  ultimately show ?thesis by (simp add: FP_BYPASS_TEXT_SIZE_def FP_MAX_BYPASS_def)
qed (simp add: FP_BYPASS_TEXT_SIZE_def FP_MAX_BYPASS_def)

lemma none_is_no_list: "fp_parse_bypass_list (Some ''none'') cfg \<noteq> (ok, cfg')"
proof -
  have "trim ''none'' = ''none''" "strchr_split CHR ''/'' ''none'' = None" "inet_pton ''none'' = None"
    by code_simp+
  then have "append_bypass ''none'' c = (fail, c)" for c
    by (simp add: append_bypass_def append_parsed_def Let_def)
  then show ?thesis by (simp add: fp_parse_bypass_list_def)
qed

lemma initial_text:
  assumes "faults os = (\<lambda>_. False)" and "stored_config w = Some config" and "fp_collect_status os w = (status, w')"
  shows "initial_bypass status = join_with CHR '','' (map btext (bypass config))"
proof -
  have wf: "wf_bypass (bypass config)" using stored_config_wf [OF assms(2)] by (simp add: wf_config_def)
  note st = status_of_config [OF assms, of config]
  show ?thesis
  proof (cases "bypass config = []")
    case False
    then have "bypass_shown status \<noteq> ''none''" using st none_is_no_list by auto
    with st False join_fits [OF wf] show ?thesis by (simp add: initial_bypass_def)
  qed (use st in \<open>simp add: initial_bypass_def\<close>)
qed

lemma set_same_list:
  assumes "faults os = (\<lambda>_. False)" "self_pid os < 10 ^ 11" "ipt_sound os view"
    and "stored_config w = Some config"
    and "fp_set_bypass os (join_with CHR '','' (map btext (bypass config))) w = Some (r, w')"
  shows "stored_config w' = Some config"
proof -
  have "wf_bypass (bypass config)" using stored_config_wf [OF assms(4)] by (simp add: wf_config_def)
  from parse_bypass_texts [OF this, of config] fp_set_bypass_run [OF assms]
  show ?thesis by (auto split: if_splits)
qed

text \<open>
  C10: Opening the editor of the direct list and confirming it changes nothing: the text it starts with is what the
  status shows of the stored list, uncut and with \<open>none\<close> taken as no list, and parsing it gives the stored list back.
  So after \<open>b\<close> and Enter the configuration file holds the configuration it held, whether or not the commands worked.
\<close>

theorem bypass_prompt_identity:
  assumes "ipt_sound (machine env) view" and "faults (machine env) = (\<lambda>_. False)" and "self_pid (machine env) < 10 ^ 11"
    and "stored_config w = Some config"
  shows "\<exists>s'. fp_tui_run env [key CHR ''b'', NEWLINE, key CHR ''q''] w = Some (True, s')
    \<and> stored_config (s_world s') = Some config"
proof -
  let ?list = "join_with CHR '','' (map btext (bypass config))"
  obtain l w1 where l: "fp_ui_language_load (machine env) w = (l, w1)" by force
  obtain status w2 where 2: "fp_collect_status (machine env) w1 = (status, w2)" by force
  note o1 = observes_stored [OF sights_observes [OF fp_ui_language_load_sights [OF l]]]
  note o2 = observes_stored [OF fp_collect_status_observes [OF 2]]
  have i: "initial_bypass status = ?list" using initial_text [OF assms(2) _ 2] o1 assms(4) by simp
  have fits: "length ?list < FP_BYPASS_TEXT_SIZE"
    using join_fits stored_config_wf [OF assms(4)] by (simp add: wf_config_def)
  obtain r w3 where 3: "fp_set_bypass (machine env) ?list w2 = Some (r, w3)"
    using operations_total(3) [OF assms(1), of ?list w2] by auto
  have s3: "stored_config w3 = Some config" using set_same_list [OF assms(2,3,1) _ 3] o1 o2 assms(4) by simp
  obtain status4 w4 where 4: "fp_collect_status (machine env) w3 = (status4, w4)" by force
  have p: "prompt_bypass (NEWLINE # ks) ?list = Some (Some ?list, ks)" for ks
    using fits by (simp add: prompt_bypass_def prompt_loop_enter)
  show ?thesis
    using l 2 i p 3 4 s3 observes_stored [OF fp_collect_status_observes [OF 4]]
    by (simp add: fp_tui_run_def tui_loop.simps Let_def tui_command_def command_bypass_def is_quit_def is_key_def key_inject)
qed

theorem bypass_prompt_identity_witness:
  "\<exists>s'. fp_tui_run sample_terminal [key CHR ''b'', NEWLINE, key CHR ''q''] stored_world = Some (True, s')
     \<and> stored_config (s_world s') = Some sample_config"
  using bypass_prompt_identity [of sample_terminal, simplified, OF exact_sound [OF working_os_exact]]
    working_os_sel stored_world_sel(1) by simp

end
