(* ===== verification/Spec2Isabelle.thy ===== *)
theory Spec2Isabelle
  imports Operations_Correct Proxy Stats_Sharing Accept Resolver Format Command_Line Net_Test Diagnostic
    Tui_Layout Tui_Follow Tui_Keys
begin

text \<open>
  free_proxy is a transparent SOCKS5 client: a daemon accepts the TCP connections that a packet-filter
  rule redirects to port 12345, asks the kernel for their original destination and relays them through one upstream
  SOCKS5 proxy. A command line and a terminal interface configure it, start and stop it, test it and watch it. This
  development models the program (\<open>src/*.c\<close> and \<open>include/free_proxy.h\<close>) function by
  function and proves what each part promises.


  HOW THE PARTS FIT TOGETHER

  \<open>main\<close> dispatches to the operations or to the terminal interface. An operation takes a lock, changes
  the stored configuration, the daemon and the packet filter, in this order, and takes its steps back when a later
  one fails. The daemon, once it listens and its rules are installed, accepts connections and gives each to a worker
  process; the workers write their counters into a shared file, which the monitor page maps. Tests and the diagnosis
  run in a thread of the terminal interface and send it events through a pipe.


  STATE AND SURROUNDINGS

  The state the operations work on is the record \<open>world\<close> of \<open>World\<close>: files, directories,
  the packet filter's table, the process table, the signals sent. What the program only calls is a parameter, always
  a record of answers: \<open>os\<close> (which system call fails, what \<open>iptables\<close>,
  \<open>systemctl\<close>, \<open>/proc\<close> and a started child do), \<open>sock\<close> (what the peer sends,
  in which pieces, and how much of a \<open>send\<close> is taken), \<open>stats_env\<close>, \<open>net_os\<close>
  (clock, resolver, connections and the cancel flag as the successive reads meet them), \<open>curl_os\<close>, and
  for the screens \<open>window\<close> and \<open>tui_os\<close>. A theorem for all values of a parameter holds for
  every behaviour of the surroundings. Errors are values: 0 and -1 as in C (\<open>ok\<close>, \<open>fail\<close>),
  \<open>None\<close> where a call does not come back or names memory outside its buffer. Machine integers are words
  where they can wrap (ports, addresses, counters of 64 bits, masks).

  The assumptions on the surroundings are named: \<open>ipt_sound\<close>, an \<open>iptables\<close> command that
  reports success has done its documented step and one that reports failure nothing; \<open>ipt_exact\<close>,
  moreover a possible step succeeds and \<open>fork\<close> does not fail; \<open>faults os = (\<lambda>_.
  False)\<close>, no file or process call fails; \<open>healthy\<close>, both, the port is free, a started child
  reports in time and no daemon runs; \<open>sane_table\<close>, process ids are positive and process 1 is no
  daemon; \<open>never_cancelled\<close> and \<open>in_time\<close>, no cancel and no timeout during a download.
  Each has a concrete instance (\<open>reference_os\<close>, \<open>working_os\<close>,
  \<open>sample_net_os\<close>, \<open>sample_terminal\<close>) that the witnesses use.


  THE THEORIES

  Foundations. \<open>Prelude\<close>: types, collections of rewrite rules, generic lemmas. \<open>CLib\<close>: the
  C string functions. \<open>Inet\<close>: \<open>inet_pton\<close> and \<open>inet_ntop\<close>, with the codec
  contract \<open>text_codec\<close>. \<open>World\<close>: the state, the parameters and the system calls.
  \<open>Double\<close>: rounding to 53 digits and \<open>%.nf\<close>. \<open>Sockets\<close>: sockets and the
  loops that read or write exactly \<open>n\<close> bytes, with the contract \<open>exact_reader\<close> that the
  SOCKS5 reader, the proxy and the event pipes share.

  Configuration (\<open>config.c\<close>): \<open>Config\<close>, the parsers \<open>fp_parse_proxy\<close>,
  \<open>fp_parse_bypass_list\<close>, the file \<open>fp_config_save\<close>, \<open>fp_config_load\<close>, the
  language file; contract \<open>config_store\<close> (what is saved is loaded, a failed save changes nothing).

  Packet filter (\<open>firewall.c\<close>): \<open>Firewall\<close>, enable, disable and the check; the loop that
  deletes duplicate jumps is a partial function, shown to end; the semantics of the rules
  (\<open>chain_verdict\<close>); the course of the table while the rules are replaced (\<open>phases\<close>: the
  old chain, then a beginning of the new one); contract \<open>packet_filter\<close>.

  Processes (\<open>process.c\<close>): \<open>Process\<close>, the process record, the recognition of a daemon and
  stopping it; \<open>Daemon\<close>, starting it and the start-up half of \<open>fp_proxy_run\<close>.

  Operations (\<open>operations.c\<close>, \<open>systemd.c\<close>): \<open>Systemd\<close>,
  \<open>Operations\<close> the definitions, \<open>Operations_Correct\<close> the theorems, over the locale
  \<open>managed_filter\<close> that joins the two contracts above; \<open>Observe\<close>, the operations that only
  look: they leave every file, directory, signal and rule as it is.

  Command line (\<open>main.c\<close>): \<open>Command_Line\<close>, every command with its output and exit status,
  and a daemon's whole run.

  Daemon (\<open>proxy.c\<close>, \<open>socks5.c\<close>): \<open>Socks5\<close>, \<open>Proxy\<close> (the SOCKS5
  dialogue, the relay loop, the worker), \<open>Accept\<close> (the accept loop and the \<open>SIGCHLD\<close>
  handler as an interleaving).

  Statistics (\<open>stats.c\<close>): \<open>Stats\<close>, the operations of one process;
  \<open>Stats_Sharing\<close>, all processes store by store, with auxiliary counters of the bytes counted in the
  slots and of those a killed worker never added to a total.

  Tests (\<open>test.c\<close>, \<open>web_probe.c\<close>, \<open>format.c\<close>): \<open>Resolver\<close> (the
  two threads of a lookup), \<open>Download\<close>, \<open>Web_Probe\<close>, \<open>Net_Test\<close>
  (\<open>fp_test_run\<close>; beside it \<open>test_outcomes\<close>, the plain account of what is measured, and
  the locale \<open>entry_loop\<close> of what the two loops over entries share), \<open>Diagnostic\<close>
  (\<open>fp_diagnostic_run\<close>), \<open>Format\<close>.

  Terminal interface (\<open>tui.c\<close>): \<open>Tui_Text\<close>, the two languages as UTF-8 bytes;
  \<open>Tui_Input\<close>, keys and line editors; \<open>Tui_Screen\<close>, every \<open>draw_\<close> function as
  the list of texts it puts on the screen; \<open>Tui_Events\<close>, the event pipes and the loops of the test and
  diagnosis pages; \<open>Tui_Monitor\<close>, rates, refresh and the test on the monitor page; \<open>Tui\<close>,
  the pages, commands and the loop of \<open>fp_tui_run\<close>, with the locale \<open>watcher\<close> of what
  pages may rely on. Theorems: \<open>Tui_Session\<close>, \<open>Tui_Keys\<close>, \<open>Tui_Follow\<close> (with
  the locale \<open>event_page\<close>), \<open>Tui_Layout\<close>.


  WHAT THE LEMMAS SHOW

  For the operations: success means the requested configuration is stored and the rules for it are installed,
  failure restores what was there, disabling leaves no rule, every operation returns. Uninstalling leaves no rule
  and, of the program's own files and directories, at most the statistics of a daemon that could not be stopped. For
  the rules: exactly the destinations that are not exempt are redirected; enabling redirects no exempt one that was
  not redirected before, since it flushes the old chain first and appends the redirecting rule last. For the daemon:
  the SOCKS5 dialogue byte for byte, a relay that loses, repeats and reorders nothing, a counter of workers that is
  exact whenever the signal handler can run, slots that no two workers share, totals that are, when all additions
  begun are finished, the bytes counted in the slots, and a process that removes its rules whenever
  \<open>main\<close> returns. For the tests: reports that agree entry by entry with what was measured. For the
  terminal interface: a session is a sequence of the changes its keys asked for (\<open>session_of\<close> is that
  specification), pages that only look change no file, signal or rule, editors return exactly the texts they allow,
  pages follow their thread to its last event.

  Errors that modelling showed: \<open>firewall_disable_blind\<close> (disabling reports success when no check could
  be run), \<open>stats_lost_forever\<close> (a slot lost by a kill), \<open>second_run_disarms\<close> (a second
  run removes the rules of the first), \<open>ctrl_left_turns_off\<close> (the rest of an escape sequence is taken
  for commands), \<open>greeting_cut\<close> (a Chinese text is cut inside a character).


  BOUNDS

  Loops are structural or have a measure; there is no fuel. Loops over input end when the script of the socket, the
  list of keys or the list of passes ends, and the result then says that the program is still waiting. The loop that
  deletes jumps is a \<open>partial_function\<close>, so that not returning would be \<open>None\<close>;
  \<open>ipt_sound\<close> rules it out.


  NOT MODELLED

  Waiting for a lock that another process holds; a daemon that is being stopped while it still serves (the accept
  loop and stopping are modelled apart); a child that ignores SIGTERM after its parent has given up on it, for which
  the blocking \<open>waitpid\<close> at the end of \<open>fp_start_daemon\<close> would wait for ever
  (\<open>run_child\<close> lets every child end); a process id that is given to another process between the check
  and the signal (the process table changes while the program sleeps, signals or runs \<open>systemctl\<close>); a
  daemon killed by SIGKILL, which runs no cleanup (\<open>run_cleans_up\<close> is about the returns of
  \<open>main\<close>); time other than as the answers of the clock; memory exhaustion in the thread library. Of the
  terminal interface: colours and attributes, the set-up calls of ncurses, \<open>fp_web_probe_init\<close> in
  \<open>fp_tui_run\<close> (whether libcurl is initialised is an answer of \<open>curl_os\<close>); the thread of a
  test looks at the files and the rules before the page's own looks rather than between them, both only observe;
  that \<open>q\<close> raises the cancel flag the thread reads is not tied to the answers of \<open>net_os\<close>,
  which range over all times of cancelling. What \<open>ipt_sound\<close> and \<open>ipt_exact\<close> say of
  commands outside \<open>nat_step\<close>, that they fail, is stronger than the documentation of
  \<open>iptables\<close>; the program issues none. A download that is never cancelled is one without a flag
  (\<open>never_cancelled\<close>). Prototypes and feature macros of the header file have no counterpart.
\<close>

section \<open>The program without arguments\<close>

text \<open>
  \<open>main\<close> and the terminal interface together: without arguments the program runs a session and, when it has
  ended, exits with 0; what it did to the machine are the changes its keys asked for.
\<close>

lemma program_without_arguments:
  assumes "fp_tui_run env ks w = Some (True, s')" and "tui w = (0, s_world s')"
  shows "main_program (machine env) True tui meanwhile [program] w = Some (says 0 '''', s_world s')
    \<and> (\<exists>cs. session_of (machine env) (read_line env) ks cs w (s_world s'))"
  using assms tui_run_session by (simp add: main_program_def)

end
